(* ===== verification/Prelude.thy ===== *)
theory Prelude
  imports Main "HOL-Library.Word"
begin

text \<open>
  Shared material of the development: the widths of the C integer types, the outcome
  type and the state monad in which the kernel operations are written, a small calculus
  for invariants of monadic code, little-endian encodings of words as bytes, and generic
  lemmas on lists and words.
\<close>

unbundle bit_operations_syntax

section \<open>C integer types\<close>

type_synonym uchar = "8 word"
type_synonym ushort = "16 word"
type_synonym uint = "32 word"

section \<open>Outcomes and the kernel monad\<close>

text \<open>
  A kernel operation takes the state of the machine and ends in one of two ways:
  it returns a value (\<open>Ok\<close>) or control never comes back to the caller in this run
  (\<open>Stop\<close>): the kernel called \<open>panic\<close>, the thread switched to the scheduler
  (\<open>swtch\<close> in \<open>sched\<close>), the CPU spins on a lock another CPU holds, the code
  loops without end, or it performed an access that C leaves undefined. The state at
  that point is kept in every case.
\<close>

datatype stop =
    Panic string
  | Swtch
  | Spin
  | Diverge
  | Undef string

datatype ('a, 's) outcome = Ok 'a 's | Stop stop 's

type_synonym ('s, 'a) kop = "'s \<Rightarrow> ('a, 's) outcome"

definition returnk :: "'a \<Rightarrow> ('s, 'a) kop" where
  "returnk x s = Ok x s"

definition bindk :: "('s, 'a) kop \<Rightarrow> ('a \<Rightarrow> ('s, 'b) kop) \<Rightarrow> ('s, 'b) kop" where
  "bindk f g s = (case f s of Ok x s' \<Rightarrow> g x s' | Stop e s' \<Rightarrow> Stop e s')"

definition thenk :: "('s, 'a) kop \<Rightarrow> ('s, 'b) kop \<Rightarrow> ('s, 'b) kop" where
  "thenk f g = bindk f (\<lambda>_. g)"

definition stopk :: "stop \<Rightarrow> ('s, 'a) kop" where
  "stopk e s = Stop e s"

abbreviation panick :: "string \<Rightarrow> ('s, 'a) kop" where
  "panick msg \<equiv> stopk (Panic msg)"

definition getk :: "('s \<Rightarrow> 'a) \<Rightarrow> ('s, 'a) kop" where
  "getk f s = Ok (f s) s"

definition modk :: "('s \<Rightarrow> 's) \<Rightarrow> ('s, unit) kop" where
  "modk f s = Ok () (f s)"

definition whenk :: "bool \<Rightarrow> ('s, unit) kop \<Rightarrow> ('s, unit) kop" where
  "whenk b f = (if b then f else returnk ())"

primrec foreachk :: "'x list \<Rightarrow> ('x \<Rightarrow> ('s, unit) kop) \<Rightarrow> ('s, unit) kop" where
  "foreachk [] f = returnk ()"
| "foreachk (x # xs) f = thenk (f x) (foreachk xs f)"

primrec repeatk :: "nat \<Rightarrow> ('s, 'a) kop \<Rightarrow> ('s, 'a list) kop" where
  "repeatk 0 f = returnk []"
| "repeatk (Suc n) f = bindk f (\<lambda>x. bindk (repeatk n f) (\<lambda>xs. returnk (x # xs)))"

primrec final :: "('a, 's) outcome \<Rightarrow> 's" where
  "final (Ok x s) = s"
| "final (Stop e s) = s"

primrec is_ok :: "('a, 's) outcome \<Rightarrow> bool" where
  "is_ok (Ok x s) = True"
| "is_ok (Stop e s) = False"

named_theorems kop_defs "unfolding of the monad operations"

lemmas monad_defs [kop_defs] =
  returnk_def bindk_def thenk_def stopk_def getk_def modk_def whenk_def

lemma bindk_Ok_iff:
  "bindk f g s = Ok y t \<longleftrightarrow> (\<exists>x s'. f s = Ok x s' \<and> g x s' = Ok y t)"
  by (auto simp: bindk_def split: outcome.splits)

lemma thenk_Ok_iff:
  "thenk f g s = Ok y t \<longleftrightarrow> (\<exists>x s'. f s = Ok x s' \<and> g s' = Ok y t)"
  by (simp add: thenk_def bindk_Ok_iff)

lemma bindk_ok [simp]: "f s = Ok x s' \<Longrightarrow> bindk f g s = g x s'"
  by (simp add: bindk_def)

lemma bindk_stop: "f s = Stop e s' \<Longrightarrow> bindk f g s = Stop e s'"
  by (simp add: bindk_def)

lemma thenk_ok [simp]: "f s = Ok x s' \<Longrightarrow> thenk f g s = g s'"
  by (simp add: thenk_def)

lemma thenk_stop: "f s = Stop e s' \<Longrightarrow> thenk f g s = Stop e s'"
  by (simp add: thenk_def bindk_stop)

lemma bindk_returnk [simp]: "bindk (returnk x) g = g x"
  by (simp add: fun_eq_iff bindk_def returnk_def)

lemma bindk_returnk_right [simp]: "bindk f returnk = f"
  by (simp add: fun_eq_iff bindk_def returnk_def split: outcome.splits)

lemma bindk_assoc: "bindk (bindk f g) h = bindk f (\<lambda>x. bindk (g x) h)"
  by (auto simp: fun_eq_iff bindk_def split: outcome.splits)

section \<open>Invariants of kernel operations\<close>

text \<open>
  \<open>keeps I f\<close> says that \<open>f\<close> preserves the state predicate \<open>I\<close> however it
  ends; \<open>keeps_ok I f\<close> says so for the runs in which \<open>f\<close> returns.
\<close>

definition keeps :: "('s \<Rightarrow> bool) \<Rightarrow> ('s, 'a) kop \<Rightarrow> bool" where
  "keeps I f \<longleftrightarrow> (\<forall>s. I s \<longrightarrow> I (final (f s)))"

named_theorems keeps_intros "rules that show that an operation keeps an invariant"

lemma keepsD: "keeps I f \<Longrightarrow> I s \<Longrightarrow> I (final (f s))"
  by (simp add: keeps_def)

lemma keepsI: "(\<And>s. I s \<Longrightarrow> I (final (f s))) \<Longrightarrow> keeps I f"
  by (simp add: keeps_def)

lemma keeps_Ok: "keeps I f \<Longrightarrow> I s \<Longrightarrow> f s = Ok x s' \<Longrightarrow> I s'"
  by (metis final.simps(1) keepsD)

lemma keeps_returnk [keeps_intros]: "keeps I (returnk x)"
  by (simp add: keeps_def returnk_def)

lemma keeps_stopk [keeps_intros]: "keeps I (stopk e)"
  by (simp add: keeps_def stopk_def)

lemma keeps_getk [keeps_intros]: "keeps I (getk f)"
  by (simp add: keeps_def getk_def)

lemma keeps_bindk [keeps_intros]:
  assumes "keeps I f" and "\<And>x. keeps I (g x)"
  shows "keeps I (bindk f g)"
proof (rule keepsI)
  fix s assume s: "I s"
  show "I (final (bindk f g s))"
  proof (cases "f s")
    case (Ok x s')
    then have "I s'" using assms(1) s by (auto dest: keepsD)
    with Ok show ?thesis using assms(2) by (auto dest: keepsD)
  next
    case (Stop e s')
    then show ?thesis using assms(1) s by (auto simp: bindk_def dest: keepsD)
  qed
qed

lemma keeps_thenk [keeps_intros]: "keeps I f \<Longrightarrow> keeps I g \<Longrightarrow> keeps I (thenk f g)"
  by (simp add: thenk_def keeps_bindk)

lemma keeps_whenk [keeps_intros]: "(b \<Longrightarrow> keeps I f) \<Longrightarrow> keeps I (whenk b f)"
  by (simp add: whenk_def keeps_returnk)

lemma keeps_if [keeps_intros]:
  "(b \<Longrightarrow> keeps I f) \<Longrightarrow> (\<not> b \<Longrightarrow> keeps I g) \<Longrightarrow> keeps I (if b then f else g)"
  by simp

lemma keeps_case_option [keeps_intros]:
  "(x = None \<Longrightarrow> keeps I f) \<Longrightarrow> (\<And>y. x = Some y \<Longrightarrow> keeps I (g y)) \<Longrightarrow>
   keeps I (case x of None \<Rightarrow> f | Some y \<Rightarrow> g y)"
  by (cases x) auto

lemma keeps_case_prod [keeps_intros]:
  "(\<And>a b. x = (a, b) \<Longrightarrow> keeps I (f a b)) \<Longrightarrow> keeps I (case x of (a, b) \<Rightarrow> f a b)"
  by (cases x) auto

lemma keeps_let [keeps_intros]: "keeps I (f x) \<Longrightarrow> keeps I (let y = x in f y)"
  by simp

lemma keeps_modk: "(\<And>s. I s \<Longrightarrow> I (f s)) \<Longrightarrow> keeps I (modk f)"
  by (simp add: keeps_def modk_def)

lemma keeps_foreachk [keeps_intros]:
  "(\<And>x. x \<in> set xs \<Longrightarrow> keeps I (f x)) \<Longrightarrow> keeps I (foreachk xs f)"
  by (induction xs) (auto intro: keeps_intros)

section \<open>Loops\<close>

lemma foreachk_append:
  "foreachk (xs @ ys) f s = (case foreachk xs f s of Ok _ t \<Rightarrow> foreachk ys f t | Stop x t \<Rightarrow> Stop x t)"
  by (induction xs arbitrary: s) (auto simp: kop_defs split: outcome.splits)

text \<open>A counting loop whose every round succeeds and leads from \<open>P i\<close> to \<open>P (Suc i)\<close>.\<close>

lemma foreachk_upto:
  assumes "\<And>i t. i < n \<Longrightarrow> P i t \<Longrightarrow> \<exists>u. f i t = Ok () u \<and> P (Suc i) u" and "P 0 s"
  shows "\<exists>t. foreachk [0..<n] f s = Ok () t \<and> P n t"
  using assms(1)
proof (induction n)
  case 0
  then show ?case using assms(2) by (simp add: kop_defs)
next
  case (Suc n)
  then obtain t where "foreachk [0..<n] f s = Ok () t" "P n t" by (meson less_Suc_eq)
  then show ?case using Suc.prems [of n t] by (auto simp: foreachk_append kop_defs)
qed

section \<open>Lists\<close>

lemma find_SomeD: "find P xs = Some x \<Longrightarrow> P x \<and> x \<in> set xs"
  by (auto simp: find_Some_iff)

section \<open>Little-endian encodings\<close>

definition le16 :: "ushort \<Rightarrow> uchar list" where
  "le16 w = [ucast w, ucast (drop_bit 8 w)]"

definition un16 :: "uchar \<Rightarrow> uchar \<Rightarrow> ushort" where
  "un16 b0 b1 = ucast b0 OR push_bit 8 (ucast b1)"

definition le32 :: "uint \<Rightarrow> uchar list" where
  "le32 w = [ucast w, ucast (drop_bit 8 w), ucast (drop_bit 16 w), ucast (drop_bit 24 w)]"

definition un32 :: "uchar \<Rightarrow> uchar \<Rightarrow> uchar \<Rightarrow> uchar \<Rightarrow> uint" where
  "un32 b0 b1 b2 b3 =
     ucast b0 OR push_bit 8 (ucast b1) OR push_bit 16 (ucast b2) OR push_bit 24 (ucast b3)"

lemma length_le16 [simp]: "length (le16 w) = 2"
  by (simp add: le16_def)

lemma length_le32 [simp]: "length (le32 w) = 4"
  by (simp add: le32_def)

lemma un16_le16 [simp]: "un16 (ucast w) (ucast (drop_bit 8 w)) = w"
  by (rule bit_word_eqI) (auto simp: un16_def bit_simps)

lemma un32_le32 [simp]:
  "un32 (ucast w) (ucast (drop_bit 8 w)) (ucast (drop_bit 16 w)) (ucast (drop_bit 24 w)) = w"
proof (rule bit_word_eqI)
  fix n assume "n < LENGTH(32)"
  then show "bit (un32 (ucast w) (ucast (drop_bit 8 w)) (ucast (drop_bit 16 w))
      (ucast (drop_bit 24 w))) n = bit w n"
    by (cases "n < 8"; cases "n < 16"; cases "n < 24") (auto simp: un32_def bit_simps)
qed

end
