(* ===== verification/Spinlock.thy ===== *)
theory Spinlock
  imports Prelude
begin

text \<open>
  CPUs and spin locks: \<open>src/spinlock.c\<close>, \<open>src/spinlock.h\<close>, \<open>struct cpu\<close> of
  \<open>src/proc.h\<close>, and \<open>mycpu\<close>, \<open>cpuid\<close> of \<open>src/proc.c\<close>. The machine is seen from
  the CPU that executes: \<open>lapicid\<close> is what its local APIC reports, and the interrupt
  flag and the page-table register are kept per local APIC id. The table \<open>cpus\<close> is a
  function from indices, of which the first \<open>ncpu\<close> are in use. Kernel objects are
  named, not addressed: a spin lock by its place in the kernel (\<open>spinlock_id\<close>), a
  process by its index in \<open>ptable.proc\<close>, a thread by the index of its process and its
  own index. Call stacks recorded for debugging (\<open>pcs\<close>) and console output are not
  part of the model.
\<close>

section \<open>Names of locks\<close>

datatype sleeplock_id = BufLock nat | InodeLock nat

datatype spinlock_id =
    PtableLock
  | KmemLock
  | BcacheLock
  | LogLock
  | IcacheLock
  | FtableLock
  | TicksLock
  | ConsLock
  | IdeLock
  | MutexesLock
  | MutexLock nat
  | LocalMutexLock nat nat
  | PipeLock uint
  | SleepLk sleeplock_id

section \<open>Data\<close>

record spinlock =
  lk_locked :: uint
  lk_name :: string
  lk_cpu :: "nat option"

record cpu =
  apicid :: uchar
  ts_esp0 :: uint
  ts_ss0 :: ushort
  ts_iomb :: ushort
  started :: bool
  ncli :: int
  intena :: bool
  cpu_proc :: "nat option"
  cpu_thread :: "(nat \<times> nat) option"

record machine =
  lapicid :: uchar
  eflags_if :: "uchar \<Rightarrow> bool"
  cr3 :: "uchar \<Rightarrow> uint"
  cpus :: "nat \<Rightarrow> cpu"
  ncpu :: nat
  locks :: "spinlock_id \<Rightarrow> spinlock"

section \<open>Operations\<close>

definition readeflags :: "'a machine_scheme \<Rightarrow> bool" where
  "readeflags s = eflags_if s (lapicid s)"

definition set_if :: "bool \<Rightarrow> 'a machine_scheme \<Rightarrow> 'a machine_scheme" where
  "set_if b s = s\<lparr>eflags_if := (eflags_if s)(lapicid s := b)\<rparr>"

definition find_cpu :: "'a machine_scheme \<Rightarrow> nat option" where
  "find_cpu s = find (\<lambda>i. apicid (cpus s i) = lapicid s) [0..<ncpu s]"

definition mycpu :: "('a machine_scheme, nat) kop" where
  "mycpu s =
     (if readeflags s then Stop (Panic ''mycpu called with interrupts enabled'') s
      else case find_cpu s of
             Some i \<Rightarrow> Ok i s
           | None \<Rightarrow> Stop (Panic ''unknown apicid'') s)"

definition cpuid :: "('a machine_scheme, nat) kop" where
  "cpuid = mycpu"

definition upd_cpu :: "nat \<Rightarrow> (cpu \<Rightarrow> cpu) \<Rightarrow> 'a machine_scheme \<Rightarrow> 'a machine_scheme" where
  "upd_cpu c f s = s\<lparr>cpus := (cpus s)(c := f (cpus s c))\<rparr>"

definition upd_lock ::
  "spinlock_id \<Rightarrow> (spinlock \<Rightarrow> spinlock) \<Rightarrow> 'a machine_scheme \<Rightarrow> 'a machine_scheme" where
  "upd_lock lk f s = s\<lparr>locks := (locks s)(lk := f (locks s lk))\<rparr>"

definition initlock :: "spinlock_id \<Rightarrow> string \<Rightarrow> ('a machine_scheme, unit) kop" where
  "initlock lk name =
     modk (upd_lock lk (\<lambda>_. \<lparr>lk_locked = 0, lk_name = name, lk_cpu = None\<rparr>))"

definition pushcli :: "('a machine_scheme, unit) kop" where
  "pushcli =
     bindk (getk readeflags) (\<lambda>eflags.
     thenk (modk (set_if False)) (
     bindk mycpu (\<lambda>c.
     bindk (getk (\<lambda>s. ncli (cpus s c))) (\<lambda>n.
     thenk (whenk (n = 0) (modk (upd_cpu c (\<lambda>x. x\<lparr>intena := eflags\<rparr>)))) (
     modk (upd_cpu c (\<lambda>x. x\<lparr>ncli := ncli x + 1\<rparr>)))))))"

definition popcli :: "('a machine_scheme, unit) kop" where
  "popcli =
     bindk (getk readeflags) (\<lambda>fl.
     if fl then panick ''popcli - interruptible''
     else bindk mycpu (\<lambda>c.
     thenk (modk (upd_cpu c (\<lambda>x. x\<lparr>ncli := ncli x - 1\<rparr>))) (
     bindk (getk (\<lambda>s. cpus s c)) (\<lambda>x.
     if ncli x < 0 then panick ''popcli''
     else whenk (ncli x = 0 \<and> intena x) (modk (set_if True))))))"

definition holding :: "spinlock_id \<Rightarrow> ('a machine_scheme, bool) kop" where
  "holding lk =
     thenk pushcli (
     bindk mycpu (\<lambda>c.
     bindk (getk (\<lambda>s. lk_locked (locks s lk) \<noteq> 0 \<and> lk_cpu (locks s lk) = Some c)) (\<lambda>r.
     thenk popcli (
     returnk r))))"

definition acquire :: "spinlock_id \<Rightarrow> ('a machine_scheme, unit) kop" where
  "acquire lk =
     thenk pushcli (
     bindk (holding lk) (\<lambda>h.
     if h then panick ''acquire''
     else bindk (getk (\<lambda>s. lk_locked (locks s lk))) (\<lambda>old.
     thenk (modk (upd_lock lk (\<lambda>l. l\<lparr>lk_locked := 1\<rparr>))) (
     if old \<noteq> 0 then stopk Spin
     else bindk mycpu (\<lambda>c.
       modk (upd_lock lk (\<lambda>l. l\<lparr>lk_cpu := Some c\<rparr>)))))))"

definition release :: "spinlock_id \<Rightarrow> ('a machine_scheme, unit) kop" where
  "release lk =
     bindk (holding lk) (\<lambda>h.
     if \<not> h then panick ''release''
     else thenk (modk (upd_lock lk (\<lambda>l. l\<lparr>lk_cpu := None\<rparr>))) (
     thenk (modk (upd_lock lk (\<lambda>l. l\<lparr>lk_locked := 0\<rparr>))) (
     popcli)))"

section \<open>A sample machine\<close>

text \<open>One processor, interrupts on, running thread 0 of process 0, no lock taken.\<close>

definition sample_cpu :: cpu where
  "sample_cpu = \<lparr>apicid = 0, ts_esp0 = 0, ts_ss0 = 0, ts_iomb = 0, started = True, ncli = 0,
     intena = True, cpu_proc = Some 0, cpu_thread = Some (0, 0)\<rparr>"

definition sample_machine :: "'a \<Rightarrow> 'a machine_scheme" where
  "sample_machine m = \<lparr>lapicid = 0, eflags_if = (\<lambda>_. True), cr3 = (\<lambda>_. 0),
     cpus = (\<lambda>_. sample_cpu), ncpu = 1,
     locks = (\<lambda>_. \<lparr>lk_locked = 0, lk_name = [], lk_cpu = None\<rparr>), \<dots> = m\<rparr>"

section \<open>Interrupt nesting\<close>

text \<open>
  The index of the executing CPU, and what makes its state sound: it is in the table,
  its nesting depth is not negative and interrupts are off inside a \<open>pushcli\<close> section.
\<close>

definition cur :: "'a machine_scheme \<Rightarrow> nat" where
  "cur s = the (find_cpu s)"

definition depth :: "'a machine_scheme \<Rightarrow> int" where
  "depth s = ncli (cpus s (cur s))"

definition cpu_ok :: "'a machine_scheme \<Rightarrow> bool" where
  "cpu_ok s \<longleftrightarrow>
     find_cpu s \<noteq> None \<and> 0 \<le> depth s \<and> (0 < depth s \<longrightarrow> \<not> readeflags s)"

text \<open>The states after \<open>pushcli\<close>, \<open>popcli\<close>, a matched pair, \<open>acquire\<close> and \<open>release\<close>.\<close>

definition cli_st :: "'a machine_scheme \<Rightarrow> 'a machine_scheme" where
  "cli_st s = set_if False (upd_cpu (cur s) (\<lambda>x. x\<lparr>
     intena := (if ncli x = 0 then readeflags s else intena x), ncli := ncli x + 1\<rparr>) s)"

definition sti_st :: "'a machine_scheme \<Rightarrow> 'a machine_scheme" where
  "sti_st s = upd_cpu (cur s) (\<lambda>x. x\<lparr>ncli := ncli x - 1\<rparr>)
     (if depth s = 1 \<and> intena (cpus s (cur s)) then set_if True s else s)"

definition settle :: "'a machine_scheme \<Rightarrow> 'a machine_scheme" where
  "settle s =
     upd_cpu (cur s) (\<lambda>x. x\<lparr>intena := (if ncli x = 0 then readeflags s else intena x)\<rparr>) s"

definition lock_st :: "spinlock_id \<Rightarrow> 'a machine_scheme \<Rightarrow> 'a machine_scheme" where
  "lock_st lk s = upd_lock lk (\<lambda>l. l\<lparr>lk_locked := 1, lk_cpu := Some (cur s)\<rparr>) (cli_st s)"

definition unlock_st :: "spinlock_id \<Rightarrow> 'a machine_scheme \<Rightarrow> 'a machine_scheme" where
  "unlock_st lk s = sti_st (upd_lock lk (\<lambda>l. l\<lparr>lk_cpu := None, lk_locked := 0\<rparr>) s)"

definition free_lock :: "spinlock_id \<Rightarrow> 'a machine_scheme \<Rightarrow> bool" where
  "free_lock lk s \<longleftrightarrow> lk_locked (locks s lk) = 0 \<and> lk_cpu (locks s lk) = None"

definition holds :: "spinlock_id \<Rightarrow> 'a machine_scheme \<Rightarrow> bool" where
  "holds lk s \<longleftrightarrow> lk_locked (locks s lk) \<noteq> 0 \<and> lk_cpu (locks s lk) = Some (cur s)"

lemmas machine_defs = readeflags_def set_if_def upd_cpu_def upd_lock_def

lemmas lock_st_defs = lock_st_def unlock_st_def cli_st_def sti_st_def settle_def

lemma upd_lock_same: "f (locks s lk) = locks s lk \<Longrightarrow> upd_lock lk f s = s"
  by (simp add: upd_lock_def fun_upd_idem)

lemma upd_lock_upd_lock [simp]: "upd_lock lk f (upd_lock lk g s) = upd_lock lk (f \<circ> g) s"
  by (simp add: upd_lock_def)

lemma find_cong: "(\<And>x. x \<in> set xs \<Longrightarrow> P x = Q x) \<Longrightarrow> find P xs = find Q xs"
  by (induction xs) auto

lemma find_cpu_upd_cpu [simp]:
  assumes "\<And>x. apicid (f x) = apicid x"
  shows "find_cpu (upd_cpu c f s) = find_cpu s"
  using assms by (auto simp: find_cpu_def upd_cpu_def intro!: find_cong)

lemma find_cpu_simps [simp]:
  "find_cpu (set_if b s) = find_cpu s"
  "find_cpu (upd_lock lk f s) = find_cpu s"
  by (simp_all add: find_cpu_def set_if_def upd_lock_def)

lemma find_cpu_st [simp]:
  "find_cpu (cli_st s) = find_cpu s"
  "find_cpu (sti_st s) = find_cpu s"
  "find_cpu (settle s) = find_cpu s"
  "find_cpu (lock_st lk s) = find_cpu s"
  "find_cpu (unlock_st lk s) = find_cpu s"
  by (simp_all add: lock_st_defs)

lemma cur_simps [simp]:
  "cur (set_if b s) = cur s"
  "cur (upd_lock lk f s) = cur s"
  "cur (cli_st s) = cur s"
  "cur (sti_st s) = cur s"
  "cur (settle s) = cur s"
  "cur (lock_st lk s) = cur s"
  "cur (unlock_st lk s) = cur s"
  by (simp_all add: cur_def)

lemma find_cpu_cur: "cpu_ok s \<Longrightarrow> find_cpu s = Some (cur s)"
  by (auto simp: cpu_ok_def cur_def)

lemma mycpu_ok: "\<not> readeflags s \<Longrightarrow> find_cpu s = Some c \<Longrightarrow> mycpu s = Ok c s"
  by (simp add: mycpu_def)

lemma readeflags_simps [simp]:
  "readeflags (set_if b s) = b"
  "readeflags (upd_cpu c f s) = readeflags s"
  "readeflags (upd_lock lk g s) = readeflags s"
  by (simp_all add: machine_defs)

lemma readeflags_st [simp]:
  "readeflags (cli_st s) = False"
  "readeflags (settle s) = readeflags s"
  "readeflags (lock_st lk s) = False"
  by (simp_all add: lock_st_defs)

lemma cpus_simps [simp]:
  "cpus (set_if b s) = cpus s"
  "cpus (upd_lock lk f s) = cpus s"
  "cpus (upd_cpu c g s) = (cpus s)(c := g (cpus s c))"
  by (simp_all add: machine_defs)

lemma depth_simps [simp]:
  "depth (set_if b s) = depth s"
  "depth (upd_lock lk f s) = depth s"
  by (simp_all add: depth_def)

lemma depth_cli_sti [simp]:
  "depth (cli_st s) = depth s + 1"
  "depth (settle s) = depth s"
  "depth (sti_st s) = depth s - 1"
  unfolding depth_def cur_simps by (simp_all add: cli_st_def settle_def sti_st_def)

lemma depth_st [simp]:
  "depth (lock_st lk s) = depth s + 1"
  "depth (unlock_st lk s) = depth s - 1"
  by (simp_all add: lock_st_def unlock_st_def)

lemma pushcli_ok:
  assumes "find_cpu s \<noteq> None"
  shows "pushcli s = Ok () (cli_st s)"
proof -
  have "find_cpu s = Some (cur s)" using assms by (auto simp: cur_def)
  then show ?thesis
    by (simp add: pushcli_def kop_defs cli_st_def mycpu_ok) (simp add: machine_defs)
qed

lemma popcli_ok:
  assumes "find_cpu s \<noteq> None" and "\<not> readeflags s" and "0 < depth s"
  shows "popcli s = Ok () (sti_st s)"
proof -
  have "find_cpu s = Some (cur s)" using assms(1) by (auto simp: cur_def)
  with assms(2,3) show ?thesis
    by (simp add: popcli_def kop_defs sti_st_def mycpu_ok depth_def) (auto simp: machine_defs)
qed

text \<open>
  A matched pair leaves interrupts as they were: it takes two \<open>popcli\<close> to undo two
  \<open>pushcli\<close>, and only the remembered flag \<open>intena\<close> of an outermost pair changes.
\<close>

lemma sti_cli:
  assumes "cpu_ok s"
  shows "sti_st (cli_st s) = settle s"
  using assms unfolding sti_st_def cur_simps depth_cli_sti
  by (auto simp: cpu_ok_def cli_st_def settle_def machine_defs fun_eq_iff depth_def)

lemma cpu_ok_st [simp]:
  "cpu_ok s \<Longrightarrow> cpu_ok (cli_st s)"
  "cpu_ok (settle s) = cpu_ok s"
  "cpu_ok s \<Longrightarrow> cpu_ok (lock_st lk s)"
  "cpu_ok (upd_lock lk f s) = cpu_ok s"
  by (simp_all add: cpu_ok_def)

lemma locks_st [simp]:
  "locks (cli_st s) = locks s"
  "locks (settle s) = locks s"
  "locks (sti_st s) = locks s"
  "locks (lock_st lk s) = (locks s)(lk := (locks s lk)\<lparr>lk_locked := 1, lk_cpu := Some (cur s)\<rparr>)"
  "locks (unlock_st lk s) = (locks s)(lk := (locks s lk)\<lparr>lk_cpu := None, lk_locked := 0\<rparr>)"
  by (simp_all add: lock_st_defs machine_defs)

lemma settle_inside: "depth s \<noteq> 0 \<Longrightarrow> settle s = s"
  by (simp add: settle_def machine_defs depth_def)

lemma settle_settle [simp]: "settle (settle s) = settle s"
  unfolding settle_def [of "settle s"] cur_simps
  by (simp add: settle_def machine_defs)

section \<open>Locks: what each operation does\<close>

lemma holding_ok [simp]:
  assumes "cpu_ok s"
  shows "holding lk s = Ok (holds lk s) (settle s)"
proof -
  have c: "find_cpu s = Some (cur s)" and n: "0 \<le> depth s"
    using assms by (auto simp: find_cpu_cur cpu_ok_def)
  have pop: "popcli (cli_st s) = Ok () (settle s)"
    using popcli_ok [of "cli_st s"] c n sti_cli [OF assms] by simp
  have push: "pushcli s = Ok () (cli_st s)"
    by (simp add: pushcli_ok c)
  show ?thesis
    by (simp add: holding_def push mycpu_ok c pop kop_defs holds_def)
qed

lemma acquire_ok [simp]:
  assumes "cpu_ok s" and "lk_locked (locks s lk) = 0"
  shows "acquire lk s = Ok () (lock_st lk s)"
proof -
  have c: "find_cpu s = Some (cur s)" and n: "0 \<le> depth s"
    using assms by (auto simp: find_cpu_cur cpu_ok_def)
  have "holding lk (cli_st s) = Ok False (cli_st s)"
    using assms n by (simp add: settle_inside holds_def)
  moreover have push: "pushcli s = Ok () (cli_st s)"
    by (simp add: pushcli_ok c)
  ultimately show ?thesis
    using assms(2) by (simp add: acquire_def kop_defs c mycpu_ok lock_st_def comp_def)
qed

lemma acquire_panics:
  assumes "cpu_ok s" and "holds lk s"
  shows "acquire lk s = Stop (Panic ''acquire'') (cli_st s)"
proof -
  have c: "find_cpu s = Some (cur s)" and n: "0 \<le> depth s"
    using assms by (auto simp: find_cpu_cur cpu_ok_def)
  have "holding lk (cli_st s) = Ok True (cli_st s)"
    using assms n by (simp add: settle_inside holds_def)
  moreover have push: "pushcli s = Ok () (cli_st s)"
    by (simp add: pushcli_ok c)
  ultimately show ?thesis
    by (simp add: acquire_def kop_defs)
qed

lemma acquire_spins:
  assumes "cpu_ok s" and "lk_locked (locks s lk) = 1" and "lk_cpu (locks s lk) \<noteq> Some (cur s)"
  shows "acquire lk s = Stop Spin (cli_st s)"
proof -
  have c: "find_cpu s = Some (cur s)" and n: "0 \<le> depth s"
    using assms by (auto simp: find_cpu_cur cpu_ok_def)
  have "holding lk (cli_st s) = Ok False (cli_st s)"
    using assms n by (simp add: settle_inside holds_def)
  moreover have push: "pushcli s = Ok () (cli_st s)"
    by (simp add: pushcli_ok c)
  moreover have "upd_lock lk (\<lambda>l. l\<lparr>lk_locked := 1\<rparr>) (cli_st s) = cli_st s"
    using assms(2) by (intro upd_lock_same) (cases "locks s lk", simp)
  ultimately show ?thesis
    using assms(2) by (simp add: acquire_def kop_defs)
qed

lemma release_ok [simp]:
  assumes "cpu_ok s" and "holds lk s" and "0 < depth s"
  shows "release lk s = Ok () (unlock_st lk s)"
proof -
  have c: "find_cpu s = Some (cur s)" and f: "\<not> readeflags s"
    using assms by (auto simp: find_cpu_cur cpu_ok_def)
  have "holding lk s = Ok True s"
    using assms by (simp add: settle_inside)
  moreover have "popcli (upd_lock lk (\<lambda>l. l\<lparr>lk_cpu := None, lk_locked := 0\<rparr>) s) =
      Ok () (unlock_st lk s)"
    using popcli_ok [of "upd_lock lk (\<lambda>l. l\<lparr>lk_cpu := None, lk_locked := 0\<rparr>) s"] c f assms(3)
    by (simp add: unlock_st_def)
  ultimately show ?thesis
    by (simp add: release_def kop_defs comp_def)
qed

lemma release_panics:
  assumes "cpu_ok s" and "\<not> holds lk s"
  shows "release lk s = Stop (Panic ''release'') (settle s)"
  using assms by (simp add: release_def kop_defs)

lemma unlock_lock [simp]:
  assumes "cpu_ok s" and "free_lock lk s"
  shows "unlock_st lk (lock_st lk s) = settle s"
proof -
  have "unlock_st lk (lock_st lk s) = sti_st (cli_st s)"
    using assms(2) unfolding unlock_st_def lock_st_def upd_lock_upd_lock free_lock_def
    by (subst upd_lock_same) (cases "locks s lk", simp_all)
  then show ?thesis using sti_cli [OF assms(1)] by simp
qed

lemma holds_st [simp]:
  "holds lk (lock_st lk s)"
  "lk' \<noteq> lk \<Longrightarrow> holds lk (lock_st lk' s) = holds lk s"
  "holds lk (settle s) = holds lk s"
  "holds lk (cli_st s) = holds lk s"
  "lk' \<noteq> lk \<Longrightarrow> holds lk (unlock_st lk' s) = holds lk s"
  by (simp_all add: holds_def)

lemma free_lock_st [simp]:
  "lk' \<noteq> lk \<Longrightarrow> free_lock lk (lock_st lk' s) = free_lock lk s"
  "free_lock lk (settle s) = free_lock lk s"
  "free_lock lk (cli_st s) = free_lock lk s"
  "lk' \<noteq> lk \<Longrightarrow> free_lock lk (unlock_st lk' s) = free_lock lk s"
  "free_lock lk (unlock_st lk s)"
  by (simp_all add: free_lock_def)

lemma free_lockD [simp]:
  "free_lock lk s \<Longrightarrow> lk_locked (locks s lk) = 0"
  "free_lock lk s \<Longrightarrow> \<not> holds lk s"
  by (simp_all add: free_lock_def holds_def)

lemma cpu_ok_depth [simp]:
  "cpu_ok s \<Longrightarrow> 0 \<le> depth s" "cpu_ok s \<Longrightarrow> 0 < depth s + 1" "cpu_ok s \<Longrightarrow> 0 < 2 + depth s"
  by (simp_all add: cpu_ok_def)

lemma cpu_ok_unlock [simp]: "cpu_ok s \<Longrightarrow> 1 < depth s \<Longrightarrow> cpu_ok (unlock_st lk s)"
  by (auto simp: cpu_ok_def) (auto simp: unlock_st_def sti_st_def)

lemma settle_lock [simp]:
  "cpu_ok s \<Longrightarrow> settle (lock_st lk s) = lock_st lk s"
  "cpu_ok s \<Longrightarrow> settle (cli_st s) = cli_st s"
  by (rule settle_inside, auto dest: cpu_ok_depth(2))+

lemma cli_settle [simp]: "cli_st (settle s) = cli_st s"
  unfolding cli_st_def cur_simps
  by (simp add: settle_def machine_defs)

lemma lock_settle [simp]: "lock_st lk (settle s) = lock_st lk s"
  unfolding lock_st_def cur_simps cli_settle by (rule refl)

section \<open>The running thread\<close>

text \<open>
  The process and the thread the processor runs. The processor is calm when it runs a thread
  outside every critical section: no spin lock is taken, and the flag \<open>intena\<close> agrees with
  the interrupt flag where it matters.
\<close>

definition me :: "'a machine_scheme \<Rightarrow> nat option" where
  "me s = cpu_proc (cpus s (cur s))"

definition my_thread :: "'a machine_scheme \<Rightarrow> (nat \<times> nat) option" where
  "my_thread s = cpu_thread (cpus s (cur s))"

definition calm :: "'a machine_scheme \<Rightarrow> bool" where
  "calm s \<longleftrightarrow> cpu_ok s \<and> settle s = s \<and> me s \<noteq> None \<and> my_thread s \<noteq> None \<and> (\<forall>lk. free_lock lk s)"

lemma me_st [simp]:
  "me (settle s) = me s" "me (cli_st s) = me s" "me (lock_st lk s) = me s" 
  "my_thread (settle s) = my_thread s" "my_thread (cli_st s) = my_thread s" "my_thread (lock_st lk s) = my_thread s" 
  unfolding me_def my_thread_def cur_simps
  by (simp_all add: settle_def cli_st_def lock_st_def)

lemma me_unlock [simp]: "me (unlock_st lk s) = me s" "my_thread (unlock_st lk s) = my_thread s" 
  unfolding me_def my_thread_def cur_simps
  by (simp_all add: unlock_st_def sti_st_def)

lemma pushcli_cpu [simp]: "cpu_ok s \<Longrightarrow> pushcli s = Ok () (cli_st s)"
  by (simp add: pushcli_ok cpu_ok_def)

lemma popcli_cli [simp]: "cpu_ok s \<Longrightarrow> popcli (cli_st s) = Ok () (settle s)"
  using popcli_ok [of "cli_st s"] by (simp add: find_cpu_cur sti_cli)

lemma mycpu_cli [simp]: "cpu_ok s \<Longrightarrow> mycpu (cli_st s) = Ok (cur s) (cli_st s)"
  using mycpu_ok [of "cli_st s" "cur s"] by (simp add: find_cpu_cur)

lemma mycpu_lock [simp]: "cpu_ok s \<Longrightarrow> mycpu (lock_st lk s) = Ok (cur s) (lock_st lk s)"
  using mycpu_ok [of "lock_st lk s" "cur s"] by (simp add: find_cpu_cur)

lemma settle_deep [simp]: "0 < depth s \<Longrightarrow> settle s = s"
  by (simp add: settle_inside)

lemma mycpu_deep [simp]: "cpu_ok s \<Longrightarrow> 0 < depth s \<Longrightarrow> mycpu s = Ok (cur s) s"
  by (rule mycpu_ok) (simp add: cpu_ok_def, simp add: find_cpu_cur)

lemma calmD:
  assumes "calm s"
  shows "cpu_ok s" and "settle s = s" and "free_lock lk s"
    and "me s = Some (the (me s))" and "my_thread s = Some (the (my_thread s))"
  using assms by (auto simp: calm_def)

lemma calm_lock [simp]:
  assumes "calm s"
  shows "acquire lk s = Ok () (lock_st lk s)" and "unlock_st lk (lock_st lk s) = s"
  using calmD [OF assms] by simp_all

lemma calm_release [simp]: "calm s \<Longrightarrow> release lk (lock_st lk s) = Ok () s"
  using calmD [of s] by simp

lemma calm_initlock:
  assumes "calm s"
  shows "calm (upd_lock lk (\<lambda>_. \<lparr>lk_locked = 0, lk_name = name, lk_cpu = None\<rparr>) s)"
proof -
  let ?s = "upd_lock lk (\<lambda>_. \<lparr>lk_locked = 0, lk_name = name, lk_cpu = None\<rparr>) s"
  have c: "cur ?s = cur s" "find_cpu ?s = find_cpu s" by (simp_all add: cur_def find_cpu_def upd_lock_def)
  have "cpu_ok ?s = cpu_ok s" using c by (simp add: cpu_ok_def depth_def readeflags_def upd_lock_def)
  moreover have "settle ?s = upd_lock lk (\<lambda>_. \<lparr>lk_locked = 0, lk_name = name, lk_cpu = None\<rparr>) (settle s)"
    using c by (simp add: settle_def machine_defs)
  moreover have "me ?s = me s" "my_thread ?s = my_thread s"
    using c by (simp_all add: me_def my_thread_def upd_lock_def)
  ultimately show ?thesis using assms by (simp add: calm_def) (simp add: free_lock_def upd_lock_def)
qed

section \<open>Fields of the other components\<close>

text \<open>
  Later theories extend the machine with fields of their own. A field is given by its
  selector and an update of it. When the update neither reads nor writes the processors,
  the interrupt flags and the locks, it commutes with every lock operation and leaves all
  the lock predicates alone.
\<close>

locale machine_upd =
  fixes upd :: "'a machine_scheme \<Rightarrow> 'a machine_scheme"
  assumes upd_machine: "lapicid (upd s) = lapicid s" "eflags_if (upd s) = eflags_if s"
      "cpus (upd s) = cpus s" "ncpu (upd s) = ncpu s" "locks (upd s) = locks s"
    and upd_comm: "upd (s\<lparr>eflags_if := e\<rparr>) = (upd s)\<lparr>eflags_if := e\<rparr>"
      "upd (s\<lparr>cpus := c\<rparr>) = (upd s)\<lparr>cpus := c\<rparr>"
      "upd (s\<lparr>locks := l\<rparr>) = (upd s)\<lparr>locks := l\<rparr>"
begin

lemma cur_upd [simp]: "find_cpu (upd s) = find_cpu s" "cur (upd s) = cur s"
  by (simp_all add: cur_def find_cpu_def upd_machine)

lemma flags_upd [simp]: "readeflags (upd s) = readeflags s" "depth (upd s) = depth s"
  by (simp_all add: readeflags_def depth_def upd_machine)

lemma lock_upd [simp]:
  "cpu_ok (upd s) = cpu_ok s" "holds lk (upd s) = holds lk s" "free_lock lk (upd s) = free_lock lk s"
  "locks (upd s) = locks s" "cpus (upd s) = cpus s"
  by (simp_all add: cpu_ok_def holds_def free_lock_def upd_machine)

lemma settle_upd [simp]: "settle (upd s) = upd (settle s)" "cli_st (upd s) = upd (cli_st s)"
  by (simp_all add: settle_def cli_st_def machine_defs upd_machine upd_comm [symmetric] cur_def
      find_cpu_def)

lemma me_upd [simp]: "me (upd s) = me s" "my_thread (upd s) = my_thread s"
  by (simp_all add: me_def my_thread_def)

lemma calm_upd [simp]: "calm s \<Longrightarrow> calm (upd s)"
  by (auto simp: calm_def)

lemma lock_st_upd [simp]:
  "lock_st lk (upd s) = upd (lock_st lk s)" "unlock_st lk (upd s) = upd (unlock_st lk s)"
  by (simp_all add: lock_st_def unlock_st_def sti_st_def upd_lock_def upd_cpu_def set_if_def depth_def
      upd_machine upd_comm [symmetric])

end

locale machine_field =
  fixes sel :: "'a machine_scheme \<Rightarrow> 'b"
  assumes sel_machine: "sel (s\<lparr>eflags_if := e\<rparr>) = sel s" "sel (s\<lparr>cpus := c\<rparr>) = sel s"
      "sel (s\<lparr>locks := l\<rparr>) = sel s"
begin

lemma sel_st [simp]:
  "sel (settle s) = sel s" "sel (cli_st s) = sel s" "sel (sti_st s) = sel s"
  "sel (lock_st lk s) = sel s" "sel (unlock_st lk s) = sel s"
  by (simp_all add: lock_st_defs machine_defs sel_machine)

end

section \<open>The sample machine\<close>

lemma sample_find_cpu: "find_cpu (sample_machine m) = Some 0"
  by (simp add: find_cpu_def sample_machine_def sample_cpu_def)

lemma sample_simps [simp]:
  "cur (sample_machine m) = 0" "depth (sample_machine m) = 0" "readeflags (sample_machine m)"
  "cpu_ok (sample_machine m)" "free_lock lk (sample_machine m)"
  "me (sample_machine m) = Some 0" "my_thread (sample_machine m) = Some (0, 0)"
proof -
  show c: "cur (sample_machine m) = 0" by (simp add: cur_def sample_find_cpu)
  show d: "depth (sample_machine m) = 0"
    by (simp add: depth_def c) (simp add: sample_machine_def sample_cpu_def)
  show "readeflags (sample_machine m)" by (simp add: readeflags_def sample_machine_def)
  show "cpu_ok (sample_machine m)" by (simp add: cpu_ok_def sample_find_cpu d)
  show "free_lock lk (sample_machine m)" by (simp add: free_lock_def sample_machine_def)
  show "me (sample_machine m) = Some 0" "my_thread (sample_machine m) = Some (0, 0)"
    by (simp_all add: me_def my_thread_def c) (simp_all add: sample_machine_def sample_cpu_def)
qed

lemma sample_settle [simp]: "settle (sample_machine m) = sample_machine m"
  unfolding settle_def sample_simps(1)
  by (simp add: upd_cpu_def readeflags_def sample_machine_def sample_cpu_def fun_eq_iff)

lemma sample_calm [simp]: "calm (sample_machine m)"
  by (simp add: calm_def)

section \<open>Properties\<close>

text \<open>
  C12: a critical section. Taking a free spin lock gives it to the executing processor with
  interrupts off; releasing it restores the whole state, the interrupt flag included, up to the
  saved flag \<open>intena\<close> that \<open>settle\<close> describes.
\<close>

theorem spinlock_critical_section:
  assumes "cpu_ok s" and "free_lock lk s"
  shows "\<exists>t. acquire lk s = Ok () t \<and> holds lk t \<and> \<not> readeflags t \<and>
    release lk t = Ok () (settle s) \<and> readeflags (settle s) = readeflags s \<and>
    free_lock lk (settle s)"
  using assms by (intro exI [of _ "lock_st lk s"]) simp

theorem spinlock_critical_section_witness:
  "\<exists>t. acquire KmemLock (sample_machine ()) = Ok () t \<and> holds KmemLock t \<and> \<not> readeflags t"
  using spinlock_critical_section [of "sample_machine ()" KmemLock] by auto





end
