(* ===== verification/Strings.thy ===== *)
theory Strings
  imports Prelude
begin

text \<open>
  The memory and string routines of the kernel (\<open>src/string.c\<close>) and of the user
  library (\<open>src/ulib.c\<close>). Memory is a function from addresses to bytes. A routine that
  only reads through a pointer takes a \<open>reader\<close>, the function from offsets to the
  bytes at the pointer; a routine that fills a buffer returns the bytes it stores, from
  the start of the buffer on. A loop that ends only at a NUL byte is a partial function.
\<close>

type_synonym memory = "uint \<Rightarrow> uchar"
type_synonym reader = "nat \<Rightarrow> uchar"

section \<open>Memory blocks\<close>

definition store32 :: "memory \<Rightarrow> uint \<Rightarrow> uint \<Rightarrow> memory" where
  "store32 m a v = m(a := ucast v, a + 1 := ucast (drop_bit 8 v),
     a + 2 := ucast (drop_bit 16 v), a + 3 := ucast (drop_bit 24 v))"

definition load32 :: "memory \<Rightarrow> uint \<Rightarrow> uint" where
  "load32 m a = un32 (m a) (m (a + 1)) (m (a + 2)) (m (a + 3))"

primrec stosb :: "memory \<Rightarrow> uint \<Rightarrow> uchar \<Rightarrow> nat \<Rightarrow> memory" where
  "stosb m a c 0 = m"
| "stosb m a c (Suc n) = stosb (m(a := c)) (a + 1) c n"

primrec stosl :: "memory \<Rightarrow> uint \<Rightarrow> uint \<Rightarrow> nat \<Rightarrow> memory" where
  "stosl m a v 0 = m"
| "stosl m a v (Suc n) = stosl (store32 m a v) (a + 4) v n"

definition memset :: "memory \<Rightarrow> uint \<Rightarrow> uint \<Rightarrow> uint \<Rightarrow> memory" where
  "memset m dst c n =
     (if dst mod 4 = 0 \<and> n mod 4 = 0 then
        (let c = c AND 0xFF in
         stosl m dst (push_bit 24 c OR push_bit 16 c OR push_bit 8 c OR c) (unat (n div 4)))
      else stosb m dst (ucast c) (unat n))"

primrec memcmp_from :: "reader \<Rightarrow> reader \<Rightarrow> nat \<Rightarrow> nat \<Rightarrow> int" where
  "memcmp_from s1 s2 i 0 = 0"
| "memcmp_from s1 s2 i (Suc n) =
     (if s1 i \<noteq> s2 i then uint (s1 i) - uint (s2 i) else memcmp_from s1 s2 (Suc i) n)"

definition memcmp :: "reader \<Rightarrow> reader \<Rightarrow> uint \<Rightarrow> int" where
  "memcmp v1 v2 n = memcmp_from v1 v2 0 (unat n)"

primrec copy_down :: "memory \<Rightarrow> uint \<Rightarrow> uint \<Rightarrow> nat \<Rightarrow> memory" where
  "copy_down m d s 0 = m"
| "copy_down m d s (Suc n) = copy_down (m(d - 1 := m (s - 1))) (d - 1) (s - 1) n"

primrec copy_up :: "memory \<Rightarrow> uint \<Rightarrow> uint \<Rightarrow> nat \<Rightarrow> memory" where
  "copy_up m d s 0 = m"
| "copy_up m d s (Suc n) = copy_up (m(d := m s)) (d + 1) (s + 1) n"

definition memmove :: "memory \<Rightarrow> uint \<Rightarrow> uint \<Rightarrow> uint \<Rightarrow> memory" where
  "memmove m dst src n =
     (if src < dst \<and> src + n > dst then copy_down m (dst + n) (src + n) (unat n)
      else copy_up m dst src (unat n))"

definition memcpy :: "memory \<Rightarrow> uint \<Rightarrow> uint \<Rightarrow> uint \<Rightarrow> memory" where
  "memcpy m dst src n = memmove m dst src n"

section \<open>Strings\<close>

primrec strncmp_from :: "reader \<Rightarrow> reader \<Rightarrow> nat \<Rightarrow> nat \<Rightarrow> int" where
  "strncmp_from p q i 0 = 0"
| "strncmp_from p q i (Suc n) =
     (if p i \<noteq> 0 \<and> p i = q i then strncmp_from p q (Suc i) n
      else uint (p i) - uint (q i))"

definition strncmp :: "reader \<Rightarrow> reader \<Rightarrow> nat \<Rightarrow> int" where
  "strncmp p q n = strncmp_from p q 0 n"

primrec strncpy_from :: "reader \<Rightarrow> nat \<Rightarrow> nat \<Rightarrow> uchar list" where
  "strncpy_from t i 0 = []"
| "strncpy_from t i (Suc n) =
     (if t i \<noteq> 0 then t i # strncpy_from t (Suc i) n else 0 # replicate n 0)"

definition strncpy :: "reader \<Rightarrow> nat \<Rightarrow> uchar list" where
  "strncpy t n = strncpy_from t 0 n"

primrec safestrcpy_from :: "reader \<Rightarrow> nat \<Rightarrow> nat \<Rightarrow> uchar list" where
  "safestrcpy_from t i 0 = [0]"
| "safestrcpy_from t i (Suc n) =
     (if t i \<noteq> 0 then t i # safestrcpy_from t (Suc i) n else [0, 0])"

definition safestrcpy :: "reader \<Rightarrow> int \<Rightarrow> uchar list" where
  "safestrcpy t n = (if n \<le> 0 then [] else safestrcpy_from t 0 (nat (n - 1)))"

partial_function (option) strlen_from :: "reader \<Rightarrow> nat \<Rightarrow> nat option" where
  "strlen_from s n = (if s n = 0 then Some n else strlen_from s (Suc n))"

definition strlen :: "reader \<Rightarrow> nat option" where
  "strlen s = strlen_from s 0"


section \<open>Properties of the memory routines\<close>

lemma unat_diff_step:
  fixes x d :: uint
  assumes "x \<noteq> d"
  shows "unat (x - d) = Suc (unat (x - (d + 1)))"
proof -
  have "x - d \<noteq> 0" using assms by simp
  then have "unat (x - d - 1) = unat (x - d) - 1" and "0 < unat (x - d)"
    by (simp_all add: unat_minus_one unat_gt_0)
  then show ?thesis by (simp add: diff_diff_add)
qed

lemma unat_diff_less_Suc:
  fixes x d :: uint
  shows "unat (x - d) < Suc n \<longleftrightarrow> x = d \<or> unat (x - (d + 1)) < n"
  by (cases "x = d") (auto simp: unat_diff_step)

lemma stosb_apply:
  "stosb m a c n x = (if unat (x - a) < n then c else m x)"
proof (induction n arbitrary: m a)
  case (Suc n)
  show ?case
    unfolding stosb.simps Suc.IH unat_diff_less_Suc by simp
qed simp

lemma store32_same_byte:
  assumes "v = push_bit 24 w OR push_bit 16 w OR push_bit 8 w OR w" and "w = c AND 0xFF"
  shows "store32 m a v = stosb m a (ucast c) 4"
proof -
  have w: "w = take_bit 8 c"
    by (simp add: assms(2) take_bit_eq_mask mask_eq_exp_minus_1)
  have b: "ucast v = (ucast c :: uchar)" "ucast (drop_bit 8 v) = (ucast c :: uchar)"
    "ucast (drop_bit 16 v) = (ucast c :: uchar)" "ucast (drop_bit 24 v) = (ucast c :: uchar)"
    unfolding assms(1) w by (auto intro!: bit_word_eqI simp: bit_simps)
  show ?thesis
    unfolding store32_def b
    by (simp add: eval_nat_numeral add.assoc)
qed

lemma stosb_add: "stosb m a c (k + n) = stosb (stosb m a c k) (a + of_nat k) c n"
  by (induction k arbitrary: m a) (simp_all add: add.assoc)

lemma stosl_eq_stosb:
  assumes "v = push_bit 24 w OR push_bit 16 w OR push_bit 8 w OR w" and "w = c AND 0xFF"
  shows "stosl m a v n = stosb m a (ucast c) (4 * n)"
proof (induction n arbitrary: m a)
  case (Suc n)
  have "stosb m a (ucast c) (4 * Suc n) = stosb m a (ucast c) (4 + 4 * n)"
    by simp
  also have "\<dots> = stosb (stosb m a (ucast c) 4) (a + 4) (ucast c) (4 * n)"
    by (subst stosb_add) simp
  finally show ?case
    using Suc by (simp add: store32_same_byte [OF assms])
qed simp

lemma memset_stosb: "memset m dst c n = stosb m dst (ucast c) (unat n)"
proof (cases "dst mod 4 = 0 \<and> n mod 4 = 0")
  case True
  then have "unat (n mod 4) = 0" by simp
  then have "4 * unat (n div 4) = unat n"
    by (auto simp: unat_div_distrib unat_mod_distrib mod_eq_0_iff_dvd)
  then show ?thesis
    using True unfolding memset_def Let_def stosl_eq_stosb [OF refl refl] by simp
next
  case False
  then show ?thesis unfolding memset_def by (simp only: if_False)
qed

lemma memset_apply:
  "memset m dst c n x = (if unat (x - dst) < unat n then ucast c else m x)"
  by (simp add: memset_stosb stosb_apply)

lemma copy_up_apply:
  assumes "unat (d - s) = 0 \<or> n \<le> unat (d - s)"
  shows "copy_up m d s n x = (if unat (x - d) < n then m (s + (x - d)) else m x)"
  using assms
proof (induction n arbitrary: m d s)
  case (Suc n)
  have cond: "unat (d + 1 - (s + 1)) = 0 \<or> n \<le> unat (d + 1 - (s + 1))"
    using Suc.prems by auto
  have step: "s + 1 + (x - (d + 1)) = s + (x - d)" by (simp add: algebra_simps)
  have clash: "x = d + (d - s)" if "s + (x - d) = d"
    using that by (metis add.commute add_diff_cancel_left' diff_add_cancel)
  show ?case
  proof (cases "unat (x - (d + 1)) < n")
    case True
    have "s + (x - d) \<noteq> d \<or> s = d"
    proof (rule ccontr)
      assume "\<not> ?thesis"
      then have c: "s + (x - d) = d" and ne: "s \<noteq> d" by auto
      then have "x - d = d - s" using clash by simp
      moreover have "unat (x - d) < Suc n"
        using True unat_diff_less_Suc by blast
      ultimately show False using Suc.prems ne by (simp add: unat_eq_0)
    qed
    then show ?thesis
      unfolding copy_up.simps Suc.IH [OF cond] step unat_diff_less_Suc using True by auto
  next
    case False
    then show ?thesis
      unfolding copy_up.simps Suc.IH [OF cond] step unat_diff_less_Suc by auto
  qed
qed simp


lemma unat_diff_step_down:
  fixes x d :: uint
  assumes "x \<noteq> d - 1"
  shows "unat (d - 1 - x) = Suc (unat (d - 1 - 1 - x))"
  using unat_diff_step [of "d - 1" x] assms by (simp add: algebra_simps)

lemma unat_diff_less_Suc_down:
  fixes x d :: uint
  shows "unat (d - 1 - x) < Suc n \<longleftrightarrow> x = d - 1 \<or> unat (d - 1 - 1 - x) < n"
  by (cases "x = d - 1") (auto simp: unat_diff_step_down)

lemma copy_down_apply:
  assumes "unat (s - d) = 0 \<or> n \<le> unat (s - d)"
  shows "copy_down m d s n x = (if unat (d - 1 - x) < n then m (s - (d - x)) else m x)"
  using assms
proof (induction n arbitrary: m d s)
  case (Suc n)
  have cond: "unat (s - 1 - (d - 1)) = 0 \<or> n \<le> unat (s - 1 - (d - 1))"
    using Suc.prems by auto
  have step: "s - 1 - (d - 1 - x) = s - (d - x)" by (simp add: algebra_simps)
  show ?case
  proof (cases "unat (d - 1 - 1 - x) < n")
    case True
    have "s - (d - x) \<noteq> d - 1 \<or> s = d"
    proof (rule ccontr)
      assume "\<not> ?thesis"
      then have c: "s - (d - x) = d - 1" and ne: "s \<noteq> d" by auto
      then have "d - 1 - x = s - d" by (metis diff_diff_eq2 diff_eq_eq add.commute)
      moreover have "unat (d - 1 - x) < Suc n"
        using True unat_diff_less_Suc_down by blast
      ultimately have "unat (s - d) < Suc n" by metis
      then show False using Suc.prems ne by (simp add: unat_eq_0)
    qed
    then show ?thesis
      unfolding copy_down.simps Suc.IH [OF cond] step unat_diff_less_Suc_down using True by auto
  next
    case False
    then show ?thesis
      unfolding copy_down.simps Suc.IH [OF cond] step unat_diff_less_Suc_down by auto
  qed
qed simp


lemma unat_shift_window:
  fixes d n x :: uint
  assumes "unat d + unat n \<le> 2 ^ 32"
  shows "unat (d + n - 1 - x) < unat n \<longleftrightarrow> unat (x - d) < unat n"
proof (cases "n = 0")
  case False
  define y where "y = x - d"
  have n: "unat (n - 1) = unat n - 1" "0 < unat n"
    using False by (simp_all add: unat_minus_one unat_gt_0)
  have eq: "d + n - 1 - x = n - 1 - y"
    by (simp add: y_def algebra_simps)
  have "unat (n - 1 - y) < unat n \<longleftrightarrow> unat y < unat n"
  proof (cases "y \<le> n - 1")
    case True
    then have "unat (n - 1 - y) = unat (n - 1) - unat y" and "unat y \<le> unat (n - 1)"
      by (simp_all add: unat_sub word_le_nat_alt)
    then show ?thesis using n by simp
  next
    case False
    then have gt: "unat (n - 1) < unat y" by (simp add: word_le_nat_alt)
    then have "unat (n - 1 - y) = 2 ^ 32 + unat (n - 1) - unat y"
      by (simp add: unat_sub_if' word_le_nat_alt)
    moreover have "unat y < 2 ^ 32" using unsigned_less [of y] by simp
    ultimately show ?thesis using gt n by linarith
  qed
  then show ?thesis by (simp add: eq y_def)
qed simp

lemma unat_diff_ge:
  fixes a b :: uint
  assumes "a \<noteq> b" and "a \<le> b" and "unat b + n \<le> 2 ^ 32"
  shows "n \<le> unat (a - b)"
proof -
  have "unat (a - b) = 2 ^ 32 + unat a - unat b"
    using assms(1,2) by (auto simp: unat_sub_if' word_le_nat_alt word_unat_eq_iff)
  then show ?thesis using assms(3) by simp
qed

lemma memmove_apply:
  assumes "unat src + unat n < 2 ^ 32" and "unat dst + unat n \<le> 2 ^ 32"
  shows "memmove m dst src n x =
    (if unat (x - dst) < unat n then m (src + (x - dst)) else m x)"
proof (cases "src < dst \<and> src + n > dst")
  case True
  then have "unat n \<le> unat (src - dst)"
    using unat_diff_ge [of src dst] assms(2) by auto
  then have "copy_down m (dst + n) (src + n) (unat n) x =
      (if unat (dst + n - 1 - x) < unat n then m (src + n - (dst + n - x)) else m x)"
    by (subst copy_down_apply) simp_all
  moreover have "src + n - (dst + n - x) = src + (x - dst)"
    by (simp add: algebra_simps)
  ultimately show ?thesis
    using True by (simp add: memmove_def unat_shift_window [OF assms(2)])
next
  case False
  have "unat (dst - src) = 0 \<or> unat n \<le> unat (dst - src)"
  proof (cases "src < dst")
    case True
    with False have "src + n \<le> dst" by simp
    moreover have "unat (src + n) = unat src + unat n"
      using assms(1) by (simp add: unat_add_lem [THEN iffD1])
    ultimately show ?thesis using True
      by (simp add: unat_sub word_le_nat_alt word_less_nat_alt)
  next
    case False
    then show ?thesis
      using unat_diff_ge [of dst src "unat n"] assms(1) by (cases "dst = src") auto
  qed
  then show ?thesis
    unfolding memmove_def using False by (simp only: if_False copy_up_apply)
qed

section \<open>Properties of the string routines\<close>

text \<open>The C string of at most \<open>n\<close> bytes that a reader delivers.\<close>

definition cstr :: "reader \<Rightarrow> nat \<Rightarrow> uchar list" where
  "cstr p n = takeWhile (\<lambda>b. b \<noteq> 0) (map p [0..<n])"

definition rd :: "uchar list \<Rightarrow> reader" where
  "rd bs i = (if i < length bs then bs ! i else 0)"

lemma uint_eq_uint_iff: "uint (a :: uchar) = uint b \<longleftrightarrow> a = b"
  by (auto simp: word_uint_eq_iff)

lemma memcmp_from_0_iff:
  "memcmp_from p q i n = 0 \<longleftrightarrow> (\<forall>j. i \<le> j \<and> j < i + n \<longrightarrow> p j = q j)"
proof (induction n arbitrary: i)
  case (Suc n)
  have "(\<forall>j. i \<le> j \<and> j < i + Suc n \<longrightarrow> p j = q j) \<longleftrightarrow>
      p i = q i \<and> (\<forall>j. Suc i \<le> j \<and> j < Suc i + n \<longrightarrow> p j = q j)"
    by (metis Suc_leD add_Suc_right add_Suc_shift le_antisym le_add1 less_add_Suc1 not_less_eq_eq
        order_refl)
  with Suc show ?case by (simp add: uint_eq_uint_iff)
qed auto

lemma memcmp_0_iff: "memcmp p q n = 0 \<longleftrightarrow> (\<forall>j < unat n. p j = q j)"
  by (simp add: memcmp_def memcmp_from_0_iff)

lemma cstr_from_Suc:
  "takeWhile (\<lambda>b. b \<noteq> 0) (map p [i..<i + Suc n]) =
   (if p i \<noteq> 0 then p i # takeWhile (\<lambda>b. b \<noteq> 0) (map p [Suc i..<Suc i + n]) else [])"
  by (simp add: upt_rec [of i])

lemma strncmp_from_0_iff:
  "strncmp_from p q i n = 0 \<longleftrightarrow>
   takeWhile (\<lambda>b. b \<noteq> 0) (map p [i..<i + n]) = takeWhile (\<lambda>b. b \<noteq> 0) (map q [i..<i + n])"
proof (induction n arbitrary: i)
  case (Suc n)
  show ?case
    unfolding cstr_from_Suc strncmp_from.simps using Suc [of "Suc i"]
    by (auto simp: uint_eq_uint_iff uint_0_iff simp del: upt_Suc)
qed simp

lemma strncmp_0_iff: "strncmp p q n = 0 \<longleftrightarrow> cstr p n = cstr q n"
  using strncmp_from_0_iff [of p q 0 n] by (simp add: strncmp_def cstr_def)

lemma strncpy_from_eq:
  "strncpy_from t i n = (let w = takeWhile (\<lambda>b. b \<noteq> 0) (map t [i..<i + n]) in
     w @ replicate (n - length w) 0)"
proof (induction n arbitrary: i)
  case (Suc n)
  show ?case
    unfolding cstr_from_Suc strncpy_from.simps using Suc [of "Suc i"]
    by (simp add: Let_def del: upt_Suc)
qed simp

lemma strncpy_eq: "strncpy t n = cstr t n @ replicate (n - length (cstr t n)) 0"
  using strncpy_from_eq [of t 0 n] by (simp add: strncpy_def cstr_def Let_def)

lemma length_cstr: "length (cstr t n) \<le> n"
  unfolding cstr_def using length_takeWhile_le [of _ "map t [0..<n]"] by simp

lemma length_strncpy [simp]: "length (strncpy t n) = n"
  by (simp add: strncpy_eq length_cstr)

lemma cstr_rd: "length bs = n \<Longrightarrow> cstr (rd bs) n = takeWhile (\<lambda>b. b \<noteq> 0) bs"
proof -
  assume "length bs = n"
  then have "map (rd bs) [0..<n] = bs"
    by (auto simp: rd_def intro!: nth_equalityI)
  then show ?thesis by (simp add: cstr_def)
qed

lemma cstr_strncpy: "cstr (rd (strncpy t n)) n = cstr t n"
proof -
  have "takeWhile (\<lambda>b. b \<noteq> 0) (strncpy t n) =
      cstr t n @ takeWhile (\<lambda>b. b \<noteq> 0) (replicate (n - length (cstr t n)) 0)"
    unfolding strncpy_eq
    by (rule takeWhile_append2) (auto simp: cstr_def dest: set_takeWhileD)
  then show ?thesis
    by (simp add: cstr_rd takeWhile_replicate)
qed

lemma safestrcpy_from_props:
  "safestrcpy_from t i n \<noteq> [] \<and> last (safestrcpy_from t i n) = 0 \<and>
   length (safestrcpy_from t i n) \<le> Suc n \<and>
   takeWhile (\<lambda>b. b \<noteq> 0) (safestrcpy_from t i n) = takeWhile (\<lambda>b. b \<noteq> 0) (map t [i..<i + n])"
proof (induction n arbitrary: i)
  case (Suc n)
  show ?case
    unfolding cstr_from_Suc safestrcpy_from.simps using Suc [of "Suc i"]
    by (simp del: upt_Suc)
qed simp

lemma safestrcpy_props:
  assumes "0 < n"
  shows "safestrcpy t n \<noteq> []" and "last (safestrcpy t n) = 0"
    and "int (length (safestrcpy t n)) \<le> n"
    and "takeWhile (\<lambda>b. b \<noteq> 0) (safestrcpy t n) = cstr t (nat (n - 1))"
  using safestrcpy_from_props [of t 0 "nat (n - 1)"] assms
  by (auto simp: safestrcpy_def cstr_def)

lemma strlen_from_ret:
  assumes "s k = 0" and "i \<le> k" and "\<forall>j. i \<le> j \<and> j < k \<longrightarrow> s j \<noteq> 0"
  shows "strlen_from s i = Some k"
  using assms(2,3)
proof (induction "k - i" arbitrary: i)
  case 0
  then show ?case using assms(1) by (simp add: strlen_from.simps)
next
  case (Suc d)
  then have "strlen_from s (Suc i) = Some k" by simp
  with Suc show ?case by (subst strlen_from.simps) auto
qed

lemma strlen_ret: "s k = 0 \<Longrightarrow> \<forall>j<k. s j \<noteq> 0 \<Longrightarrow> strlen s = Some k"
  by (simp add: strlen_def strlen_from_ret)

section \<open>Properties\<close>

text \<open>
  C16: \<open>memmove\<close> copies correctly whether or not the two blocks overlap: every byte of the
  destination is the byte the source had before the call, and no other byte changes. The blocks
  must not wrap around the address space.
\<close>

theorem memmove_overlap:
  assumes "unat src + unat n < 2 ^ 32" and "unat dst + unat n \<le> 2 ^ 32"
  shows "memmove m dst src n x = (if unat (x - dst) < unat n then m (src + (x - dst)) else m x)"
  using assms by (rule memmove_apply)

theorem memmove_overlap_witness:
  "memmove (\<lambda>a. ucast a) 2 0 4 4 = 2 \<and> memmove (\<lambda>a. ucast a) 0 2 4 1 = 3"
  using memmove_overlap [of 0 4 2 "\<lambda>a. ucast a" 4] memmove_overlap [of 2 4 0 "\<lambda>a. ucast a" 1]
  by simp


text \<open>
  C27: \<open>safestrcpy\<close> always terminates the copy. For a buffer of \<open>n > 0\<close> bytes it stores at most \<open>n\<close>
  bytes, the last of them NUL, and the copied string is the source cut at \<open>n - 1\<close> bytes.
\<close>

theorem safestrcpy_terminates_string:
  assumes "0 < n"
  shows "safestrcpy t n \<noteq> [] \<and> last (safestrcpy t n) = 0 \<and> int (length (safestrcpy t n)) \<le> n \<and>
    takeWhile (\<lambda>b. b \<noteq> 0) (safestrcpy t n) = cstr t (nat (n - 1))"
  using safestrcpy_props [OF assms] by blast

theorem safestrcpy_terminates_string_witness:
  "last (safestrcpy (rd [97, 98, 99]) 3) = 0 \<and> length (safestrcpy (rd [97, 98, 99]) 3) \<le> 3"
  using safestrcpy_terminates_string [of 3 "rd [97, 98, 99]"] by simp

text \<open>
  C25: \<open>strlen\<close> returns. On a string with its first NUL at \<open>k\<close> the loop ends and the result is \<open>k\<close>.
\<close>

theorem strlen_returns:
  assumes "s k = 0" and "\<forall>j < k. s j \<noteq> 0"
  shows "strlen s = Some k"
  using assms by (rule strlen_ret)

theorem strlen_returns_witness: "strlen (rd [104, 105]) = Some 2"
  using strlen_returns [of "rd [104, 105]" 2] by (simp add: rd_def less_2_cases_iff)

end
