(* ===== verification/Mmu.thy ===== *)
theory Mmu
  imports Strings
begin

text \<open>
  Page and address arithmetic: the macros of \<open>src/mmu.h\<close> and \<open>src/memlayout.h\<close> on
  32-bit addresses, with the facts on alignment and rounding that the allocator and the
  page-table code rest on.
\<close>

section \<open>Constants and macros\<close>

abbreviation (input) PGSIZE :: uint where "PGSIZE \<equiv> 4096"
abbreviation (input) NPDENTRIES :: nat where "NPDENTRIES \<equiv> 1024"
abbreviation (input) PTE_P :: uint where "PTE_P \<equiv> 1"
abbreviation (input) PTE_W :: uint where "PTE_W \<equiv> 2"
abbreviation (input) PTE_U :: uint where "PTE_U \<equiv> 4"
abbreviation (input) EXTMEM :: uint where "EXTMEM \<equiv> 0x100000"
abbreviation (input) PHYSTOP :: uint where "PHYSTOP \<equiv> 0xE000000"
abbreviation (input) DEVSPACE :: uint where "DEVSPACE \<equiv> 0xFE000000"
abbreviation (input) KERNBASE :: uint where "KERNBASE \<equiv> 0x80000000"
abbreviation (input) KERNLINK :: uint where "KERNLINK \<equiv> 0x80100000"

definition V2P :: "uint \<Rightarrow> uint" where
  "V2P a = a - KERNBASE"

definition P2V :: "uint \<Rightarrow> uint" where
  "P2V a = a + KERNBASE"

definition PDX :: "uint \<Rightarrow> uint" where
  "PDX va = drop_bit 22 va AND 0x3FF"

definition PTX :: "uint \<Rightarrow> uint" where
  "PTX va = drop_bit 12 va AND 0x3FF"

definition PGADDR :: "uint \<Rightarrow> uint \<Rightarrow> uint \<Rightarrow> uint" where
  "PGADDR d t off = push_bit 22 d OR push_bit 12 t OR off"

definition PGROUNDUP :: "uint \<Rightarrow> uint" where
  "PGROUNDUP sz = (sz + PGSIZE - 1) AND NOT (PGSIZE - 1)"

definition PGROUNDDOWN :: "uint \<Rightarrow> uint" where
  "PGROUNDDOWN a = a AND NOT (PGSIZE - 1)"

definition PTE_ADDR :: "uint \<Rightarrow> uint" where
  "PTE_ADDR pte = pte AND NOT 0xFFF"

definition PTE_FLAGS :: "uint \<Rightarrow> uint" where
  "PTE_FLAGS pte = pte AND 0xFFF"

section \<open>Rounding and splitting of addresses\<close>

lemma mask12: "(0xFFF :: uint) = mask 12"
  by (simp add: mask_eq_exp_minus_1)

lemma mask10: "(0x3FF :: uint) = mask 10"
  by (simp add: mask_eq_exp_minus_1)

lemma V2P_P2V [simp]: "V2P (P2V a) = a"
  by (simp add: V2P_def P2V_def)

lemma P2V_V2P [simp]: "P2V (V2P a) = a"
  by (simp add: V2P_def P2V_def)

lemma bit_PGROUNDDOWN: "bit (PGROUNDDOWN a) n \<longleftrightarrow> bit a n \<and> 12 \<le> n"
proof -
  have "PGROUNDDOWN a = a AND NOT (mask 12)"
    by (simp add: PGROUNDDOWN_def mask_eq_exp_minus_1)
  then show ?thesis
    by (auto simp: bit_simps dest: bit_imp_le_length)
qed

lemma PGROUNDDOWN_take_bit: "PGROUNDDOWN a = a - take_bit 12 a"
proof -
  have "PGROUNDDOWN a = push_bit 12 (drop_bit 12 a)"
    by (rule bit_word_eqI) (auto simp: bit_PGROUNDDOWN bit_simps)
  moreover have "push_bit 12 (drop_bit 12 a) + take_bit 12 a = a"
    by (rule bits_ident)
  ultimately show ?thesis by (metis add_diff_cancel_right')
qed

lemma take_bit_12: "take_bit 12 (a :: uint) = a mod PGSIZE"
  by (simp add: take_bit_eq_mod)

lemma unat_mod_PGSIZE: "unat (a mod PGSIZE) = unat a mod 4096"
  by (simp add: unat_mod_distrib)

lemma unat_PGROUNDDOWN: "unat (PGROUNDDOWN a) = unat a - unat a mod 4096"
proof -
  have "a mod PGSIZE \<le> a"
    by (simp add: word_le_nat_alt unat_mod_PGSIZE)
  then show ?thesis
    unfolding PGROUNDDOWN_take_bit take_bit_12 by (simp add: unat_sub unat_mod_PGSIZE)
qed

lemma PGROUNDUP_down: "PGROUNDUP a = PGROUNDDOWN (a + 4095)"
  by (simp add: PGROUNDUP_def PGROUNDDOWN_def add.commute)

lemma aligned_iff: "(a :: uint) mod PGSIZE = 0 \<longleftrightarrow> unat a mod 4096 = 0"
  by (metis unat_eq_0 unat_mod_PGSIZE)

lemma PGROUNDDOWN_aligned [simp]: "PGROUNDDOWN a mod PGSIZE = 0"
proof -
  have "(unat a - unat a mod 4096) mod 4096 = 0"
    by (simp add: minus_mod_eq_mult_div)
  then show ?thesis by (simp add: aligned_iff unat_PGROUNDDOWN)
qed

lemma PGROUNDUP_aligned [simp]: "PGROUNDUP a mod PGSIZE = 0"
  by (simp add: PGROUNDUP_down)

lemma PGROUNDDOWN_id: "a mod PGSIZE = 0 \<Longrightarrow> PGROUNDDOWN a = a"
  by (simp add: PGROUNDDOWN_take_bit take_bit_12)

text \<open>Rounding up stays on top of its argument unless the addition wraps.\<close>

lemma unat_PGROUNDUP:
  assumes "unat a \<le> 2 ^ 32 - 4096"
  shows "unat (PGROUNDUP a) = (unat a + 4095) div 4096 * 4096"
proof -
  have "unat (a + 4095) = unat a + 4095"
    using assms by (simp add: unat_add_lem [THEN iffD1])
  then show ?thesis
    by (simp add: PGROUNDUP_down unat_PGROUNDDOWN minus_mod_eq_div_mult)
qed

lemma PGROUNDUP_bounds:
  assumes "unat a \<le> 2 ^ 32 - 4096"
  shows "unat a \<le> unat (PGROUNDUP a) \<and> unat (PGROUNDUP a) < unat a + 4096"
proof -
  have "(unat a + 4095) div 4096 * 4096 = unat a + 4095 - (unat a + 4095) mod 4096"
    by (simp add: minus_mod_eq_div_mult)
  moreover have "(unat a + 4095) mod 4096 < 4096" by simp
  ultimately show ?thesis
    using unat_PGROUNDUP [OF assms] by linarith
qed

lemma PGROUNDUP_id:
  assumes "a mod PGSIZE = 0"
  shows "PGROUNDUP a = a"
proof -
  have "bit (a + 4095) n = bit (a OR 4095) n" for n
  proof -
    have "a AND 4095 = 0"
      using assms mask12 by (simp add: take_bit_12 [symmetric] take_bit_eq_mask)
    then show ?thesis by (simp add: disjunctive_add_eq_or)
  qed
  then have "a + 4095 = a OR 4095" by (simp add: bit_eq_iff)
  then have "PGROUNDUP a = PGROUNDDOWN (a OR mask 12)"
    by (simp add: PGROUNDUP_down mask_eq_exp_minus_1)
  also have "\<dots> = PGROUNDDOWN a"
    by (rule bit_word_eqI) (auto simp: bit_PGROUNDDOWN bit_simps)
  finally show ?thesis using assms by (simp add: PGROUNDDOWN_id)
qed

text \<open>An address is its directory index, its table index and its page offset.\<close>

lemma PDX_take_bit: "PDX va = take_bit 10 (drop_bit 22 va)"
  by (simp add: PDX_def mask10 take_bit_eq_mask)

lemma PTX_take_bit: "PTX va = take_bit 10 (drop_bit 12 va)"
  by (simp add: PTX_def mask10 take_bit_eq_mask)

lemma PGADDR_split: "PGADDR (PDX va) (PTX va) (va AND 0xFFF) = va"
proof (rule bit_word_eqI)
  fix n assume "n < LENGTH(32)"
  then show "bit (PGADDR (PDX va) (PTX va) (va AND 0xFFF)) n = bit va n"
    unfolding PGADDR_def PDX_take_bit PTX_take_bit mask12
    by (cases "n < 12"; cases "n < 22") (auto simp: bit_simps)
qed

lemma PTE_split: "PTE_ADDR pte OR PTE_FLAGS pte = pte"
  unfolding PTE_ADDR_def PTE_FLAGS_def mask12
  by (rule bit_word_eqI) (auto simp: bit_simps)

lemma PTE_ADDR_down: "PTE_ADDR a = PGROUNDDOWN a"
  by (simp add: PTE_ADDR_def PGROUNDDOWN_def)

lemma PTE_ADDR_or_flags:
  assumes "pa mod PGSIZE = 0" and "f AND NOT 0xFFF = 0"
  shows "PTE_ADDR (pa OR f) = pa" and "PTE_FLAGS (pa OR f) = f"
proof -
  have pa: "pa = PGROUNDDOWN pa" using assms(1) by (simp add: PGROUNDDOWN_id)
  have b: "\<not> bit pa n" if "n < 12" for n
    by (subst pa) (use that in \<open>simp add: bit_PGROUNDDOWN\<close>)
  have f: "f = take_bit 12 f"
  proof (rule bit_word_eqI)
    fix n assume n: "n < LENGTH(32)"
    have "\<not> bit (f AND NOT (mask 12)) n"
      using assms(2) by (simp add: mask12)
    then show "bit f n = bit (take_bit 12 f) n"
      using n by (auto simp: bit_simps)
  qed
  have fb: "\<not> bit f n" if "12 \<le> n" for n
    by (subst f) (use that in \<open>simp add: bit_simps\<close>)
  show "PTE_ADDR (pa OR f) = pa"
    unfolding PTE_ADDR_down
    by (rule bit_word_eqI) (metis b bit_PGROUNDDOWN bit_or_iff fb not_less)
  show "PTE_FLAGS (pa OR f) = f"
  proof (rule bit_word_eqI)
    fix n assume "n < LENGTH(32)"
    then show "bit (PTE_FLAGS (pa OR f)) n = bit f n"
      unfolding PTE_FLAGS_def mask12
      using b [of n] fb [of n] by (cases "n < 12") (auto simp: bit_simps)
  qed
qed

section \<open>Properties\<close>


text \<open>
  C30: page rounding. Unless the addition wraps, \<open>PGROUNDUP\<close> gives the least page boundary at or
  above its argument; \<open>PGROUNDDOWN\<close> always gives the page the address lies in.
\<close>

theorem page_rounding:
  assumes "unat a \<le> 2 ^ 32 - 4096"
  shows "PGROUNDUP a mod PGSIZE = 0 \<and> unat a \<le> unat (PGROUNDUP a) \<and>
    unat (PGROUNDUP a) < unat a + 4096 \<and> unat (PGROUNDDOWN a) = unat a - unat a mod 4096"
  using PGROUNDUP_bounds [OF assms] by (simp add: unat_PGROUNDDOWN)

theorem page_rounding_witness:
  "unat (PGROUNDUP 4097) < 4097 + 4096 \<and> PGROUNDUP 4097 mod PGSIZE = 0"
  using page_rounding [of 4097] by simp

end
