(* ===== verification/Kalloc.thy ===== *)
theory Kalloc
  imports Spinlock Mmu
begin

text \<open>
  The physical page allocator, \<open>src/kalloc.c\<close>. The free list is threaded through the
  free pages themselves: the first word of a free page is the address of the next one.
  Memory is addressed by kernel virtual addresses (the direct map above \<open>KERNBASE\<close>).
  The linker symbol \<open>end\<close> is the field \<open>kern_end\<close>.
\<close>

section \<open>State and operations\<close>

record kmem_state = machine +
  mem :: memory
  use_lock :: bool
  freelist :: uint
  kern_end :: uint

definition kfree :: "uint \<Rightarrow> ('a kmem_state_scheme, unit) kop" where
  "kfree v =
     bindk (getk kern_end) (\<lambda>end.
     if v mod PGSIZE \<noteq> 0 \<or> v < end \<or> V2P v \<ge> PHYSTOP then panick ''kfree''
     else
     thenk (modk (\<lambda>s. s\<lparr>mem := memset (mem s) v 1 PGSIZE\<rparr>)) (
     bindk (getk use_lock) (\<lambda>ul.
     thenk (whenk ul (acquire KmemLock)) (
     thenk (modk (\<lambda>s. s\<lparr>mem := store32 (mem s) v (freelist s)\<rparr>)) (
     thenk (modk (\<lambda>s. s\<lparr>freelist := v\<rparr>)) (
     bindk (getk use_lock) (\<lambda>ul.
     whenk ul (release KmemLock))))))))"

definition kalloc :: "('a kmem_state_scheme, uint) kop" where
  "kalloc =
     bindk (getk use_lock) (\<lambda>ul.
     thenk (whenk ul (acquire KmemLock)) (
     bindk (getk freelist) (\<lambda>r.
     thenk (whenk (r \<noteq> 0) (modk (\<lambda>s. s\<lparr>freelist := load32 (mem s) r\<rparr>))) (
     bindk (getk use_lock) (\<lambda>ul.
     thenk (whenk ul (release KmemLock)) (
     returnk r))))))"

text \<open>
  \<open>freerange\<close> frees page after page while a whole page fits below \<open>vend\<close>. The
  pointer \<open>p + PGSIZE\<close> may wrap; the loop runs at most once per page of the address
  space, so \<open>2 ^ 20\<close> rounds are enough (\<open>Diverge\<close> marks a longer run).
\<close>

primrec freerange_loop :: "nat \<Rightarrow> uint \<Rightarrow> uint \<Rightarrow> ('a kmem_state_scheme, unit) kop" where
  "freerange_loop 0 p vend = stopk Diverge"
| "freerange_loop (Suc fuel) p vend =
     (if p + PGSIZE \<le> vend then thenk (kfree p) (freerange_loop fuel (p + PGSIZE) vend)
      else returnk ())"

definition freerange :: "uint \<Rightarrow> uint \<Rightarrow> ('a kmem_state_scheme, unit) kop" where
  "freerange vstart vend = freerange_loop (2 ^ 20 + 1) (PGROUNDUP vstart) vend"

definition kinit1 :: "uint \<Rightarrow> uint \<Rightarrow> ('a kmem_state_scheme, unit) kop" where
  "kinit1 vstart vend =
     thenk (initlock KmemLock ''kmem'') (
     thenk (modk (\<lambda>s. s\<lparr>use_lock := False\<rparr>)) (
     freerange vstart vend))"

definition kinit2 :: "uint \<Rightarrow> uint \<Rightarrow> ('a kmem_state_scheme, unit) kop" where
  "kinit2 vstart vend =
     thenk (freerange vstart vend) (
     modk (\<lambda>s. s\<lparr>use_lock := True\<rparr>))"

section \<open>The free list as a list of pages\<close>

text \<open>A page the allocator accepts: aligned, above the kernel image, below the top of memory.\<close>

definition valid_page :: "uint \<Rightarrow> uint \<Rightarrow> bool" where
  "valid_page end v \<longleftrightarrow> v mod PGSIZE = 0 \<and> end \<le> v \<and> V2P v < PHYSTOP"

primrec chain :: "memory \<Rightarrow> uint \<Rightarrow> uint list \<Rightarrow> bool" where
  "chain m p [] \<longleftrightarrow> p = 0"
| "chain m p (x # xs) \<longleftrightarrow> p = x \<and> x \<noteq> 0 \<and> chain m (load32 m x) xs"

definition free_pages :: "'a kmem_state_scheme \<Rightarrow> uint list \<Rightarrow> bool" where
  "free_pages s xs \<longleftrightarrow>
     KERNBASE \<le> kern_end s \<and> chain (mem s) (freelist s) xs \<and>
     (\<forall>x \<in> set xs. valid_page (kern_end s) x)"

text \<open>The allocator is ready when its lock can be taken.\<close>

definition kmem_ready :: "'a kmem_state_scheme \<Rightarrow> bool" where
  "kmem_ready s \<longleftrightarrow> cpu_ok s \<and> free_lock KmemLock s"

definition kmem_pages :: "'a kmem_state_scheme \<Rightarrow> uint list \<Rightarrow> bool" where
  "kmem_pages s xs \<longleftrightarrow> kmem_ready s \<and> free_pages s xs"

text \<open>What taking and releasing the lock leaves behind, and only where the lock is used.\<close>

definition tidy :: "'a kmem_state_scheme \<Rightarrow> 'a kmem_state_scheme" where
  "tidy s = (if use_lock s then settle s else s)"

text \<open>The sample machine with a kernel that ends at \<open>0x80400000\<close> and two free pages.\<close>

definition sample_kmem :: "'a \<Rightarrow> 'a kmem_state_scheme" where
  "sample_kmem m = sample_machine (kmem_state_ext (store32 (\<lambda>_. 0) 0x80402000 0x80403000)
     True 0x80402000 0x80400000 m)"

section \<open>Frame\<close>

interpretation mem: machine_field mem by unfold_locales simp_all

interpretation mem_upd: machine_upd "mem_update f" for f by unfold_locales simp_all

interpretation use_lock: machine_field use_lock by unfold_locales simp_all

interpretation use_lock_upd: machine_upd "use_lock_update f" for f by unfold_locales simp_all

interpretation freelist: machine_field freelist by unfold_locales simp_all

interpretation freelist_upd: machine_upd "freelist_update f" for f by unfold_locales simp_all

interpretation kern_end: machine_field kern_end by unfold_locales simp_all

interpretation kern_end_upd: machine_upd "kern_end_update f" for f by unfold_locales simp_all

section \<open>What the operations do\<close>

lemma tidy_frame [simp]:
  "mem (tidy s) = mem s" "use_lock (tidy s) = use_lock s" "freelist (tidy s) = freelist s"
  "kern_end (tidy s) = kern_end s" "kmem_ready (tidy s) = kmem_ready s"
  by (simp_all add: tidy_def kmem_ready_def)

lemma tidy_tidy [simp]: "tidy (tidy s) = tidy s"
  by (simp add: tidy_def)

lemma kmem_ready_upd [simp]:
  "kmem_ready (s\<lparr>mem := m\<rparr>) = kmem_ready s"
  "kmem_ready (s\<lparr>freelist := p\<rparr>) = kmem_ready s"
  by (simp_all add: kmem_ready_def)

lemma tidy_upd [simp]:
  "tidy (s\<lparr>mem := m\<rparr>) = (tidy s)\<lparr>mem := m\<rparr>"
  "tidy (s\<lparr>freelist := p\<rparr>) = (tidy s)\<lparr>freelist := p\<rparr>"
  by (simp_all add: tidy_def)

lemma kalloc_eq:
  assumes "kmem_ready s"
  shows "kalloc s = Ok (freelist s) ((tidy s)\<lparr>freelist :=
    (if freelist s = 0 then 0 else load32 (mem s) (freelist s))\<rparr>)"
  using assms
  by (cases "use_lock s") (simp_all add: kalloc_def kop_defs kmem_ready_def tidy_def)

lemma kfree_eq:
  assumes "kmem_ready s" and "valid_page (kern_end s) v"
  shows "kfree v s = Ok () ((tidy s)\<lparr>
    mem := store32 (memset (mem s) v 1 PGSIZE) v (freelist s), freelist := v\<rparr>)"
  using assms
  by (cases "use_lock s")
     (auto simp: kfree_def kop_defs kmem_ready_def tidy_def valid_page_def)

lemma kfree_panics:
  assumes "\<not> valid_page (kern_end s) v"
  shows "kfree v s = Stop (Panic ''kfree'') s"
  using assms by (auto simp: kfree_def kop_defs valid_page_def)

section \<open>Words in memory\<close>

lemma load32_store32_same [simp]: "load32 (store32 m a v) a = v"
  by (simp add: load32_def store32_def)

lemma aligned_diff:
  fixes x v :: uint
  assumes "x mod PGSIZE = 0" and "v mod PGSIZE = 0"
  shows "(x - v) mod PGSIZE = 0"
proof -
  have d: "4096 dvd unat x" "4096 dvd unat v"
    using assms by (simp_all add: aligned_iff mod_eq_0_iff_dvd)
  have "4096 dvd unat x + 2 ^ 32"
    using d(1) by (rule dvd_add) (simp add: dvd_def)
  then have "4096 dvd unat (x - v)"
    using d by (simp add: unat_sub_if' word_le_nat_alt dvd_diff_nat)
  then show ?thesis by (simp add: aligned_iff)
qed

lemma page_apart:
  fixes x v k :: uint
  assumes "x mod PGSIZE = 0" and "v mod PGSIZE = 0" and "x \<noteq> v" and "unat k < 4096"
  shows "4096 \<le> unat (x + k - v)"
proof -
  obtain q where q: "unat (x - v) = 4096 * q"
    using aligned_diff [OF assms(1,2)] by (metis aligned_iff mod_0_imp_dvd dvdE)
  moreover have "unat (x - v) \<noteq> 0" using assms(3) by (simp add: unat_eq_0)
  ultimately have lo: "4096 \<le> unat (x - v)" by (cases q) auto
  have "unat (x - v) < 2 ^ 32" using unsigned_less [of "x - v"] by simp
  with q have "q < 2 ^ 20" by simp
  then have "unat (x - v) + unat k < 2 ^ 32"
    using q assms(4) by simp
  then have sum: "unat (x - v + k) = unat (x - v) + unat k"
    by (simp add: unat_add_lem [THEN iffD1])
  have eq: "x + k - v = x - v + k" by simp
  show ?thesis unfolding eq sum using lo by linarith
qed

lemma store32_other: "4 \<le> unat (y - a) \<Longrightarrow> store32 m a v y = m y"
proof -
  assume far: "4 \<le> unat (y - a)"
  have "y \<noteq> a" "y \<noteq> a + 1" "y \<noteq> a + 2" "y \<noteq> a + 3"
    using far by auto
  then show ?thesis by (simp add: store32_def)
qed

lemma load32_other_page:
  assumes "x mod PGSIZE = 0" and "v mod PGSIZE = 0" and "x \<noteq> v"
  shows "load32 (store32 (memset m v c PGSIZE) v w) x = load32 m x"
proof -
  have far: "4096 \<le> unat (x + k - v)" if "unat k < 4" for k :: uint
    using page_apart [OF assms] that by simp
  have *: "store32 (memset m v c PGSIZE) v w (x + k) = m (x + k)" if "unat k < 4" for k
    using far [OF that] by (subst store32_other) (simp_all add: memset_apply)
  show ?thesis
    using * [of 0] * [of 1] * [of 2] * [of 3] by (simp add: load32_def)
qed

section \<open>The allocator implements a stack of pages\<close>

lemma chain_unique: "chain m p xs \<Longrightarrow> chain m p ys \<Longrightarrow> xs = ys"
proof (induction xs arbitrary: p ys)
  case Nil
  then show ?case by (cases ys) auto
next
  case (Cons x xs)
  then show ?case by (cases ys) auto
qed

lemma chain_suffix: "chain m p (xs @ x # ys) \<Longrightarrow> chain m x (x # ys)"
  by (induction xs arbitrary: p) auto

text \<open>A list that ends cannot visit a page twice.\<close>

lemma chain_distinct: "chain m p xs \<Longrightarrow> distinct xs"
proof (induction xs arbitrary: p)
  case (Cons x xs)
  have "x \<notin> set xs"
  proof
    assume "x \<in> set xs"
    then obtain as bs where "xs = as @ x # bs" by (metis split_list)
    with Cons.prems have "chain m x (x # bs)" and "chain m x (x # as @ x # bs)"
      using chain_suffix [of m p "x # as" x bs] by auto
    then have "x # bs = x # as @ x # bs" by (rule chain_unique)
    then show False by simp
  qed
  with Cons show ?case by auto
qed simp

lemma chain_cong:
  "(\<And>x. x \<in> set xs \<Longrightarrow> load32 m' x = load32 m x) \<Longrightarrow> chain m p xs \<Longrightarrow> chain m' p xs"
  by (induction xs arbitrary: p) auto

lemma valid_page_nonzero: "KERNBASE \<le> end \<Longrightarrow> valid_page end v \<Longrightarrow> v \<noteq> 0"
  by (auto simp: valid_page_def word_le_nat_alt)

lemma free_pages_frame [simp]:
  "free_pages (tidy s) xs = free_pages s xs"
  by (simp add: free_pages_def)

lemma kalloc_pops:
  assumes "kmem_ready s" and "free_pages s (x # xs)"
  shows "kalloc s = Ok x ((tidy s)\<lparr>freelist := load32 (mem s) x\<rparr>)"
    and "free_pages ((tidy s)\<lparr>freelist := load32 (mem s) x\<rparr>) xs"
  using assms by (auto simp: kalloc_eq free_pages_def)

lemma kalloc_none:
  assumes "kmem_ready s" and "free_pages s []"
  shows "kalloc s = Ok 0 (tidy s)"
  using assms by (simp add: kalloc_eq free_pages_def tidy_def)

lemma kfree_pushes:
  assumes "kmem_ready s" and "free_pages s xs" and "valid_page (kern_end s) v" and "v \<notin> set xs"
  shows "free_pages ((tidy s)\<lparr>
    mem := store32 (memset (mem s) v 1 PGSIZE) v (freelist s), freelist := v\<rparr>) (v # xs)"
proof -
  have "v \<noteq> 0"
    using assms(2,3) valid_page_nonzero by (auto simp: free_pages_def)
  moreover have "chain (store32 (memset (mem s) v 1 PGSIZE) v (freelist s)) (freelist s) xs"
  proof (rule chain_cong)
    fix x assume x: "x \<in> set xs"
    then show "load32 (store32 (memset (mem s) v 1 PGSIZE) v (freelist s)) x = load32 (mem s) x"
      using assms by (intro load32_other_page) (auto simp: free_pages_def valid_page_def)
  next
    show "chain (mem s) (freelist s) xs" using assms(2) by (simp add: free_pages_def)
  qed
  ultimately show ?thesis
    using assms by (auto simp: free_pages_def)
qed

text \<open>
  A page freed twice in a row makes the list circular: every later allocation returns
  that same page.
\<close>

lemma kfree_twice_loops:
  assumes "kmem_ready s" and "valid_page (kern_end s) v" and "freelist s = v" and "v \<noteq> 0"
  shows "\<exists>s'. kfree v s = Ok () s' \<and> freelist s' = v \<and> load32 (mem s') v = v"
  using assms by (simp add: kfree_eq)

section \<open>Initialisation\<close>

primrec range_pages :: "nat \<Rightarrow> uint \<Rightarrow> uint list" where
  "range_pages 0 p = []"
| "range_pages (Suc n) p = p # range_pages n (p + PGSIZE)"

lemma unat_add_PGSIZE:
  "unat p + 4096 < 2 ^ 32 \<Longrightarrow> unat (p + PGSIZE) = unat p + 4096"
  by (simp add: unat_add_lem [THEN iffD1])

lemma range_pages_bounds:
  "unat p + 4096 * n < 2 ^ 32 \<Longrightarrow> x \<in> set (range_pages n p) \<Longrightarrow> unat p \<le> unat x"
proof (induction n arbitrary: p)
  case (Suc n)
  then have "unat (p + PGSIZE) = unat p + 4096"
    by (intro unat_add_PGSIZE) simp
  then show ?case using Suc.IH [of "p + PGSIZE"] Suc.prems by auto
qed simp

lemma freerange_loop_ok:
  assumes "kmem_ready s" and "free_pages s xs"
    and "\<forall>x \<in> set (range_pages n p). valid_page (kern_end s) x \<and> x \<notin> set xs"
    and "unat p + 4096 * n \<le> unat vend" and "unat vend < unat p + 4096 * n + 4096"
    and "unat vend < 2 ^ 32 - 4096" and "n < fuel"
  shows "\<exists>s'. freerange_loop fuel p vend s = Ok () s' \<and> kmem_ready s' \<and>
    free_pages s' (rev (range_pages n p) @ xs) \<and> use_lock s' = use_lock s"
  using assms
proof (induction n arbitrary: fuel p s xs)
  case 0
  then obtain f where f: "fuel = Suc f" by (cases fuel) auto
  have "unat (p + PGSIZE) = unat p + 4096"
    using 0 by (intro unat_add_PGSIZE) simp
  then have "\<not> p + PGSIZE \<le> vend" using 0 by (simp add: word_le_nat_alt)
  with 0 f show ?case by (simp add: returnk_def)
next
  case (Suc n)
  then obtain f where f: "fuel = Suc f" by (cases fuel) auto
  have up: "unat (p + PGSIZE) = unat p + 4096"
    using Suc.prems by (intro unat_add_PGSIZE) simp
  then have le: "p + PGSIZE \<le> vend" using Suc.prems by (simp add: word_le_nat_alt)
  have v: "valid_page (kern_end s) p" "p \<notin> set xs"
    using Suc.prems(3) by auto
  define t where "t = (tidy s)\<lparr>
    mem := store32 (memset (mem s) p 1 PGSIZE) p (freelist s), freelist := p\<rparr>"
  have t: "kfree p s = Ok () t" "kmem_ready t" "free_pages t (p # xs)" "kern_end t = kern_end s"
    "use_lock t = use_lock s"
    using Suc.prems(1,2) v by (simp_all add: t_def kfree_eq kfree_pushes)
  have notp: "x \<noteq> p" if "x \<in> set (range_pages n (p + PGSIZE))" for x
  proof -
    have "unat (p + PGSIZE) + 4096 * n < 2 ^ 32" using up Suc.prems by simp
    then have "unat (p + PGSIZE) \<le> unat x" using that by (rule range_pages_bounds)
    with up show ?thesis by auto
  qed
  have "\<exists>s'. freerange_loop f (p + PGSIZE) vend t = Ok () s' \<and> kmem_ready s' \<and>
    free_pages s' (rev (range_pages n (p + PGSIZE)) @ p # xs) \<and> use_lock s' = use_lock t"
    using Suc.prems up notp t f by (intro Suc.IH) auto
  then show ?case
    using f le t by auto
qed

text \<open>
  \<open>freerange\<close> puts every whole page of the range on the free list, the highest on top,
  whatever the list held before.
\<close>

lemma freerange_frees:
  assumes "kmem_ready s" and "free_pages s xs"
    and "n = (unat vend - unat (PGROUNDUP vstart)) div 4096"
    and "\<forall>x \<in> set (range_pages n (PGROUNDUP vstart)). valid_page (kern_end s) x \<and> x \<notin> set xs"
    and "unat (PGROUNDUP vstart) \<le> unat vend" and "unat vend < 2 ^ 32 - 4096"
  shows "\<exists>s'. freerange vstart vend s = Ok () s' \<and> kmem_ready s' \<and>
    free_pages s' (rev (range_pages n (PGROUNDUP vstart)) @ xs) \<and> use_lock s' = use_lock s"
proof -
  let ?d = "unat vend - unat (PGROUNDUP vstart)"
  have "4096 * n \<le> ?d" and "?d < 4096 * n + 4096"
    unfolding assms(3) by (simp_all add: mult.commute)
  moreover have "n < 2 ^ 20 + 1" using assms(3,6) by simp
  ultimately show ?thesis
    unfolding freerange_def using assms by (intro freerange_loop_ok) auto
qed

section \<open>Interface\<close>

text \<open>
  What the rest of the kernel relies on: \<open>pages s xs\<close> says that \<open>xs\<close> are the free
  pages of \<open>s\<close>, the next one to be handed out first. Allocation takes the first page
  or returns the null page; freeing a page that is not free puts it on top.
\<close>

locale page_allocator =
  fixes alloc :: "('s, 'p) kop"
    and dealloc :: "'p \<Rightarrow> ('s, unit) kop"
    and pages :: "'s \<Rightarrow> 'p list \<Rightarrow> bool"
    and acceptable :: "'s \<Rightarrow> 'p \<Rightarrow> bool"
    and null :: 'p
  assumes pages_unique: "pages s xs \<Longrightarrow> pages s ys \<Longrightarrow> xs = ys"
    and pages_acceptable: "pages s xs \<Longrightarrow> x \<in> set xs \<Longrightarrow> acceptable s x"
    and alloc_empty: "pages s [] \<Longrightarrow> \<exists>s'. alloc s = Ok null s' \<and> pages s' []"
    and alloc_page: "pages s (x # xs) \<Longrightarrow> \<exists>s'. alloc s = Ok x s' \<and> pages s' xs \<and>
          (\<forall>y. acceptable s' y = acceptable s y)"
    and dealloc_page: "pages s xs \<Longrightarrow> acceptable s x \<Longrightarrow> x \<notin> set xs \<Longrightarrow>
          \<exists>s'. dealloc x s = Ok () s' \<and> pages s' (x # xs) \<and>
          (\<forall>y. acceptable s' y = acceptable s y)"
    and pages_distinct: "pages s xs \<Longrightarrow> distinct xs"
    and pages_null: "pages s xs \<Longrightarrow> null \<notin> set xs"
begin

lemma dealloc_alloc:
  assumes "pages s xs" and "acceptable s x" and "x \<notin> set xs"
  shows "\<exists>s'. thenk (dealloc x) alloc s = Ok x s' \<and> pages s' xs"
proof -
  obtain t where t: "dealloc x s = Ok () t" "pages t (x # xs)"
    using dealloc_page [OF assms] by blast
  then obtain u where "alloc t = Ok x u" "pages u xs"
    using alloc_page by blast
  with t show ?thesis by auto
qed

lemma alloc_dealloc:
  assumes "pages s (x # xs)"
  shows "\<exists>s'. bindk alloc dealloc s = Ok () s' \<and> pages s' (x # xs)"
proof -
  obtain t where t: "alloc s = Ok x t" "pages t xs" "\<forall>y. acceptable t y = acceptable s y"
    using alloc_page [OF assms] by blast
  have "acceptable t x" using t(3) pages_acceptable [OF assms] by simp
  moreover have "x \<notin> set xs" using pages_distinct [OF assms] by simp
  ultimately obtain u where "dealloc x t = Ok () u" "pages u (x # xs)"
    using dealloc_page [OF t(2)] by blast
  with t show ?thesis by auto
qed

lemma alloc_n_prefix:
  assumes "pages s xs" and "n \<le> length xs"
  shows "\<exists>s'. repeatk n alloc s = Ok (take n xs) s' \<and> pages s' (drop n xs)"
  using assms
proof (induction n arbitrary: s xs)
  case 0
  then show ?case by (simp add: returnk_def)
next
  case (Suc n)
  then obtain y ys where xs: "xs = y # ys" by (cases xs) auto
  then obtain t where t: "alloc s = Ok y t" "pages t ys"
    using alloc_page Suc.prems by blast
  then obtain u where "repeatk n alloc t = Ok (take n ys) u" "pages u (drop n ys)"
    using Suc xs by fastforce
  with t xs show ?case by (simp add: returnk_def)
qed

lemma alloc_n_distinct:
  assumes "pages s xs" and "n \<le> length xs" and "repeatk n alloc s = Ok ps s'"
  shows "distinct ps \<and> null \<notin> set ps \<and> set ps \<inter> set (drop n xs) = {}"
proof -
  have "ps = take n xs"
    using alloc_n_prefix [OF assms(1,2)] assms(3) by auto
  moreover have "distinct (take n xs @ drop n xs)"
    using pages_distinct [OF assms(1)] by simp
  moreover have "null \<notin> set (take n xs)"
    using pages_null [OF assms(1)] by (meson in_set_takeD)
  ultimately show ?thesis unfolding distinct_append by simp
qed

end

interpretation kmem: page_allocator
  kalloc kfree kmem_pages "\<lambda>s v. valid_page (kern_end s) v" 0
proof (unfold_locales, goal_cases)
  case (1 s xs ys)
  then show ?case by (auto simp: kmem_pages_def free_pages_def intro: chain_unique)
next
  case (2 s xs x)
  then show ?case by (simp add: kmem_pages_def free_pages_def)
next
  case (3 s)
  then show ?case by (simp add: kmem_pages_def kalloc_none)
next
  case (4 s x xs)
  then show ?case using kalloc_pops [of s x xs] by (auto simp: kmem_pages_def)
next
  case (5 s xs x)
  then show ?case using kfree_pushes [of s xs x] by (auto simp: kmem_pages_def kfree_eq)
next
  case (6 s xs)
  then show ?case by (auto simp: kmem_pages_def free_pages_def intro: chain_distinct)
next
  case (7 s xs)
  then show ?case using valid_page_nonzero by (auto simp: kmem_pages_def free_pages_def)
qed

lemma sample_kmem_fields [simp]:
  "kern_end (sample_kmem m) = 0x80400000" "freelist (sample_kmem m) = 0x80402000"
  "use_lock (sample_kmem m)" "mem (sample_kmem m) = store32 (\<lambda>_. 0) 0x80402000 0x80403000"
  by (simp_all add: sample_kmem_def sample_machine_def)

lemma sample_pages: "kmem_pages (sample_kmem m) [0x80402000, 0x80403000]"
proof -
  have "kmem_ready (sample_kmem m)" by (simp add: kmem_ready_def sample_kmem_def)
  moreover have "load32 (store32 (\<lambda>_. 0) 0x80402000 0x80403000) 0x80403000 = 0"
    by (simp add: load32_def store32_def un32_def)
  ultimately show ?thesis
    by (simp add: kmem_pages_def free_pages_def valid_page_def V2P_def)
qed

section \<open>Properties\<close>





text \<open>
  C15: initialisation. \<open>freerange\<close> puts exactly the whole pages between its bounds on the free
  list, highest address first, on top of what was there.
\<close>

theorem freerange_exact:
  assumes "kmem_pages s xs" and "n = (unat vend - unat (PGROUNDUP vstart)) div 4096"
    and "\<forall>x \<in> set (range_pages n (PGROUNDUP vstart)). valid_page (kern_end s) x \<and> x \<notin> set xs"
    and "unat (PGROUNDUP vstart) \<le> unat vend" and "unat vend < 2 ^ 32 - 4096"
  shows "\<exists>s'. freerange vstart vend s = Ok () s' \<and>
    kmem_pages s' (rev (range_pages n (PGROUNDUP vstart)) @ xs)"
  using freerange_frees [of s xs n vend vstart] assms by (auto simp: kmem_pages_def)

theorem freerange_exact_witness:
  "\<exists>s'. freerange 0x80404001 0x80407000 (sample_kmem ()) = Ok () s' \<and>
     kmem_pages s' [0x80406000, 0x80405000, 0x80402000, 0x80403000]"
proof -
  have up: "PGROUNDUP 0x80404001 = 0x80405000" by (simp add: PGROUNDUP_def)
  have pages: "range_pages 2 0x80405000 = [0x80405000, 0x80406000]"
    by (simp add: numeral_2_eq_2)
  show ?thesis
    using freerange_exact [OF sample_pages [of "()"], of 2 "0x80407000" "0x80404001"]
    by (simp add: up pages valid_page_def V2P_def)
qed



end
