(* ===== verification/Vm.thy ===== *)
theory Vm
  imports Kalloc
begin

text \<open>
  Virtual memory, \<open>src/vm.c\<close>. A page directory is named by the kernel virtual address of
  its page; directory and table entries are the 32-bit words in memory, as the hardware
  reads them. The linker symbol \<open>data\<close> is the field \<open>kern_data\<close>. A loop over pages
  runs at most once per page of the address space, so \<open>2 ^ 20 + 1\<close> rounds
  (\<open>vm_fuel\<close>) are enough; \<open>Diverge\<close> marks a longer run.
\<close>

section \<open>State\<close>

record vm_state = kmem_state +
  kern_data :: uint
  kpgdir :: uint

definition vm_fuel :: nat where
  "vm_fuel = 2 ^ 20 + 1"

definition set_word :: "uint \<Rightarrow> uint \<Rightarrow> 'a kmem_state_scheme \<Rightarrow> 'a kmem_state_scheme" where
  "set_word a v s = s\<lparr>mem := store32 (mem s) a v\<rparr>"

definition zero_page :: "uint \<Rightarrow> 'a kmem_state_scheme \<Rightarrow> 'a kmem_state_scheme" where
  "zero_page a s = s\<lparr>mem := memset (mem s) a 0 PGSIZE\<rparr>"

definition getword :: "uint \<Rightarrow> ('a kmem_state_scheme, uint) kop" where
  "getword a = getk (\<lambda>s. load32 (mem s) a)"

section \<open>Page tables\<close>

definition walkpgdir :: "uint \<Rightarrow> uint \<Rightarrow> bool \<Rightarrow> ('a kmem_state_scheme, uint) kop" where
  "walkpgdir pgdir va alloc =
     (let pde = pgdir + 4 * PDX va in
     bindk (getword pde) (\<lambda>e.
     if e AND PTE_P \<noteq> 0 then returnk (P2V (PTE_ADDR e) + 4 * PTX va)
     else if \<not> alloc then returnk 0
     else bindk kalloc (\<lambda>pgtab.
     if pgtab = 0 then returnk 0
     else
     thenk (modk (zero_page pgtab)) (
     thenk (modk (set_word pde (V2P pgtab OR PTE_P OR PTE_W OR PTE_U))) (
     returnk (pgtab + 4 * PTX va))))))"

primrec mappages_loop ::
  "nat \<Rightarrow> uint \<Rightarrow> uint \<Rightarrow> uint \<Rightarrow> uint \<Rightarrow> uint \<Rightarrow> ('a kmem_state_scheme, int) kop" where
  "mappages_loop 0 pgdir a lst pa perm = stopk Diverge"
| "mappages_loop (Suc fuel) pgdir a lst pa perm =
     bindk (walkpgdir pgdir a True) (\<lambda>pte.
     if pte = 0 then returnk (-1)
     else bindk (getword pte) (\<lambda>e.
     if e AND PTE_P \<noteq> 0 then panick ''remap''
     else
     thenk (modk (set_word pte (pa OR perm OR PTE_P))) (
     if a = lst then returnk 0
     else mappages_loop fuel pgdir (a + PGSIZE) lst (pa + PGSIZE) perm)))"

definition mappages ::
  "uint \<Rightarrow> uint \<Rightarrow> uint \<Rightarrow> uint \<Rightarrow> uint \<Rightarrow> ('a kmem_state_scheme, int) kop" where
  "mappages pgdir va sz pa perm =
     mappages_loop vm_fuel pgdir (PGROUNDDOWN va) (PGROUNDDOWN (va + sz - 1)) pa perm"

primrec deallocuvm_loop ::
  "nat \<Rightarrow> uint \<Rightarrow> uint \<Rightarrow> uint \<Rightarrow> ('a kmem_state_scheme, unit) kop" where
  "deallocuvm_loop 0 pgdir a oldsz = stopk Diverge"
| "deallocuvm_loop (Suc fuel) pgdir a oldsz =
     (if \<not> a < oldsz then returnk ()
      else bindk (walkpgdir pgdir a False) (\<lambda>pte.
      if pte = 0 then
        deallocuvm_loop fuel pgdir (PGADDR (PDX a + 1) 0 0 - PGSIZE + PGSIZE) oldsz
      else bindk (getword pte) (\<lambda>e.
      if e AND PTE_P \<noteq> 0 then
        (let pa = PTE_ADDR e in
         if pa = 0 then panick ''kfree''
         else
         thenk (kfree (P2V pa)) (
         thenk (modk (set_word pte 0)) (
         deallocuvm_loop fuel pgdir (a + PGSIZE) oldsz)))
      else deallocuvm_loop fuel pgdir (a + PGSIZE) oldsz)))"

definition deallocuvm :: "uint \<Rightarrow> uint \<Rightarrow> uint \<Rightarrow> ('a kmem_state_scheme, uint) kop" where
  "deallocuvm pgdir oldsz newsz =
     (if newsz \<ge> oldsz then returnk oldsz
      else
      thenk (deallocuvm_loop vm_fuel pgdir (PGROUNDUP newsz) oldsz) (
      returnk newsz))"

definition freevm :: "uint \<Rightarrow> ('a kmem_state_scheme, unit) kop" where
  "freevm pgdir =
     (if pgdir = 0 then panick ''freevm: no pgdir''
      else
      thenk (deallocuvm pgdir KERNBASE 0) (
      thenk (foreachk [0..<NPDENTRIES] (\<lambda>i.
        bindk (getword (pgdir + 4 * of_nat i)) (\<lambda>e.
        whenk (e AND PTE_P \<noteq> 0) (kfree (P2V (PTE_ADDR e)))))) (
      kfree pgdir)))"

section \<open>Kernel mappings\<close>

record kmap_entry =
  virt :: uint
  phys_start :: uint
  phys_end :: uint
  kperm :: uint

definition kmap :: "uint \<Rightarrow> kmap_entry list" where
  "kmap data =
     [\<lparr>virt = KERNBASE, phys_start = 0, phys_end = EXTMEM, kperm = PTE_W\<rparr>,
      \<lparr>virt = KERNLINK, phys_start = V2P KERNLINK, phys_end = V2P data, kperm = 0\<rparr>,
      \<lparr>virt = data, phys_start = V2P data, phys_end = PHYSTOP, kperm = PTE_W\<rparr>,
      \<lparr>virt = DEVSPACE, phys_start = DEVSPACE, phys_end = 0, kperm = PTE_W\<rparr>]"

primrec setupkvm_loop :: "uint \<Rightarrow> kmap_entry list \<Rightarrow> ('a kmem_state_scheme, uint) kop" where
  "setupkvm_loop pgdir [] = returnk pgdir"
| "setupkvm_loop pgdir (k # ks) =
     bindk (mappages pgdir (virt k) (phys_end k - phys_start k) (phys_start k) (kperm k)) (\<lambda>r.
     if r < 0 then thenk (freevm pgdir) (returnk 0)
     else setupkvm_loop pgdir ks)"

definition setupkvm :: "('a vm_state_scheme, uint) kop" where
  "setupkvm =
     bindk kalloc (\<lambda>pgdir.
     if pgdir = 0 then returnk 0
     else
     thenk (modk (zero_page pgdir)) (
     if P2V PHYSTOP > DEVSPACE then panick ''PHYSTOP too high''
     else
     bindk (getk kern_data) (\<lambda>data.
     setupkvm_loop pgdir (kmap data))))"

definition lcr3 :: "uint \<Rightarrow> ('a machine_scheme, unit) kop" where
  "lcr3 v = modk (\<lambda>s. s\<lparr>cr3 := (cr3 s)(lapicid s := v)\<rparr>)"

definition switchkvm :: "('a vm_state_scheme, unit) kop" where
  "switchkvm = bindk (getk kpgdir) (\<lambda>d. lcr3 (V2P d))"

definition kvmalloc :: "('a vm_state_scheme, unit) kop" where
  "kvmalloc =
     bindk setupkvm (\<lambda>d.
     thenk (modk (\<lambda>s. s\<lparr>kpgdir := d\<rparr>)) (
     switchkvm))"

section \<open>User memory\<close>

primrec mem_write :: "memory \<Rightarrow> uint \<Rightarrow> uchar list \<Rightarrow> memory" where
  "mem_write m a [] = m"
| "mem_write m a (b # bs) = mem_write (m(a := b)) (a + 1) bs"

definition inituvm :: "uint \<Rightarrow> uchar list \<Rightarrow> ('a kmem_state_scheme, unit) kop" where
  "inituvm pgdir init =
     (if length init \<ge> 4096 then panick ''inituvm: more than a page''
      else bindk kalloc (\<lambda>m.
      if m = 0 then stopk (Undef ''inituvm: memset of null'')
      else
      thenk (modk (zero_page m)) (
      thenk (mappages pgdir 0 PGSIZE (V2P m) (PTE_W OR PTE_U)) (
      modk (\<lambda>s. s\<lparr>mem := mem_write (mem s) m init\<rparr>)))))"

primrec allocuvm_loop ::
  "nat \<Rightarrow> uint \<Rightarrow> uint \<Rightarrow> uint \<Rightarrow> uint \<Rightarrow> ('a kmem_state_scheme, uint) kop" where
  "allocuvm_loop 0 pgdir a oldsz newsz = stopk Diverge"
| "allocuvm_loop (Suc fuel) pgdir a oldsz newsz =
     (if \<not> a < newsz then returnk newsz
      else bindk kalloc (\<lambda>m.
      if m = 0 then thenk (deallocuvm pgdir newsz oldsz) (returnk 0)
      else
      thenk (modk (zero_page m)) (
      bindk (mappages pgdir a PGSIZE (V2P m) (PTE_W OR PTE_U)) (\<lambda>r.
      if r < 0 then
        thenk (deallocuvm pgdir newsz oldsz) (
        thenk (kfree m) (
        returnk 0))
      else allocuvm_loop fuel pgdir (a + PGSIZE) oldsz newsz))))"

definition allocuvm :: "uint \<Rightarrow> uint \<Rightarrow> uint \<Rightarrow> ('a kmem_state_scheme, uint) kop" where
  "allocuvm pgdir oldsz newsz =
     (if newsz \<ge> KERNBASE then returnk 0
      else if newsz < oldsz then returnk oldsz
      else allocuvm_loop vm_fuel pgdir (PGROUNDUP oldsz) oldsz newsz)"

definition clearpteu :: "uint \<Rightarrow> uint \<Rightarrow> ('a kmem_state_scheme, unit) kop" where
  "clearpteu pgdir uva =
     bindk (walkpgdir pgdir uva False) (\<lambda>pte.
     if pte = 0 then panick ''clearpteu''
     else bindk (getword pte) (\<lambda>e. modk (set_word pte (e AND NOT PTE_U))))"

primrec copyuvm_loop ::
  "nat \<Rightarrow> uint \<Rightarrow> uint \<Rightarrow> uint \<Rightarrow> uint \<Rightarrow> ('a kmem_state_scheme, uint) kop" where
  "copyuvm_loop 0 pgdir d i sz = stopk Diverge"
| "copyuvm_loop (Suc fuel) pgdir d i sz =
     (if \<not> i < sz then returnk d
      else bindk (walkpgdir pgdir i False) (\<lambda>pte.
      if pte = 0 then panick ''copyuvm: pte should exist''
      else bindk (getword pte) (\<lambda>e.
      if e AND PTE_P = 0 then panick ''copyuvm: page not present''
      else
      (let pa = PTE_ADDR e; flags = PTE_FLAGS e in
      bindk kalloc (\<lambda>m.
      if m = 0 then thenk (freevm d) (returnk 0)
      else
      thenk (modk (\<lambda>s. s\<lparr>mem := memmove (mem s) m (P2V pa) PGSIZE\<rparr>)) (
      bindk (mappages d i PGSIZE (V2P m) flags) (\<lambda>r.
      if r < 0 then
        thenk (kfree m) (
        thenk (freevm d) (
        returnk 0))
      else copyuvm_loop fuel pgdir d (i + PGSIZE) sz)))))))"

definition copyuvm :: "uint \<Rightarrow> uint \<Rightarrow> ('a vm_state_scheme, uint) kop" where
  "copyuvm pgdir sz =
     bindk setupkvm (\<lambda>d.
     if d = 0 then returnk 0
     else copyuvm_loop vm_fuel pgdir d 0 sz)"

definition uva2ka :: "uint \<Rightarrow> uint \<Rightarrow> ('a kmem_state_scheme, uint) kop" where
  "uva2ka pgdir uva =
     bindk (walkpgdir pgdir uva False) (\<lambda>pte.
     if pte = 0 then stopk (Undef ''uva2ka: null page table entry'')
     else bindk (getword pte) (\<lambda>e.
     if e AND PTE_P = 0 then returnk 0
     else if e AND PTE_U = 0 then returnk 0
     else returnk (P2V (PTE_ADDR e))))"

text \<open>
  \<open>copyout\<close> takes the bytes at \<open>p\<close> as a list; \<open>len\<close> is its length. Every round
  copies at least one byte, so the length bounds the rounds.
\<close>

function copyout :: "uint \<Rightarrow> uint \<Rightarrow> uchar list \<Rightarrow> ('a kmem_state_scheme, int) kop" where
  "copyout pgdir va buf s =
     (if buf = [] then Ok 0 s
      else
        (let va0 = PGROUNDDOWN va;
             n = min (4096 - unat (va - va0)) (length buf)
         in case uva2ka pgdir va0 s of
              Stop e s' \<Rightarrow> Stop e s'
            | Ok pa0 s' \<Rightarrow>
                if pa0 = 0 then Ok (-1) s'
                else if n = 0 then Stop Diverge s'
                else copyout pgdir (va0 + PGSIZE) (drop n buf)
                  (s'\<lparr>mem := mem_write (mem s') (pa0 + (va - va0)) (take n buf)\<rparr>)))"
  by pat_completeness auto
termination
  by (relation "measure (\<lambda>(_, _, buf, _). length buf)") auto

end
