(* ===== verification/PageTable.thy ===== *)
theory PageTable
  imports Vm
begin

text \<open>
  Page tables as partial maps. \<open>lookup m d\<close> reads the two-level table at directory \<open>d\<close> as a
  map from virtual addresses to page table entries, \<open>uread m d\<close> the bytes a user program sees
  through it. \<open>mappages\<close> refines the update of the first map on a range of pages,
  \<open>copyout\<close> the update of the second on a range of bytes.
\<close>

declare copyout.simps [simp del]

section \<open>Notions\<close>

text \<open>
  Entry \<open>i\<close> of the table at \<open>p\<close>, the present bit, the page table of a directory entry, and the
  entry that maps an address.
\<close>

definition slot :: "uint \<Rightarrow> uint \<Rightarrow> uint" where
  "slot p i = p + 4 * i"

definition present :: "uint \<Rightarrow> bool" where
  "present e \<longleftrightarrow> e AND PTE_P \<noteq> 0"

definition ptab :: "memory \<Rightarrow> uint \<Rightarrow> uint \<Rightarrow> uint" where
  "ptab m d i = P2V (PTE_ADDR (load32 m (slot d i)))"

definition lookup :: "memory \<Rightarrow> uint \<Rightarrow> uint \<Rightarrow> uint option" where
  "lookup m d va =
     (if present (load32 m (slot d (PDX va)))
      then let e = load32 m (slot (ptab m d (PDX va)) (PTX va)) in if present e then Some e else None
      else None)"

text \<open>
  A directory whose tables are pairwise distinct pages apart from it and from the free list.
\<close>

definition pt_ok :: "'a kmem_state_scheme \<Rightarrow> uint \<Rightarrow> uint list \<Rightarrow> bool" where
  "pt_ok s d fs \<longleftrightarrow> kmem_ready s \<and> free_pages s fs \<and> d mod PGSIZE = 0 \<and> d \<notin> set fs \<and>
     (\<forall>i < 1024. present (load32 (mem s) (slot d i)) \<longrightarrow>
        ptab (mem s) d i \<noteq> d \<and> ptab (mem s) d i \<noteq> 0 \<and> ptab (mem s) d i \<notin> set fs) \<and>
     (\<forall>i < 1024. \<forall>j < 1024. present (load32 (mem s) (slot d i)) \<and> present (load32 (mem s) (slot d j)) \<and>
        ptab (mem s) d i = ptab (mem s) d j \<longrightarrow> i = j)"

text \<open>The directory with a new, empty table for the addresses of \<open>va\<close>.\<close>

definition new_table :: "uint \<Rightarrow> uint \<Rightarrow> uint \<Rightarrow> memory \<Rightarrow> memory" where
  "new_table d k va m = store32 (memset m k 0 PGSIZE) (slot d (PDX va)) (V2P k OR PTE_P OR PTE_W OR PTE_U)"

text \<open>The abstract effect: \<open>n\<close> pages from \<open>a\<close> are mapped to the frames from \<open>pa\<close>.\<close>

definition map_range :: "nat \<Rightarrow> uint \<Rightarrow> uint \<Rightarrow> uint \<Rightarrow> (uint \<Rightarrow> uint option) \<Rightarrow> uint \<Rightarrow> uint option" where
  "map_range n a pa perm L v = (let off = PGROUNDDOWN v - a in
     if unat off < 4096 * n then Some ((pa + off) OR perm OR PTE_P) else L v)"

text \<open>
  The pages that hold the tables, the frame behind a user address, the byte a user program
  reads there, and an address space whose user frames are distinct and hold no table.
\<close>

definition tables :: "memory \<Rightarrow> uint \<Rightarrow> uint set" where
  "tables m d = insert d {ptab m d i | i. i < 1024 \<and> present (load32 m (slot d i))}"

definition frame_of :: "memory \<Rightarrow> uint \<Rightarrow> uint \<Rightarrow> uint option" where
  "frame_of m d va = (case lookup m d va of
     None \<Rightarrow> None
   | Some e \<Rightarrow> if e AND PTE_U = 0 then None else Some (P2V (PTE_ADDR e)))"

definition uread :: "memory \<Rightarrow> uint \<Rightarrow> uint \<Rightarrow> uchar option" where
  "uread m d va = map_option (\<lambda>p. m (p + (va - PGROUNDDOWN va))) (frame_of m d va)"

definition isolated :: "memory \<Rightarrow> uint \<Rightarrow> bool" where
  "isolated m d \<longleftrightarrow> d mod PGSIZE = 0 \<and> 0 \<notin> tables m d \<and>
     (\<forall>v p. frame_of m d v = Some p \<longrightarrow> p \<notin> tables m d \<and> p \<noteq> 0) \<and>
     (\<forall>v w p. frame_of m d v = Some p \<and> frame_of m d w = Some p \<longrightarrow> PGROUNDDOWN v = PGROUNDDOWN w)"

definition write_range :: "uint \<Rightarrow> uchar list \<Rightarrow> (uint \<Rightarrow> uchar option) \<Rightarrow> uint \<Rightarrow> uchar option" where
  "write_range va bs A = (\<lambda>v. if unat (v - va) < length bs then Some (bs ! unat (v - va)) else A v)"

text \<open>A directory at \<open>0x80401000\<close> with one table, which maps page 0 to the frame at \<open>0x80403000\<close>.\<close>

definition sample_space :: "'a \<Rightarrow> 'a kmem_state_scheme" where
  "sample_space m = (sample_kmem m)\<lparr>mem :=
     store32 (store32 (\<lambda>_. 0) (slot 0x80401000 0) 0x402007) (slot 0x80402000 0) 0x403007\<rparr>"

section \<open>Words in pages\<close>

lemma page_split:
  fixes p q k l :: uint
  assumes "p mod PGSIZE = 0" "q mod PGSIZE = 0" "unat k < 4096" "unat l < 4096" "p + k = q + l"
  shows "p = q \<and> k = l"
proof -
  have "p = q"
  proof (rule ccontr)
    assume "p \<noteq> q"
    then have "4096 \<le> unat (q + l - p)" using page_apart [OF assms(2,1)] assms(4) by simp
    moreover have "q + l - p = k" using assms(5) by (metis add_diff_cancel_left')
    ultimately show False using assms(3) by simp
  qed
  then show ?thesis using assms(5) by simp
qed

lemma slot_offset:
  fixes i c :: uint
  assumes "i < 1024" and "c < 4"
  shows "unat (4 * i + c) = 4 * unat i + unat c" and "unat (4 * i + c) < 4096"
proof -
  have i: "unat i < 1024" "unat c < 4" using assms by (simp_all add: word_less_nat_alt)
  have "unat (4 * i) = 4 * unat i"
    using i by (subst unat_mult_lem [THEN iffD1]) simp_all
  then show u: "unat (4 * i + c) = 4 * unat i + unat c"
    using i by (subst unat_add_lem [THEN iffD1]) simp_all
  show "unat (4 * i + c) < 4096" unfolding u using i by simp
qed

lemma slot_inj:
  assumes "p mod PGSIZE = 0" "q mod PGSIZE = 0" "i < 1024" "j < 1024" "c < 4" "e < 4"
    and "slot p i + c = slot q j + e"
  shows "p = q \<and> i = j \<and> c = e"
proof -
  have "p + (4 * i + c) = q + (4 * j + e)" using assms(7) by (simp add: slot_def add.assoc)
  then have *: "p = q \<and> 4 * i + c = 4 * j + e"
    using page_split [OF assms(1,2)] slot_offset(2) assms(3-6) by blast
  then have "4 * unat i + unat c = 4 * unat j + unat e"
    using slot_offset(1) assms(3-6) by metis
  moreover have "unat c < 4" "unat e < 4" using assms(5,6) by (simp_all add: word_less_nat_alt)
  ultimately have "unat i = unat j \<and> unat c = unat e" by presburger
  then show ?thesis using * by (simp add: word_unat_eq_iff)
qed

lemma load32_store_slot:
  assumes "p mod PGSIZE = 0" "q mod PGSIZE = 0" "i < 1024" "j < 1024" "(p, i) \<noteq> (q, j)"
  shows "load32 (store32 m (slot p i) v) (slot q j) = load32 m (slot q j)"
proof -
  have "slot p i + c \<noteq> slot q j + e" if "c < 4" "e < 4" for c e
    using slot_inj [OF assms(1-4) that] assms(5) by blast
  then have ne: "slot q j + e \<noteq> slot p i + c" if "c < 4" "e < 4" for c e using that by metis
  have "store32 m (slot p i) v (slot q j + e) = m (slot q j + e)" if "e < 4" for e
    using ne [of 0 e] ne [of 1 e] ne [of 2 e] ne [of 3 e] that by (simp add: store32_def)
  from this [of 0] this [of 1] this [of 2] this [of 3] show ?thesis by (simp add: load32_def)
qed

lemma load32_memset_slot:
  assumes "p mod PGSIZE = 0" "q mod PGSIZE = 0" "j < 1024"
  shows "load32 (memset m p 0 PGSIZE) (slot q j) = (if q = p then 0 else load32 m (slot q j))"
proof -
  have e: "slot q j + e = q + (4 * j + e)" for e by (simp add: slot_def)
  have "memset m p 0 PGSIZE (slot q j + e) = (if q = p then 0 else m (slot q j + e))" if "e < 4" for e
  proof (cases "q = p")
    case True
    then show ?thesis
      using slot_offset(2) [OF assms(3) that] unfolding e memset_apply by simp
  next
    case False
    then have "4096 \<le> unat (q + (4 * j + e) - p)"
      using page_apart [OF assms(2,1)] slot_offset(2) [OF assms(3) that] by blast
    then show ?thesis using False unfolding e memset_apply by simp
  qed
  from this [of 0] this [of 1] this [of 2] this [of 3] show ?thesis by (simp add: load32_def un32_def)
qed

lemma PDX_less [simp]: "PDX va < 1024" and PTX_less [simp]: "PTX va < 1024"
proof -
  have "take_bit 10 a < 1024" for a :: uint
    by (simp add: word_less_nat_alt unsigned_take_bit_eq take_bit_nat_less_exp [of 10, simplified])
  then show "PDX va < 1024" "PTX va < 1024" by (simp_all add: PDX_take_bit PTX_take_bit)
qed

lemma P2V_aligned [simp]: "P2V (PTE_ADDR e) mod PGSIZE = 0"
proof -
  have "(PTE_ADDR e - 0x80000000) mod PGSIZE = 0"
    by (rule aligned_diff) (simp_all add: PTE_ADDR_down)
  moreover have "P2V (PTE_ADDR e) = PTE_ADDR e - 0x80000000" by (simp add: P2V_def)
  ultimately show ?thesis by simp
qed

lemma ptab_aligned [simp]: "ptab m d i mod PGSIZE = 0"
  by (simp add: ptab_def)

lemma same_page: "PDX v = PDX w \<and> PTX v = PTX w \<longleftrightarrow> PGROUNDDOWN v = PGROUNDDOWN w"
proof
  have b: "bit (PDX v) n \<longleftrightarrow> n < 10 \<and> bit v (n + 22)" "bit (PTX v) n \<longleftrightarrow> n < 10 \<and> bit v (n + 12)" for v n
    by (auto simp: PDX_take_bit PTX_take_bit bit_simps add.commute)
  show "PDX v = PDX w \<and> PTX v = PTX w" if "PGROUNDDOWN v = PGROUNDDOWN w"
  proof -
    have e: "bit v n = bit w n" if "12 \<le> n" for n
      using arg_cong [OF \<open>PGROUNDDOWN v = PGROUNDDOWN w\<close>, of "\<lambda>x. bit x n"] that by (simp add: bit_PGROUNDDOWN)
    show ?thesis by (auto intro!: bit_word_eqI simp: b e)
  qed
  show "PGROUNDDOWN v = PGROUNDDOWN w" if *: "PDX v = PDX w \<and> PTX v = PTX w"
  proof (rule bit_word_eqI)
    fix n assume n: "n < LENGTH(32)"
    have "bit v n = bit w n" if "12 \<le> n"
    proof (cases "n < 22")
      case True
      then show ?thesis using b(2) [of v "n - 12"] b(2) [of w "n - 12"] * that by auto
    next
      case False
      then show ?thesis using b(1) [of v "n - 22"] b(1) [of w "n - 22"] * n by auto
    qed
    then show "bit (PGROUNDDOWN v) n = bit (PGROUNDDOWN w) n" by (auto simp: bit_PGROUNDDOWN)
  qed
qed


section \<open>The walk\<close>

lemma pt_okD:
  assumes "pt_ok s d fs"
  shows "kmem_ready s" and "free_pages s fs" and "d mod PGSIZE = 0" and "d \<notin> set fs"
    and "i < 1024 \<Longrightarrow> present (load32 (mem s) (slot d i)) \<Longrightarrow>
      ptab (mem s) d i \<noteq> d \<and> ptab (mem s) d i \<noteq> 0 \<and> ptab (mem s) d i \<notin> set fs"
    and "i < 1024 \<Longrightarrow> j < 1024 \<Longrightarrow> present (load32 (mem s) (slot d i)) \<Longrightarrow>
      present (load32 (mem s) (slot d j)) \<Longrightarrow> ptab (mem s) d i = ptab (mem s) d j \<Longrightarrow> i = j"
  using assms unfolding pt_ok_def by blast+

lemma slot_nonzero: "p mod PGSIZE = 0 \<Longrightarrow> p \<noteq> 0 \<Longrightarrow> i < 1024 \<Longrightarrow> slot p i \<noteq> 0"
  using slot_inj [of p 0 i 0 0 0] by (auto simp: slot_def)

lemma free_page:
  "free_pages s (k # ks) \<Longrightarrow> k \<noteq> 0 \<and> k mod PGSIZE = 0 \<and> k \<notin> set ks"
  using chain_distinct [of "mem s" "freelist s" "k # ks"] valid_page_nonzero [of "kern_end s" k]
  by (auto simp: free_pages_def valid_page_def)

lemma free_pages_store:
  assumes "free_pages s fs" and "p mod PGSIZE = 0" "p \<notin> set fs" "i < 1024"
  shows "free_pages (s\<lparr>mem := store32 (mem s) (slot p i) v\<rparr>) fs"
proof -
  have "load32 (store32 (mem s) (slot p i) v) x = load32 (mem s) x" if "x \<in> set fs" for x
    using load32_store_slot [OF assms(2) _ assms(4), of x 0 "mem s" v] that assms(1,3)
    by (auto simp: free_pages_def valid_page_def slot_def)
  then show ?thesis using assms(1) by (auto simp: free_pages_def intro: chain_cong)
qed

lemma free_pages_memset:
  assumes "free_pages s fs" and "p mod PGSIZE = 0" "p \<notin> set fs"
  shows "free_pages (s\<lparr>mem := memset (mem s) p 0 PGSIZE\<rparr>) fs"
proof -
  have "load32 (memset (mem s) p 0 PGSIZE) x = load32 (mem s) x" if "x \<in> set fs" for x
    using load32_memset_slot [OF assms(2), of x 0 "mem s"] that assms(1,3)
    by (auto simp: free_pages_def valid_page_def slot_def)
  then show ?thesis using assms(1) by (auto simp: free_pages_def intro: chain_cong)
qed

lemma entry_flags:
  fixes pa f :: uint
  assumes "pa mod PGSIZE = 0" and "f AND NOT 0xFFF = 0"
  shows "PTE_ADDR (pa OR f OR PTE_P) = pa" and "present (pa OR f OR PTE_P)"
    and "PTE_FLAGS (pa OR f OR PTE_P) = f OR PTE_P"
proof -
  have "(f OR PTE_P) AND NOT 0xFFF = 0" using assms(2) by (simp add: bit.conj_disj_distrib2)
  from PTE_ADDR_or_flags [OF assms(1) this]
  show "PTE_ADDR (pa OR f OR PTE_P) = pa" "PTE_FLAGS (pa OR f OR PTE_P) = f OR PTE_P"
    by (simp_all add: or.assoc)
  have "bit (pa OR f OR PTE_P) 0" by (simp add: bit_simps)
  then show "present (pa OR f OR PTE_P)"
    unfolding present_def by (metis and_one_eq mod2_eq_if odd_one bit_0 zero_neq_one)
qed

lemma new_table_words:
  assumes "d mod PGSIZE = 0" "k mod PGSIZE = 0" "k \<noteq> d" "j < 1024"
  shows "load32 (new_table d k va m) (slot d (PDX va)) = V2P k OR PTE_P OR PTE_W OR PTE_U"
    and "j \<noteq> PDX va \<Longrightarrow> load32 (new_table d k va m) (slot d j) = load32 m (slot d j)"
    and "q mod PGSIZE = 0 \<Longrightarrow> q \<noteq> d \<Longrightarrow>
      load32 (new_table d k va m) (slot q j) = (if q = k then 0 else load32 m (slot q j))"
  using assms by (simp_all add: new_table_def load32_store_slot load32_memset_slot)


lemma V2P_aligned: "k mod PGSIZE = 0 \<Longrightarrow> V2P k mod PGSIZE = 0"
  unfolding V2P_def by (rule aligned_diff) simp_all

lemma new_entry:
  assumes "k mod PGSIZE = 0"
  shows "present (V2P k OR PTE_P OR PTE_W OR PTE_U)" and "P2V (PTE_ADDR (V2P k OR PTE_P OR PTE_W OR PTE_U)) = k"
proof -
  have "V2P k OR PTE_P OR PTE_W OR PTE_U = V2P k OR (PTE_W OR PTE_U) OR PTE_P"
    by (simp add: or.assoc or.commute or.left_commute)
  moreover have "((PTE_W :: uint) OR PTE_U) AND NOT 0xFFF = 0" by simp
  ultimately show "present (V2P k OR PTE_P OR PTE_W OR PTE_U)"
      "P2V (PTE_ADDR (V2P k OR PTE_P OR PTE_W OR PTE_U)) = k"
    using entry_flags [OF V2P_aligned [OF assms], of "PTE_W OR PTE_U"] by (metis P2V_V2P)+
qed

lemma new_table_ok:
  assumes ok: "pt_ok s d (k # ks)" and abs: "\<not> present (load32 (mem s) (slot d (PDX va)))"
    and t: "free_pages t ks" "kmem_ready t" "mem t = new_table d k va (mem s)"
  shows "pt_ok t d ks" and "lookup (mem t) d = lookup (mem s) d"
    and "present (load32 (mem t) (slot d (PDX va)))" and "ptab (mem t) d (PDX va) = k"
proof -
  note o = pt_okD [OF ok]
  have k: "k \<noteq> 0" "k mod PGSIZE = 0" "k \<notin> set ks" "k \<noteq> d" using free_page [OF o(2)] o(4) by auto
  note w = new_table_words [OF o(3) k(2,4)]
  show pr: "present (load32 (mem t) (slot d (PDX va)))" "ptab (mem t) d (PDX va) = k"
    using new_entry [OF k(2)] w(1) [of 0] by (simp_all add: t(3) ptab_def)
  have same: "load32 (mem t) (slot d j) = load32 (mem s) (slot d j)" "ptab (mem t) d j = ptab (mem s) d j"
    if "j < 1024" "j \<noteq> PDX va" for j
    using w(2) [OF that] by (simp_all add: t(3) ptab_def)
  have tab: "ptab (mem s) d j \<noteq> d \<and> ptab (mem s) d j \<noteq> 0 \<and> ptab (mem s) d j \<notin> set ks \<and> ptab (mem s) d j \<noteq> k"
    if "j < 1024" "present (load32 (mem s) (slot d j))" for j
    using o(5) [OF that] by auto
  show "pt_ok t d ks"
    unfolding pt_ok_def
  proof (intro conjI allI impI)
    fix i :: uint
    assume i: "i < 1024" and p: "present (load32 (mem t) (slot d i))"
    have "ptab (mem t) d i \<noteq> d \<and> ptab (mem t) d i \<noteq> 0 \<and> ptab (mem t) d i \<notin> set ks"
    proof (cases "i = PDX va")
      case True
      then show ?thesis using pr k by auto
    next
      case False
      then show ?thesis using same [OF i False] tab [OF i] p by simp
    qed
    then show "ptab (mem t) d i \<noteq> d" "ptab (mem t) d i \<noteq> 0" "ptab (mem t) d i \<notin> set ks" by auto
  next
    fix i j :: uint
    assume i: "i < 1024" "j < 1024" and p: "present (load32 (mem t) (slot d i)) \<and>
      present (load32 (mem t) (slot d j)) \<and> ptab (mem t) d i = ptab (mem t) d j"
    show "i = j"
    proof (cases "i = PDX va \<or> j = PDX va")
      case True
      then show ?thesis
        using same [OF i(1)] same [OF i(2)] tab [OF i(1)] tab [OF i(2)] pr p by metis
    next
      case False
      then show ?thesis using same [OF i(1)] same [OF i(2)] p o(6) [OF i] by metis
    qed
  qed (use t o k in auto)
  show "lookup (mem t) d = lookup (mem s) d"
  proof
    fix v
    show "lookup (mem t) d v = lookup (mem s) d v"
    proof (cases "PDX v = PDX va")
      case True
      then have "load32 (mem t) (slot (ptab (mem t) d (PDX v)) (PTX v)) = 0"
        using w(3) [of "PTX v" k] k pr by (simp add: t(3))
      then show ?thesis using True abs by (simp add: lookup_def present_def Let_def)
    next
      case False
      have "load32 (mem t) (slot (ptab (mem s) d (PDX v)) (PTX v)) = load32 (mem s) (slot (ptab (mem s) d (PDX v)) (PTX v))"
        if "present (load32 (mem s) (slot d (PDX v)))"
        using w(3) [of "PTX v" "ptab (mem s) d (PDX v)"] tab [OF _ that] by (simp add: t(3))
      then show ?thesis using same [OF _ False] by (simp add: lookup_def)
    qed
  qed
qed

lemma walk_present:
  "present (load32 (mem s) (slot d (PDX va))) \<Longrightarrow>
   walkpgdir d va alloc s = Ok (slot (ptab (mem s) d (PDX va)) (PTX va)) s"
  by (simp add: walkpgdir_def kop_defs getword_def present_def slot_def ptab_def Let_def)

lemma walk_absent:
  "\<not> present (load32 (mem s) (slot d (PDX va))) \<Longrightarrow> walkpgdir d va False s = Ok 0 s"
  by (simp add: walkpgdir_def kop_defs getword_def present_def slot_def Let_def)

lemma walk_alloc:
  assumes ok: "pt_ok s d fs" and abs: "\<not> present (load32 (mem s) (slot d (PDX va)))"
  shows "fs = [] \<Longrightarrow> walkpgdir d va True s = Ok 0 (tidy s)"
    and "fs = k # ks \<Longrightarrow> \<exists>t. walkpgdir d va True s = Ok (slot k (PTX va)) t \<and> free_pages t ks \<and>
      kmem_ready t \<and> mem t = new_table d k va (mem s)"
proof -
  note o = pt_okD [OF ok]
  show "walkpgdir d va True s = Ok 0 (tidy s)" if "fs = []"
    using abs kalloc_none [OF o(1)] o(2) that
    by (simp add: walkpgdir_def kop_defs getword_def present_def slot_def Let_def)
  show "\<exists>t. walkpgdir d va True s = Ok (slot k (PTX va)) t \<and> free_pages t ks \<and>
      kmem_ready t \<and> mem t = new_table d k va (mem s)" if fs: "fs = k # ks"
  proof -
    let ?t = "(tidy s)\<lparr>freelist := load32 (mem s) k\<rparr>"
    have a: "kalloc s = Ok k ?t" "free_pages ?t ks" using kalloc_pops [OF o(1)] o(2) fs by simp_all
    have k: "k \<noteq> 0" "k mod PGSIZE = 0" "k \<notin> set ks" "d \<notin> set ks"
      using free_page o(2,4) fs by auto
    let ?u = "?t\<lparr>mem := memset (mem s) k 0 PGSIZE\<rparr>"
    have "free_pages ?u ks" using free_pages_memset [OF a(2) k(2,3)] by simp
    from free_pages_store [OF this o(3) k(4), of "PDX va"]
    have "free_pages (?t\<lparr>mem := new_table d k va (mem s)\<rparr>) ks" by (simp add: new_table_def)
    moreover have "walkpgdir d va True s = Ok (slot k (PTX va)) (?t\<lparr>mem := new_table d k va (mem s)\<rparr>)"
      using abs a(1) k(1)
      by (simp add: walkpgdir_def kop_defs getword_def present_def Let_def zero_page_def set_word_def
          new_table_def slot_def)
    ultimately show ?thesis using o(1) by auto
  qed
qed


lemma set_entry:
  assumes ok: "pt_ok s d fs" and pr: "present (load32 (mem s) (slot d (PDX va)))"
    and t: "t = set_word (slot (ptab (mem s) d (PDX va)) (PTX va)) e s"
  shows "pt_ok t d fs"
    and "lookup (mem t) d = (\<lambda>v. if PGROUNDDOWN v = PGROUNDDOWN va
      then (if present e then Some e else None) else lookup (mem s) d v)"
proof -
  note o = pt_okD [OF ok]
  let ?p = "ptab (mem s) d (PDX va)"
  have p: "?p \<noteq> d" "?p \<notin> set fs" using o(5) [OF PDX_less pr] by auto
  have mt: "mem t = store32 (mem s) (slot ?p (PTX va)) e" by (simp add: t set_word_def)
  have dir: "load32 (mem t) (slot d j) = load32 (mem s) (slot d j)" if "j < 1024" for j
    unfolding mt using p that o(3) by (intro load32_store_slot) auto
  then have tab: "ptab (mem t) d j = ptab (mem s) d j" if "j < 1024" for j
    using that by (simp add: ptab_def)
  have "free_pages t fs" "kmem_ready t"
    using free_pages_store [OF o(2) ptab_aligned p(2) PTX_less] o(1) by (simp_all add: t set_word_def)
  then show "pt_ok t d fs"
    unfolding pt_ok_def using o dir tab by metis
  show "lookup (mem t) d = (\<lambda>v. if PGROUNDDOWN v = PGROUNDDOWN va
      then (if present e then Some e else None) else lookup (mem s) d v)"
  proof
    fix v
    show "lookup (mem t) d v = (if PGROUNDDOWN v = PGROUNDDOWN va
      then (if present e then Some e else None) else lookup (mem s) d v)"
    proof (cases "PDX v = PDX va \<and> PTX v = PTX va")
      case True
      then have "load32 (mem t) (slot ?p (PTX v)) = e" by (simp add: mt)
      then show ?thesis using True same_page [of v va] pr by (simp add: lookup_def dir tab)
    next
      case False
      have "load32 (mem t) (slot (ptab (mem s) d (PDX v)) (PTX v)) =
          load32 (mem s) (slot (ptab (mem s) d (PDX v)) (PTX v))"
        if "present (load32 (mem s) (slot d (PDX v)))"
        unfolding mt using False o(6) [OF PDX_less PDX_less pr that]
        by (intro load32_store_slot) auto
      then show ?thesis using False same_page [of v va] by (simp add: lookup_def dir tab)
    qed
  qed
qed

section \<open>Mapping a range of pages\<close>

lemma present_or [simp]: "present (x OR PTE_P)"
proof -
  have "bit (x OR PTE_P) 0" by (simp add: bit_simps)
  then show ?thesis unfolding present_def by (metis and_one_eq mod2_eq_if odd_one bit_0 zero_neq_one)
qed

lemma map_range_0 [simp]: "map_range 0 a pa perm L = L"
  by (simp add: map_range_def fun_eq_iff)

lemma map_range_Suc:
  assumes a: "a mod PGSIZE = 0" and n: "unat a + 4096 * n < 2 ^ 32"
  shows "map_range (Suc n) a pa perm L = map_range n (a + PGSIZE) (pa + PGSIZE) perm
    (\<lambda>v. if PGROUNDDOWN v = a then Some (pa OR perm OR PTE_P) else L v)"
proof
  fix v
  let ?off = "PGROUNDDOWN v - a"
  obtain q where q: "unat ?off = 4096 * q"
    using aligned_diff [OF PGROUNDDOWN_aligned a] by (metis aligned_iff mod_0_imp_dvd dvdE)
  have o': "PGROUNDDOWN v - (a + PGSIZE) = ?off - PGSIZE" by simp
  show "map_range (Suc n) a pa perm L v = map_range n (a + PGSIZE) (pa + PGSIZE) perm
    (\<lambda>v. if PGROUNDDOWN v = a then Some (pa OR perm OR PTE_P) else L v) v"
  proof (cases "q = 0")
    case True
    then have z: "?off = 0" using q by (simp add: unat_eq_0)
    then have "PGROUNDDOWN v = a" by simp
    moreover have "4096 * n \<le> unat (0 - PGSIZE :: uint)" using n by simp
    ultimately show ?thesis unfolding map_range_def o' z Let_def by simp
  next
    case False
    then have "unat PGSIZE \<le> unat ?off" using q by simp
    then have "unat (?off - PGSIZE) = unat ?off - 4096" by (subst unat_sub) (simp_all add: word_le_nat_alt)
    moreover have "PGROUNDDOWN v \<noteq> a" using q False by auto
    ultimately show ?thesis using q False unfolding map_range_def o' Let_def by auto
  qed
qed

lemma walk_create:
  assumes ok: "pt_ok s d fs"
  shows "(\<exists>t. walkpgdir d va True s = Ok 0 t \<and> fs = [] \<and> pt_ok t d fs \<and> mem t = mem s) \<or>
    (\<exists>t fs'. walkpgdir d va True s = Ok (slot (ptab (mem t) d (PDX va)) (PTX va)) t \<and> pt_ok t d fs' \<and>
       slot (ptab (mem t) d (PDX va)) (PTX va) \<noteq> 0 \<and> present (load32 (mem t) (slot d (PDX va))) \<and>
       lookup (mem t) d = lookup (mem s) d)"
proof (cases "present (load32 (mem s) (slot d (PDX va)))")
  case True
  then have "slot (ptab (mem s) d (PDX va)) (PTX va) \<noteq> 0"
    using pt_okD(5) [OF ok PDX_less True] by (intro slot_nonzero) simp_all
  then show ?thesis using walk_present [OF True] ok True by blast
next
  case False
  show ?thesis
  proof (cases fs)
    case Nil
    have "pt_ok (tidy s) d fs" using ok by (simp add: pt_ok_def)
    then show ?thesis using walk_alloc(1) [OF ok False Nil] Nil by auto
  next
    case (Cons k ks)
    then obtain t where t: "walkpgdir d va True s = Ok (slot k (PTX va)) t" "free_pages t ks" "kmem_ready t"
        "mem t = new_table d k va (mem s)"
      using walk_alloc(2) [OF ok False] by blast
    note n = new_table_ok [OF ok [unfolded Cons] False t(2-4)]
    have "slot k (PTX va) \<noteq> 0"
      using free_page [of s k ks] pt_okD(2) [OF ok] Cons by (intro slot_nonzero) simp_all
    then show ?thesis using t(1) n by metis
  qed
qed

lemma unat_numeral_4096: "unat (PGSIZE :: uint) = 4096"
  by simp

lemma mappages_round:
  assumes ok: "pt_ok s d fs" and none: "lookup (mem s) d a = None"
  shows "(\<exists>t. mappages_loop (Suc fuel) d a lst pa perm s = Ok (-1) t \<and> pt_ok t d []) \<or>
    (\<exists>t fs'. mappages_loop (Suc fuel) d a lst pa perm s =
         (if a = lst then Ok 0 t else mappages_loop fuel d (a + PGSIZE) lst (pa + PGSIZE) perm t) \<and>
       pt_ok t d fs' \<and> lookup (mem t) d =
         (\<lambda>v. if PGROUNDDOWN v = PGROUNDDOWN a then Some (pa OR perm OR PTE_P) else lookup (mem s) d v))"
  using walk_create [OF ok, of a]
proof (elim disjE exE conjE)
  fix t
  assume "walkpgdir d a True s = Ok 0 t" "fs = []" "pt_ok t d fs"
  then show ?thesis by (auto simp: kop_defs)
next
  fix t :: "'a kmem_state_scheme" and fs'
  let ?p = "slot (ptab (mem t) d (PDX a)) (PTX a)"
  assume w: "walkpgdir d a True s = Ok ?p t" "pt_ok t d fs'" "?p \<noteq> 0" "present (load32 (mem t) (slot d (PDX a)))"
    and l: "lookup (mem t) d = lookup (mem s) d"
  have "\<not> present (load32 (mem t) ?p)"
    using none w(4) unfolding l [symmetric] by (auto simp: lookup_def Let_def split: if_splits)
  then have "mappages_loop (Suc fuel) d a lst pa perm s =
      (let u = set_word ?p (pa OR perm OR PTE_P) t in
       if a = lst then Ok 0 u else mappages_loop fuel d (a + PGSIZE) lst (pa + PGSIZE) perm u)"
    using w(1,3) by (simp add: kop_defs getword_def present_def)
  moreover have "present (pa OR perm OR PTE_P)" using present_or [of "pa OR perm"] by (simp only: or.assoc)
  then have "lookup (mem (set_word ?p (pa OR perm OR PTE_P) t)) d =
      (\<lambda>v. if PGROUNDDOWN v = PGROUNDDOWN a then Some (pa OR perm OR PTE_P) else lookup (mem s) d v)"
    unfolding set_entry(2) [OF w(2,4) refl] l by (simp only: if_True)
  moreover note set_entry(1) [OF w(2,4) refl, of "pa OR perm OR PTE_P"]
  ultimately show ?thesis unfolding Let_def by (intro disjI2 exI conjI)
qed

lemma mappages_loop_spec:
  assumes "pt_ok s d fs" and "a mod PGSIZE = 0" and "unat a + 4096 * n < 2 ^ 32"
    and "lst = a + of_nat n * PGSIZE" and "n < fuel"
    and "\<And>v. unat (PGROUNDDOWN v - a) < 4096 * Suc n \<Longrightarrow> lookup (mem s) d v = None"
  shows "\<exists>r t fs'. mappages_loop fuel d a lst pa perm s = Ok r t \<and> pt_ok t d fs' \<and>
    (r = 0 \<and> lookup (mem t) d = map_range (Suc n) a pa perm (lookup (mem s) d) \<or> r = -1 \<and> fs' = [])"
  using assms
proof (induction n arbitrary: s fs a pa fuel)
  case 0
  obtain f where f: "fuel = Suc f" using "0.prems"(5) by (cases fuel) auto
  have a: "PGROUNDDOWN a = a" using "0.prems"(2) by (rule PGROUNDDOWN_id)
  have "map_range (Suc 0) a pa perm L = (\<lambda>v. if PGROUNDDOWN v = a then Some (pa OR perm OR PTE_P) else L v)" for L
    using map_range_Suc [OF "0.prems"(2,3), of pa perm L] by simp
  moreover have "lookup (mem s) d a = None" using "0.prems"(6) [of a] a by simp
  ultimately show ?case
    using mappages_round [OF "0.prems"(1), of a f lst pa perm] "0.prems"(4) a f
    by (auto simp del: mappages_loop.simps)
next
  case (Suc n)
  obtain f where f: "fuel = Suc f" "n < f" using Suc.prems(5) by (cases fuel) auto
  have a: "PGROUNDDOWN a = a" using Suc.prems(2) by (rule PGROUNDDOWN_id)
  have up: "unat (a + PGSIZE) = unat a + 4096" using Suc.prems(3) by (intro unat_add_PGSIZE) simp
  have al: "(a + PGSIZE) mod PGSIZE = 0" using Suc.prems(2) up by (simp add: aligned_iff)
  have lst: "lst = a + PGSIZE + of_nat n * PGSIZE" using Suc.prems(4) by (simp add: algebra_simps)
  have "unat (of_nat (Suc n) * PGSIZE :: uint) = 4096 * Suc n"
    using Suc.prems(3) by (simp add: unat_word_ariths unat_of_nat)
  then have ne: "a \<noteq> lst" using Suc.prems(4) by auto
  have "lookup (mem s) d a = None" using Suc.prems(6) [of a] a by simp
  from mappages_round [OF Suc.prems(1) this, of f lst pa perm] show ?case
  proof (elim disjE exE conjE)
    fix t
    assume "mappages_loop (Suc f) d a lst pa perm s = Ok (-1) t" "pt_ok t d []"
    then show ?thesis using f(1) by (auto simp del: mappages_loop.simps)
  next
    fix t fs'
    assume t: "mappages_loop (Suc f) d a lst pa perm s =
        (if a = lst then Ok 0 t else mappages_loop f d (a + PGSIZE) lst (pa + PGSIZE) perm t)" "pt_ok t d fs'"
      and l: "lookup (mem t) d =
        (\<lambda>v. if PGROUNDDOWN v = PGROUNDDOWN a then Some (pa OR perm OR PTE_P) else lookup (mem s) d v)"
    have "lookup (mem t) d v = None" if v: "unat (PGROUNDDOWN v - (a + PGSIZE)) < 4096 * Suc n" for v
    proof -
      have e: "PGROUNDDOWN v - (a + PGSIZE) = (PGROUNDDOWN v - a) - PGSIZE" by simp
      have "PGROUNDDOWN v \<noteq> a"
      proof
        assume "PGROUNDDOWN v = a"
        then have "unat (PGROUNDDOWN v - (a + PGSIZE)) = 2 ^ 32 - 4096" by simp
        then show False using v Suc.prems(3) by simp
      qed
      moreover have "unat (PGROUNDDOWN v - a) < 4096 * Suc (Suc n)"
      proof -
        have "PGROUNDDOWN v - a = (PGROUNDDOWN v - (a + PGSIZE)) + PGSIZE" by simp
        then have "unat (PGROUNDDOWN v - a) \<le> unat (PGROUNDDOWN v - (a + PGSIZE)) + 4096"
          by (metis unat_word_ariths(1) mod_less_eq_dividend unat_numeral_4096)
        then show ?thesis using v by simp
      qed
      ultimately show ?thesis using Suc.prems(6) a unfolding l by simp
    qed
    from Suc.IH [OF t(2) al _ lst f(2) this, of "pa + PGSIZE"]
    obtain r u fs'' where u: "mappages_loop f d (a + PGSIZE) lst (pa + PGSIZE) perm t = Ok r u" "pt_ok u d fs''"
        "r = 0 \<and> lookup (mem u) d = map_range (Suc n) (a + PGSIZE) (pa + PGSIZE) perm (lookup (mem t) d) \<or> r = -1 \<and> fs'' = []"
      using Suc.prems(3) up by auto
    have "map_range (Suc (Suc n)) a pa perm (lookup (mem s) d) =
        map_range (Suc n) (a + PGSIZE) (pa + PGSIZE) perm (lookup (mem t) d)"
      unfolding l a using Suc.prems(2,3) by (intro map_range_Suc) simp_all
    then show ?thesis using t(1) ne u f(1) by (auto simp del: mappages_loop.simps)
  qed
qed

lemma pages_count:
  fixes x z :: nat
  assumes "0 < z"
  shows "(x mod 4096 + z + 4095) div 4096 = Suc ((x + z - 1) div 4096 - x div 4096)"
proof -
  let ?a = "x div 4096" and ?y = "x + z - 1"
  have le: "?a \<le> ?y div 4096" using assms by (intro div_le_mono) simp
  have "x mod 4096 + z + 4095 = 4096 * (?y div 4096 - ?a) + ?y mod 4096 + 4096"
    using mult_div_mod_eq [of 4096 x] mult_div_mod_eq [of 4096 ?y] le assms
    by (simp only: diff_mult_distrib2) linarith
  also have "\<dots> = 4096 * Suc (?y div 4096 - ?a) + ?y mod 4096" by simp
  finally show ?thesis by (simp only: div_mult_self4 mod_div_trivial)
qed

lemma sample_directory:
  "j < 1024 \<Longrightarrow> load32 (mem (sample_kmem m)) (slot 0x80401000 j) = 0"
  using load32_store_slot [of "0x80402000" "0x80401000" 0 j "\<lambda>_. 0" "0x80403000"]
  by (simp add: slot_def load32_def un32_def)

lemma sample_pt:
  "pt_ok (sample_kmem m) 0x80401000 [0x80402000, 0x80403000]" "lookup (mem (sample_kmem m)) 0x80401000 v = None"
  using sample_pages [of m] sample_directory [of _ m]
  by (simp_all add: pt_ok_def kmem_pages_def lookup_def present_def)

section \<open>User memory\<close>

lemma isolatedD:
  assumes "isolated m d"
  shows "d mod PGSIZE = 0" and "0 \<notin> tables m d" and "frame_of m d v = Some p \<Longrightarrow> p \<notin> tables m d"
    and "frame_of m d v = Some p \<Longrightarrow> p \<noteq> 0"
    and "frame_of m d v = Some p \<Longrightarrow> frame_of m d w = Some p \<Longrightarrow> PGROUNDDOWN v = PGROUNDDOWN w"
  using assms unfolding isolated_def by blast+

lemma uva2ka_frame:
  "uva2ka d va s = (if present (load32 (mem s) (slot d (PDX va))) \<and> slot (ptab (mem s) d (PDX va)) (PTX va) \<noteq> 0
     then Ok (case frame_of (mem s) d va of None \<Rightarrow> 0 | Some p \<Rightarrow> p) s
     else Stop (Undef ''uva2ka: null page table entry'') s)"
proof (cases "present (load32 (mem s) (slot d (PDX va)))")
  case True
  then show ?thesis
    unfolding uva2ka_def bindk_def walk_present [OF True]
    by (simp add: kop_defs getword_def frame_of_def lookup_def Let_def present_def)
next
  case False
  then show ?thesis unfolding uva2ka_def bindk_def walk_absent [OF False] by (simp add: kop_defs)
qed

lemma mem_write_apply:
  "length bs \<le> 2 ^ 32 \<Longrightarrow>
   mem_write m a bs y = (if unat (y - a) < length bs then bs ! unat (y - a) else m y)"
proof (induction bs arbitrary: m a)
  case (Cons b bs)
  show ?case
  proof (cases "y = a")
    case True
    then have "unat (y - (a + 1)) = 2 ^ 32 - 1" by (simp add: unsigned_minus_1_eq_mask mask_eq_exp_minus_1)
    then show ?thesis using Cons True by simp
  next
    case False
    have n0: "y - a \<noteq> 0" using False by simp
    have "y - (a + 1) = (y - a) - 1" by simp
    then have "unat (y - a) = Suc (unat (y - (a + 1)))"
      using unat_minus_one [OF n0] n0 unat_gt_0 [of "y - a"] by (simp only:) simp
    then show ?thesis using Cons False by simp
  qed
qed simp

lemma page_offset: "unat (v - PGROUNDDOWN v) < 4096"
proof -
  have "v - PGROUNDDOWN v = v mod PGSIZE" by (simp add: PGROUNDDOWN_take_bit take_bit_12)
  then show ?thesis by (simp add: unat_mod_PGSIZE)
qed

lemma page_range:
  fixes p q k off :: uint
  assumes p: "p mod PGSIZE = 0" and q: "q mod PGSIZE = 0" and k: "unat k < 4096"
    and o: "unat off + n \<le> 4096"
  shows "unat (q + k - (p + off)) < n \<longleftrightarrow> q = p \<and> unat off \<le> unat k \<and> unat k < unat off + n"
    and "q = p \<Longrightarrow> unat off \<le> unat k \<Longrightarrow> unat (q + k - (p + off)) = unat k - unat off"
proof -
  have same: "unat (p + k - (p + off)) = (if unat off \<le> unat k then unat k - unat off else unat k + 2 ^ 32 - unat off)"
    using unat_sub_if' [of k off] by simp
  show "q = p \<Longrightarrow> unat off \<le> unat k \<Longrightarrow> unat (q + k - (p + off)) = unat k - unat off"
    using same by simp
  show "unat (q + k - (p + off)) < n \<longleftrightarrow> q = p \<and> unat off \<le> unat k \<and> unat k < unat off + n"
  proof (cases "q = p")
    case True
    then show ?thesis unfolding True same using k o by auto
  next
    case False
    have far: "4096 \<le> unat (q + k - p)" using page_apart [OF q p False k] .
    have "q + k - (p + off) = (q + k - p) - off" by simp
    then have "unat (q + k - (p + off)) = unat (q + k - p) - unat off"
      using far o unat_sub [of off "q + k - p"] by (simp only: word_le_nat_alt)
    then show ?thesis using far o False by linarith
  qed
qed

lemma mem_write_page:
  assumes p: "p mod PGSIZE = 0" and q: "q mod PGSIZE = 0" and k: "unat k < 4096"
    and o: "unat off + length bs \<le> 4096"
  shows "mem_write m (p + off) bs (q + k) =
    (if q = p \<and> unat off \<le> unat k \<and> unat k < unat off + length bs then bs ! (unat k - unat off) else m (q + k))"
proof -
  have "length bs \<le> 2 ^ 32" using o by simp
  from mem_write_apply [OF this, of m "p + off" "q + k"] show ?thesis
    using page_range [OF p q k o] by (auto simp only: if_True if_False split: if_splits)
qed

lemma lookup_cong:
  assumes "\<And>i. i < 1024 \<Longrightarrow> load32 m' (slot d i) = load32 m (slot d i)"
    and "\<And>i j. i < 1024 \<Longrightarrow> j < 1024 \<Longrightarrow> present (load32 m (slot d i)) \<Longrightarrow>
      load32 m' (slot (ptab m d i) j) = load32 m (slot (ptab m d i) j)"
  shows "lookup m' d = lookup m d" and "tables m' d = tables m d"
proof -
  have p: "ptab m' d i = ptab m d i" if "i < 1024" for i using assms(1) [OF that] by (simp add: ptab_def)
  show "lookup m' d = lookup m d" by (simp add: lookup_def fun_eq_iff Let_def assms p)
  have "{ptab m' d i | i. i < 1024 \<and> present (load32 m' (slot d i))} =
      {ptab m d i | i. i < 1024 \<and> present (load32 m (slot d i))}"
    by (metis (no_types, lifting) assms(1) p)
  then show "tables m' d = tables m d" by (simp add: tables_def)
qed

lemma write_user_page:
  assumes iso: "isolated m d" and f: "frame_of m d v = Some p" and o: "unat off + length bs \<le> 4096"
    and m': "m' = mem_write m (p + off) bs"
  shows "lookup m' d = lookup m d" and "tables m' d = tables m d" and "frame_of m' d = frame_of m d"
    and "isolated m' d"
proof -
  have p: "p mod PGSIZE = 0" using f by (auto simp: frame_of_def split: option.splits if_splits)
  have same: "load32 m' (slot q j) = load32 m (slot q j)" if q: "q \<in> tables m d" and j: "j < 1024" for q j
  proof -
    have qa: "q mod PGSIZE = 0" and qp: "q \<noteq> p"
      using q iso f ptab_aligned unfolding tables_def isolated_def by blast+
    have "m' (slot q j + e) = m (slot q j + e)" if "e < 4" for e
      using mem_write_page [OF p qa slot_offset(2) [OF j that] o] qp
      by (simp add: m' slot_def add.assoc)
    from this [of 0] this [of 1] this [of 2] this [of 3] show ?thesis by (simp add: load32_def)
  qed
  have t: "d \<in> tables m d" "\<And>i. i < 1024 \<Longrightarrow> present (load32 m (slot d i)) \<Longrightarrow> ptab m d i \<in> tables m d"
    by (auto simp: tables_def)
  show l: "lookup m' d = lookup m d" and tt: "tables m' d = tables m d"
    using lookup_cong [of m' d m] same t by auto
  show fr: "frame_of m' d = frame_of m d" by (simp add: frame_of_def fun_eq_iff l)
  show "isolated m' d" using iso by (simp add: isolated_def fr tt)
qed

lemma uread_write_page:
  assumes iso: "isolated m d" and f: "frame_of m d va = Some p"
    and n: "unat (va - PGROUNDDOWN va) + length bs \<le> 4096"
  shows "uread (mem_write m (p + (va - PGROUNDDOWN va)) bs) d = write_range va bs (uread m d)"
proof
  fix v
  let ?off = "va - PGROUNDDOWN va" and ?k = "v - PGROUNDDOWN v"
  have p: "q mod PGSIZE = 0" if "frame_of m d w = Some q" for w q
    using that by (auto simp: frame_of_def split: option.splits if_splits)
  have fr: "frame_of (mem_write m (p + ?off) bs) d = frame_of m d" by (rule write_user_page(3) [OF iso f n refl])
  note w = mem_write_page [OF p [OF f] _ page_offset [of v] n, of _ m]
  have v: "v - va = PGROUNDDOWN v + ?k - (PGROUNDDOWN va + ?off)" by simp
  note r = page_range [OF PGROUNDDOWN_aligned [of va] PGROUNDDOWN_aligned [of v] page_offset [of v] n, folded v]
  show "uread (mem_write m (p + ?off) bs) d v = write_range va bs (uread m d) v"
  proof (cases "PGROUNDDOWN v = PGROUNDDOWN va")
    case True
    then have "PDX v = PDX va" "PTX v = PTX va" using same_page [of v va] by blast+
    then have fv: "frame_of m d v = Some p" using f by (simp only: frame_of_def lookup_def)
    show ?thesis
      unfolding uread_def write_range_def fr fv r(1) option.map w [OF p [OF f]] using True r(2) by auto
  next
    case False
    then have "frame_of m d v \<noteq> Some p" using iso f unfolding isolated_def by blast
    then show ?thesis
      unfolding uread_def write_range_def fr r(1) using False w p
      by (cases "frame_of m d v") auto
  qed
qed

lemma uva2ka_page:
  assumes "isolated (mem s) d"
  shows "case frame_of (mem s) d va of
      Some p \<Rightarrow> uva2ka d (PGROUNDDOWN va) s = Ok p s
    | None \<Rightarrow> uva2ka d (PGROUNDDOWN va) s = Ok 0 s \<or>
        uva2ka d (PGROUNDDOWN va) s = Stop (Undef ''uva2ka: null page table entry'') s"
proof -
  have i: "PDX (PGROUNDDOWN va) = PDX va" "PTX (PGROUNDDOWN va) = PTX va"
    using same_page [of "PGROUNDDOWN va" va] by (simp_all add: PGROUNDDOWN_id)
  then have f: "frame_of (mem s) d (PGROUNDDOWN va) = frame_of (mem s) d va"
    by (simp only: frame_of_def lookup_def)
  show ?thesis
  proof (cases "frame_of (mem s) d va")
    case (Some p)
    then have pr: "present (load32 (mem s) (slot d (PDX va)))"
      by (auto simp: frame_of_def lookup_def split: if_splits)
    then have "ptab (mem s) d (PDX va) \<in> tables (mem s) d" unfolding tables_def using PDX_less by blast
    then have "ptab (mem s) d (PDX va) \<noteq> 0" using assms unfolding isolated_def by metis
    then have "slot (ptab (mem s) d (PDX va)) (PTX va) \<noteq> 0" by (intro slot_nonzero) simp_all
    then show ?thesis using pr Some by (simp add: uva2ka_frame i f)
  qed (simp add: uva2ka_frame f)
qed

lemma copyout_round:
  assumes iso: "isolated (mem s) d" and bs: "bs \<noteq> []" and len: "unat va + length bs \<le> 2 ^ 32"
  shows "frame_of (mem s) d va = None \<and> copyout d va bs s = Ok (-1) s \<or>
    frame_of (mem s) d va = None \<and> copyout d va bs s = Stop (Undef ''uva2ka: null page table entry'') s \<or>
    (\<exists>n p. 0 < n \<and> n \<le> length bs \<and> frame_of (mem s) d va = Some p \<and>
       unat (va - PGROUNDDOWN va) + n \<le> 4096 \<and>
       (n < length bs \<longrightarrow> PGROUNDDOWN va + PGSIZE = va + of_nat n) \<and>
       copyout d va bs s = copyout d (PGROUNDDOWN va + PGSIZE) (drop n bs)
         (s\<lparr>mem := mem_write (mem s) (p + (va - PGROUNDDOWN va)) (take n bs)\<rparr>))"
proof (cases "frame_of (mem s) d va")
  case None
  then show ?thesis using uva2ka_page [OF iso, of va] bs
    by (simp only: option.case) (elim disjE, simp_all add: copyout.simps [of d va bs s])
next
  case (Some p)
  let ?off = "va - PGROUNDDOWN va"
  let ?n = "min (4096 - unat ?off) (length bs)"
  have p: "p \<noteq> 0" "uva2ka d (PGROUNDDOWN va) s = Ok p s"
    using isolatedD(4) [OF iso Some] uva2ka_page [OF iso, of va] Some by simp_all
  have "0 < ?n" "?n \<le> length bs" "unat ?off + ?n \<le> 4096" using page_offset [of va] bs by auto
  moreover have "PGROUNDDOWN va + PGSIZE = va + of_nat ?n" if "?n < length bs"
  proof -
    have "?n = 4096 - unat ?off" using that by simp
    then have "of_nat ?n = (4096 :: uint) - ?off" using page_offset [of va] by (simp add: of_nat_diff)
    then show ?thesis by simp
  qed
  moreover have "copyout d va bs s = copyout d (PGROUNDDOWN va + PGSIZE) (drop ?n bs)
         (s\<lparr>mem := mem_write (mem s) (p + ?off) (take ?n bs)\<rparr>)"
    using bs p \<open>0 < ?n\<close> [THEN less_imp_neq, symmetric] by (subst copyout.simps) (simp only: Let_def outcome.case if_False)
  ultimately show ?thesis using Some by (intro disjI2 exI [of _ ?n] exI [of _ p]) blast
qed

lemma write_range_append:
  assumes "unat va + (length bs + length cs) \<le> 2 ^ 32"
  shows "write_range (va + of_nat (length bs)) cs (write_range va bs A) = write_range va (bs @ cs) A"
proof
  fix v
  let ?n = "length bs" and ?d = "v - va"
  have e: "v - (va + of_nat ?n) = ?d - of_nat ?n" by simp
  show "write_range (va + of_nat ?n) cs (write_range va bs A) v = write_range va (bs @ cs) A v"
  proof (cases "length cs = 0")
    case False
    then have "?n < 2 ^ 32" using assms by linarith
    then have n: "unat (of_nat ?n :: uint) = ?n" by (simp add: unat_of_nat)
    have u: "unat (?d - of_nat ?n) = (if ?n \<le> unat ?d then unat ?d - ?n else unat ?d + 2 ^ 32 - ?n)"
      using unat_sub_if' [of ?d "of_nat ?n"] n by simp
    show ?thesis unfolding write_range_def e u using assms by (auto simp: nth_append)
  qed (simp add: write_range_def)
qed

lemma copyout_spec:
  assumes "isolated (mem s) d" and "unat va + length bs \<le> 2 ^ 32"
  shows "frame_of (mem (final (copyout d va bs s))) d = frame_of (mem s) d \<and>
    ((\<forall>v. frame_of (mem s) d v \<noteq> Some (PGROUNDDOWN x)) \<longrightarrow> mem (final (copyout d va bs s)) x = mem s x) \<and>
    (\<forall>t. copyout d va bs s = Ok 0 t \<longrightarrow> uread (mem t) d = write_range va bs (uread (mem s) d)) \<and>
    ((\<forall>i < length bs. frame_of (mem s) d (va + of_nat i) \<noteq> None) \<longrightarrow> (\<exists>t. copyout d va bs s = Ok 0 t))"
  using assms
proof (induction bs arbitrary: va s rule: length_induct)
  case (1 bs)
  show ?case
  proof (cases "bs = []")
    case True
    then show ?thesis by (simp add: write_range_def copyout.simps)
  next
    case False
    from copyout_round [OF "1.prems"(1) False "1.prems"(2)] show ?thesis
    proof (elim disjE exE conjE)
      fix n p
      let ?m = "mem_write (mem s) (p + (va - PGROUNDDOWN va)) (take n bs)"
      let ?s = "s\<lparr>mem := ?m\<rparr>"
      assume n: "0 < n" "n \<le> length bs" "unat (va - PGROUNDDOWN va) + n \<le> 4096"
          "n < length bs \<longrightarrow> PGROUNDDOWN va + PGSIZE = va + of_nat n"
        and f: "frame_of (mem s) d va = Some p"
        and c: "copyout d va bs s = copyout d (PGROUNDDOWN va + PGSIZE) (drop n bs) ?s"
      have l: "unat (va - PGROUNDDOWN va) + length (take n bs) \<le> 4096" using n by simp
      note w = write_user_page [OF "1.prems"(1) f l refl]
      note u = uread_write_page [OF "1.prems"(1) f l]
      have out: "?m x = mem s x" if x: "\<forall>v. frame_of (mem s) d v \<noteq> Some (PGROUNDDOWN x)"
      proof -
        have "p mod PGSIZE = 0" using f by (auto simp: frame_of_def split: option.splits if_splits)
        from mem_write_page [OF this PGROUNDDOWN_aligned [of x] page_offset [of x] l, of "mem s"]
        show ?thesis using x f by auto
      qed
      show ?thesis
      proof (cases "n < length bs")
        case False
        then have "drop n bs = []" by simp
        moreover have "take n bs = bs" using False by simp
        ultimately show ?thesis unfolding c using w u out by (simp add: copyout.simps)
      next
        case True
        then have a: "PGROUNDDOWN va + PGSIZE = va + of_nat n" using n(4) by simp
        have un: "unat (va + of_nat n) = unat va + n"
          using "1.prems"(2) True by (simp add: unat_word_ariths unat_of_nat)
        have "length (drop n bs) < length bs" using n True by simp
        from "1.IH" [rule_format, OF this, of ?s "va + of_nat n"] 
        have "frame_of (mem (final (copyout d va bs s))) d = frame_of ?m d \<and>
            ((\<forall>v. frame_of ?m d v \<noteq> Some (PGROUNDDOWN x)) \<longrightarrow> mem (final (copyout d va bs s)) x = ?m x) \<and>
            (\<forall>t. copyout d va bs s = Ok 0 t \<longrightarrow> uread (mem t) d = write_range (va + of_nat n) (drop n bs) (uread ?m d)) \<and>
            ((\<forall>i < length (drop n bs). frame_of ?m d (va + of_nat n + of_nat i) \<noteq> None) \<longrightarrow>
              (\<exists>t. copyout d va bs s = Ok 0 t))"
          unfolding c a using w "1.prems"(2) un n by simp
        moreover have "write_range (va + of_nat n) (drop n bs) (write_range va (take n bs) A) = write_range va bs A" for A
          using write_range_append [of va "take n bs" "drop n bs" A] "1.prems"(2) n by simp
        moreover have "frame_of (mem s) d (va + of_nat n + of_nat i) \<noteq> None"
          if "\<forall>i < length bs. frame_of (mem s) d (va + of_nat i) \<noteq> None" "i < length (drop n bs)" for i
          using that(1) [rule_format, of "n + i"] that(2) by (simp add: add.assoc)
        ultimately show ?thesis unfolding w u using out by simp
      qed
    qed (use False in auto)
  qed
qed

lemma sample_space_words:
  assumes "p mod PGSIZE = 0" "i < 1024"
  shows "load32 (mem (sample_space m)) (slot p i) =
    (if (p, i) = (0x80402000, 0) then 0x403007 else if (p, i) = (0x80401000, 0) then 0x402007 else 0)"
proof -
  have z: "load32 (\<lambda>_. 0) a = 0" for a by (simp add: load32_def un32_def)
  show ?thesis
    using load32_store_slot [of "0x80402000" p 0 i] load32_store_slot [of "0x80401000" p 0 i] assms
    by (auto simp: sample_space_def z)
qed

lemma sample_space_entries:
  "tables (mem (sample_space m)) 0x80401000 = {0x80401000, 0x80402000}"
  "frame_of (mem (sample_space m)) 0x80401000 v = (if PGROUNDDOWN v = 0 then Some 0x80403000 else None)"
proof -
  let ?m = "mem (sample_space m)"
  have d: "load32 ?m (slot 0x80401000 i) = (if i = 0 then 0x402007 else 0)" if "i < 1024" for i
    using sample_space_words [of "0x80401000" i m] that by simp
  have t: "load32 ?m (slot 0x80402000 i) = (if i = 0 then 0x403007 else 0)" if "i < 1024" for i
    using sample_space_words [of "0x80402000" i m] that by simp
  have p: "present 0x402007" "present 0x403007" "\<not> present 0" by (simp_all add: present_def)
  have p0: "ptab ?m 0x80401000 0 = 0x80402000" using d [of 0] by (simp add: ptab_def P2V_def PTE_ADDR_def)
  have "{ptab ?m 0x80401000 i | i. i < 1024 \<and> present (load32 ?m (slot 0x80401000 i))} = {ptab ?m 0x80401000 0}"
    using d p by (auto split: if_splits)
  then show "tables ?m 0x80401000 = {0x80401000, 0x80402000}" unfolding tables_def p0 by simp
  have z: "PGROUNDDOWN v = 0 \<longleftrightarrow> PDX v = 0 \<and> PTX v = 0"
    using same_page [of v 0] by (simp add: PDX_def PTX_def PGROUNDDOWN_def)
  show "frame_of ?m 0x80401000 v = (if PGROUNDDOWN v = 0 then Some 0x80403000 else None)"
    unfolding z frame_of_def lookup_def using d [OF PDX_less [of v]] t [OF PTX_less [of v]] p p0
    by (auto simp: Let_def P2V_def PTE_ADDR_def)
qed

lemma sample_space_isolated: "isolated (mem (sample_space m)) 0x80401000"
  unfolding isolated_def sample_space_entries by (simp split: if_splits)

section \<open>Properties\<close>

text \<open>
  C4: \<open>mappages\<close> refines the update of a partial map. On a well-formed directory in which the
  pages of the range are not mapped it always returns (no panic, and \<open>vm_fuel\<close> rounds are
  enough). When it returns 0 every page of the range maps to the matching frame with the
  permissions and the present bit, and every other address maps as before; it returns -1 only
  when the free list is empty. The directory is well-formed in both cases.
\<close>

theorem mappages_refines:
  assumes "pt_ok s d fs" and "0 < sz" and "unat va + unat sz \<le> 2 ^ 32"
    and "n = (unat va mod 4096 + unat sz + 4095) div 4096"
    and "\<And>v. unat (PGROUNDDOWN v - PGROUNDDOWN va) < 4096 * n \<Longrightarrow> lookup (mem s) d v = None"
  shows "\<exists>r t fs'. mappages d va sz pa perm s = Ok r t \<and> pt_ok t d fs' \<and>
    (r = 0 \<and> lookup (mem t) d = map_range n (PGROUNDDOWN va) pa perm (lookup (mem s) d) \<or> r = -1 \<and> fs' = [])"
proof -
  let ?x = "unat va" and ?z = "unat sz"
  have z: "0 < ?z" using assms(2) by (simp add: word_less_nat_alt)
  define k where "k = (?x + ?z - 1) div 4096 - ?x div 4096"
  have k: "n = Suc k" unfolding assms(4) k_def by (rule pages_count [OF z])
  have l: "unat (va + sz - 1) = ?x + ?z - 1"
  proof -
    have "va + sz - 1 = of_nat (?x + ?z - 1)" using z by (simp add: of_nat_diff)
    also have "unat \<dots> = (?x + ?z - 1) mod 2 ^ 32" by (simp only: unat_of_nat) simp
    finally show ?thesis using assms(3) z by (simp only:) simp
  qed
  have m: "i - i mod 4096 = 4096 * (i div 4096)" for i :: nat by (simp add: minus_mod_eq_mult_div)
  have "?x div 4096 \<le> (?x + ?z - 1) div 4096" using z by (intro div_le_mono) simp
  then have kk: "unat (PGROUNDDOWN va) + 4096 * k = unat (PGROUNDDOWN (va + sz - 1))"
    unfolding unat_PGROUNDDOWN l m k_def by (simp only: distrib_left [symmetric] le_add_diff_inverse)
  have lt: "unat (PGROUNDDOWN va) + 4096 * k < 2 ^ 32"
    unfolding kk using unsigned_less [of "PGROUNDDOWN (va + sz - 1)"] by simp
  have "PGROUNDDOWN va + of_nat k * PGSIZE = of_nat (unat (PGROUNDDOWN va) + 4096 * k)" by simp
  then have "PGROUNDDOWN (va + sz - 1) = PGROUNDDOWN va + of_nat k * PGSIZE"
    by (simp only: kk) simp
  moreover have "k < vm_fuel" using lt by (simp add: vm_fuel_def)
  ultimately show ?thesis
    unfolding mappages_def k
    by (intro mappages_loop_spec [OF assms(1) PGROUNDDOWN_aligned lt] assms(5)) (simp_all add: k)
qed

theorem mappages_refines_witness:
  "\<exists>r t. mappages 0x80401000 0x1800 0x1000 0x5000 PTE_U (sample_kmem ()) = Ok r t \<and>
     (r = 0 \<and> lookup (mem t) 0x80401000 0x2ABC = Some (0x6000 OR PTE_U OR PTE_P) \<and> lookup (mem t) 0x80401000 0x3000 = None
      \<or> r = -1)"
proof -
  let ?L = "lookup (mem (sample_kmem ())) 0x80401000"
  let ?M = "map_range 2 (PGROUNDDOWN 0x1800) 0x5000 PTE_U ?L"
  have "\<exists>r t fs'. mappages 0x80401000 0x1800 0x1000 0x5000 PTE_U (sample_kmem ()) = Ok r t \<and>
      pt_ok t 0x80401000 fs' \<and> (r = 0 \<and> lookup (mem t) 0x80401000 = ?M \<or> r = -1 \<and> fs' = [])"
    by (rule mappages_refines [OF sample_pt(1)]) (simp_all del: sample_kmem_fields add: sample_pt(2))
  moreover have "?M 0x2ABC = Some (0x6000 OR PTE_U OR PTE_P)" "?M 0x3000 = None"
    by (simp_all del: sample_kmem_fields add: map_range_def PGROUNDDOWN_def sample_pt(2))
  ultimately show ?thesis by metis
qed

text \<open>
  C5: \<open>copyout\<close> refines the update of the user's bytes. In an isolated address space it changes no
  byte outside the user's frames, whatever its outcome; when it returns 0 the user reads
  the buffer at \<open>va\<close> and every other byte as before; and it does return 0 when every byte of the
  range is mapped for the user.
\<close>

theorem copyout_refines:
  assumes "isolated (mem s) d" and "unat va + length bs \<le> 2 ^ 32"
  shows "(\<forall>x. (\<forall>v. frame_of (mem s) d v \<noteq> Some (PGROUNDDOWN x)) \<longrightarrow>
      mem (final (copyout d va bs s)) x = mem s x) \<and>
    (\<forall>t. copyout d va bs s = Ok 0 t \<longrightarrow> uread (mem t) d = write_range va bs (uread (mem s) d)) \<and>
    ((\<forall>i < length bs. frame_of (mem s) d (va + of_nat i) \<noteq> None) \<longrightarrow> (\<exists>t. copyout d va bs s = Ok 0 t))"
  using copyout_spec [OF assms] by blast

theorem copyout_refines_witness:
  "\<exists>t. copyout 0x80401000 0x10 [7, 8] (sample_space ()) = Ok 0 t \<and> uread (mem t) 0x80401000 0x11 = Some 8 \<and>
     uread (mem t) 0x80401000 0x12 = Some 0 \<and> mem t 0x80402000 = 7"
proof -
  let ?m = "mem (sample_space ())" and ?d = "0x80401000 :: uint"
  note f = sample_space_entries(2) [of "()"]
  have g: "PGROUNDDOWN 0x10 = 0" "PGROUNDDOWN 0x11 = 0" "PGROUNDDOWN 0x12 = 0" "PGROUNDDOWN 0x80402000 = 0x80402000"
    by (simp_all add: PGROUNDDOWN_def)
  have len: "unat (0x10 :: uint) + length [7, 8 :: uchar] \<le> 2 ^ 32" by simp
  note r = copyout_refines [OF sample_space_isolated [of "()"] len]
  have "frame_of ?m ?d (0x10 + of_nat i) \<noteq> None" if "i < length [7, 8 :: uchar]" for i
    using that g by (auto simp: f less_Suc_eq)
  then obtain t where t: "copyout ?d 0x10 [7, 8] (sample_space ()) = Ok 0 t" using r by blast
  then have u: "uread (mem t) ?d = write_range 0x10 [7, 8] (uread ?m ?d)" using r by blast
  have "uread (mem t) ?d 0x11 = Some 8" "uread (mem t) ?d 0x12 = uread ?m ?d 0x12"
    unfolding u by (simp_all add: write_range_def)
  moreover have "uread ?m ?d 0x12 = Some (?m 0x80403012)" by (simp add: uread_def f g)
  moreover have "?m 0x80403012 = 0" by (simp add: sample_space_def store32_def slot_def)
  moreover have "mem t 0x80402000 = ?m 0x80402000"
  proof -
    have "\<forall>v. frame_of ?m ?d v \<noteq> Some (PGROUNDDOWN 0x80402000)" by (simp add: f g(4))
    then have "mem (final (copyout ?d 0x10 [7, 8] (sample_space ()))) 0x80402000 = ?m 0x80402000" using r by blast
    then show ?thesis unfolding t final.simps .
  qed
  moreover have "?m 0x80402000 = 7" by (simp add: sample_space_def store32_def slot_def)
  ultimately show ?thesis using t by (intro exI [of _ t] conjI) (simp_all only:)
qed

end
