(* ===== verification/Proc.thy ===== *)
theory Proc
  imports Vm
begin

text \<open>
  Processes and kernel threads: the structures of \<open>src/proc.h\<close> and the part of
  \<open>src/proc.c\<close> that needs no file system: the current process and thread, allocation of
  a process and of its threads, the scheduler, sleeping and waking, killing. A process is
  the index of its slot in \<open>ptable.proc\<close>, a thread the pair of that index and the index
  of its slot in \<open>threads\<close>. A context switch (\<open>swtch\<close>) ends the run of the thread
  that executes it with \<open>Swtch\<close>; the code after it is the separate definition whose
  name ends in \<open>_resume\<close>, run when the scheduler comes back to the thread. Kernel
  stacks live in memory: trap frame and context are at the addresses the code computes.
\<close>

section \<open>Data\<close>

abbreviation (input) NPROC :: nat where "NPROC \<equiv> 64"
abbreviation (input) NTHREADS :: nat where "NTHREADS \<equiv> 16"
abbreviation (input) NOFILE :: nat where "NOFILE \<equiv> 16"
abbreviation (input) KSTACKSIZE :: uint where "KSTACKSIZE \<equiv> 4096"

text \<open>Wait channels: the kernel objects whose address is passed to \<open>sleep\<close> and \<open>wakeup\<close>.\<close>

datatype chan =
    ChanProc nat
  | ChanThread nat nat
  | ChanTicks
  | ChanSleeplock sleeplock_id
  | ChanLog
  | ChanPipeRead uint
  | ChanPipeWrite uint
  | ChanBuf nat
  | ChanInput
  | ChanMutexCopy nat nat

datatype procstate = UNUSED | ZOMBIE | USED

datatype threadstate =
    UNUSED_T | EMBRYO | SLEEPING | RUNNABLE | RUNNING | ZOMBIE_T | BLOCKED

record thread =
  kstack :: uint
  tstate :: threadstate
  tkilled :: bool
  tf :: uint
  tchan :: "chan option"
  tcontext :: uint
  p_parent :: "nat option"
  tid :: int

record proc =
  killed :: bool
  psz :: uint
  pgdir :: uint
  pid :: int
  parent :: "nat option"
  ofile :: "nat option list"
  pname :: "uchar list"
  threads :: "thread list"
  pstate :: procstate
  t_num :: nat
  cwd :: "nat option"

record proc_state = vm_state +
  procs :: "proc list"
  nextpid :: int
  initproc :: "nat option"
  sym_forkret :: uint
  sym_trapret :: uint

text \<open>Sizes of the structures on a kernel stack and the offsets of the fields the code uses.\<close>

abbreviation (input) sizeof_trapframe :: uint where "sizeof_trapframe \<equiv> 76"
abbreviation (input) sizeof_context :: uint where "sizeof_context \<equiv> 20"
abbreviation (input) tf_eax :: uint where "tf_eax \<equiv> 28"
abbreviation (input) tf_eip :: uint where "tf_eip \<equiv> 56"
abbreviation (input) tf_esp :: uint where "tf_esp \<equiv> 68"
abbreviation (input) ctx_eip :: uint where "ctx_eip \<equiv> 16"

section \<open>Access to the process table\<close>

definition thr :: "nat \<Rightarrow> nat \<Rightarrow> 'a proc_state_scheme \<Rightarrow> thread" where
  "thr p i s = threads (procs s ! p) ! i"

definition upd_proc ::
  "nat \<Rightarrow> (proc \<Rightarrow> proc) \<Rightarrow> 'a proc_state_scheme \<Rightarrow> 'a proc_state_scheme" where
  "upd_proc p f s = s\<lparr>procs := (procs s)[p := f (procs s ! p)]\<rparr>"

definition upd_thread ::
  "nat \<Rightarrow> nat \<Rightarrow> (thread \<Rightarrow> thread) \<Rightarrow> 'a proc_state_scheme \<Rightarrow> 'a proc_state_scheme" where
  "upd_thread p i f =
     upd_proc p (\<lambda>x. x\<lparr>threads := (threads x)[i := f (threads x ! i)]\<rparr>)"

definition pinit :: "('a proc_state_scheme, unit) kop" where
  "pinit = initlock PtableLock ''ptable''"

definition myproc :: "('a machine_scheme, nat option) kop" where
  "myproc =
     thenk pushcli (
     bindk mycpu (\<lambda>c.
     bindk (getk (\<lambda>s. cpu_proc (cpus s c))) (\<lambda>p.
     thenk popcli (
     returnk p))))"

definition mythread :: "('a machine_scheme, (nat \<times> nat) option) kop" where
  "mythread =
     thenk pushcli (
     bindk mycpu (\<lambda>c.
     bindk (getk (\<lambda>s. cpu_thread (cpus s c))) (\<lambda>t.
     thenk popcli (
     returnk t))))"

text \<open>A process or thread pointer that the code dereferences without a null check.\<close>

definition derefk :: "string \<Rightarrow> 'b option \<Rightarrow> ('s, 'b) kop" where
  "derefk what x = (case x of None \<Rightarrow> stopk (Undef what) | Some y \<Rightarrow> returnk y)"

definition curproc :: "('a machine_scheme, nat) kop" where
  "curproc = bindk myproc (derefk ''myproc() is null'')"

definition curthread :: "('a machine_scheme, nat \<times> nat) kop" where
  "curthread = bindk mythread (derefk ''mythread() is null'')"

section \<open>Allocation\<close>

text \<open>
  \<open>allocthread\<close> takes the slot at \<open>t_num\<close> and never checks it against
  \<open>NTHREADS\<close>; beyond the array the stores go to other fields, which the model does
  not follow (\<open>Undef\<close>).
\<close>

definition allocthread :: "nat \<Rightarrow> bool \<Rightarrow> ('a proc_state_scheme, bool) kop" where
  "allocthread p first =
     bindk (getk (\<lambda>s. t_num (procs s ! p))) (\<lambda>i.
     if NTHREADS \<le> i then stopk (Undef ''allocthread: threads[t_num] out of bounds'')
     else
     thenk (modk (upd_proc p (\<lambda>x. x\<lparr>t_num := t_num x + 1\<rparr>))) (
     thenk (modk (upd_thread p i (\<lambda>t. t\<lparr>p_parent := Some p, tid := int i + 1,
       tstate := (if first then EMBRYO else RUNNABLE), tkilled := False\<rparr>))) (
     bindk kalloc (\<lambda>k.
     thenk (modk (upd_thread p i (\<lambda>t. t\<lparr>kstack := k\<rparr>))) (
     if k = 0 then
       thenk (modk (upd_thread p i (\<lambda>t. t\<lparr>tstate := UNUSED_T\<rparr>))) (returnk False)
     else
     (let sp = k + KSTACKSIZE - sizeof_trapframe in
     thenk (modk (upd_thread p i (\<lambda>t. t\<lparr>tf := sp\<rparr>))) (
     let sp = sp - 4 in
     thenk (modk (\<lambda>s. s\<lparr>mem := store32 (mem s) sp (sym_trapret s)\<rparr>)) (
     let sp = sp - sizeof_context in
     thenk (modk (upd_thread p i (\<lambda>t. t\<lparr>tcontext := sp\<rparr>))) (
     thenk (modk (\<lambda>s. s\<lparr>mem := memset (mem s) sp 0 sizeof_context\<rparr>)) (
     thenk (modk (\<lambda>s. s\<lparr>mem := store32 (mem s) (sp + ctx_eip) (sym_forkret s)\<rparr>)) (
     returnk True)))))))))))"

definition find_unused :: "'a proc_state_scheme \<Rightarrow> nat option" where
  "find_unused s = find (\<lambda>p. pstate (procs s ! p) = UNUSED) [0..<NPROC]"

definition allocproc :: "('a proc_state_scheme, nat option) kop" where
  "allocproc =
     thenk (acquire PtableLock) (
     bindk (getk find_unused) (\<lambda>found.
     case found of
       None \<Rightarrow> thenk (release PtableLock) (returnk None)
     | Some p \<Rightarrow>
         thenk (modk (upd_proc p (\<lambda>x. x\<lparr>t_num := 0\<rparr>))) (
         thenk (modk (\<lambda>s. upd_proc p (\<lambda>x. x\<lparr>pid := nextpid s\<rparr>)
                        (s\<lparr>nextpid := nextpid s + 1\<rparr>))) (
         thenk (modk (upd_proc p (\<lambda>x. x\<lparr>pstate := USED\<rparr>))) (
         bindk (allocthread p True) (\<lambda>success.
         thenk (release PtableLock) (
         returnk (if success then Some p else None)))))))) "

section \<open>Switching\<close>

definition switchuvm :: "nat option \<Rightarrow> (nat \<times> nat) option \<Rightarrow> ('a proc_state_scheme, unit) kop" where
  "switchuvm po to =
     (case po of None \<Rightarrow> panick ''switchuvm: no process'' | Some p \<Rightarrow>
     (case to of None \<Rightarrow> panick ''switchuvm: no thread'' | Some (q, i) \<Rightarrow>
     bindk (getk (\<lambda>s. kstack (thr q i s))) (\<lambda>k.
     if k = 0 then panick ''switchuvm: no kstack''
     else bindk (getk (\<lambda>s. pgdir (procs s ! p))) (\<lambda>d.
     if d = 0 then panick ''switchuvm: no pgdir''
     else
     thenk pushcli (
     bindk mycpu (\<lambda>c.
     thenk (modk (upd_cpu c (\<lambda>x. x\<lparr>ts_ss0 := 16, ts_esp0 := k + KSTACKSIZE, ts_iomb := 0xFFFF\<rparr>))) (
     thenk (lcr3 (V2P d)) (
     popcli))))))))"

definition sched :: "('a proc_state_scheme, unit) kop" where
  "sched =
     bindk curthread (\<lambda>(p, i).
     bindk (holding PtableLock) (\<lambda>h.
     if \<not> h then panick ''sched ptable.lock''
     else bindk mycpu (\<lambda>c.
     bindk (getk (\<lambda>s. ncli (cpus s c))) (\<lambda>n.
     if n \<noteq> 1 then panick ''sched locks''
     else bindk (getk (\<lambda>s. tstate (thr p i s))) (\<lambda>st.
     if st = RUNNING then panick ''sched running''
     else bindk (getk readeflags) (\<lambda>fl.
     if fl then panick ''sched interruptible''
     else stopk Swtch))))))"

text \<open>Back from the scheduler: the thread's own \<open>intena\<close> is restored.\<close>

definition sched_resume :: "bool \<Rightarrow> ('a proc_state_scheme, unit) kop" where
  "sched_resume i = bindk mycpu (\<lambda>c. modk (upd_cpu c (\<lambda>x. x\<lparr>intena := i\<rparr>)))"

definition yield :: "('a proc_state_scheme, unit) kop" where
  "yield =
     thenk (acquire PtableLock) (
     bindk curthread (\<lambda>(p, i).
     thenk (modk (upd_thread p i (\<lambda>t. t\<lparr>tstate := RUNNABLE\<rparr>))) (
     sched)))"

definition yield_resume :: "bool \<Rightarrow> ('a proc_state_scheme, unit) kop" where
  "yield_resume i = thenk (sched_resume i) (release PtableLock)"

text \<open>
  The scheduler scans the table in order. From a position on, it either reaches the end
  of the table and releases the lock, or switches to the next runnable thread; when that
  thread switches back, the scan goes on after it.
\<close>

definition scan_from :: "nat \<Rightarrow> nat \<Rightarrow> (nat \<times> nat) list" where
  "scan_from p i =
     map (Pair p) [i..<NTHREADS] @ concat (map (\<lambda>q. map (Pair q) [0..<NTHREADS]) [p + 1..<NPROC])"

text \<open>
  The state of a process is tested once, before its threads are scanned: the threads that
  follow the one that just ran (\<open>running\<close>) are looked at whatever became of the process.
\<close>

definition runnable :: "nat option \<Rightarrow> 'a proc_state_scheme \<Rightarrow> nat \<times> nat \<Rightarrow> bool" where
  "runnable running s = (\<lambda>(p, i). (running = Some p \<or> pstate (procs s ! p) = USED) \<and>
     i < t_num (procs s ! p) \<and> tstate (thr p i s) = RUNNABLE)"

definition scheduler_scan :: "nat option \<Rightarrow> (nat \<times> nat) list \<Rightarrow> ('a proc_state_scheme, unit) kop" where
  "scheduler_scan running ps =
     bindk (getk (\<lambda>s. find (runnable running s) ps)) (\<lambda>found.
     case found of
       None \<Rightarrow> release PtableLock
     | Some (p, i) \<Rightarrow>
         bindk mycpu (\<lambda>c.
         thenk (modk (upd_cpu c (\<lambda>x. x\<lparr>cpu_proc := Some p, cpu_thread := Some (p, i)\<rparr>))) (
         thenk (switchuvm (Some p) (Some (p, i))) (
         thenk (modk (upd_thread p i (\<lambda>t. t\<lparr>tstate := RUNNING\<rparr>))) (
         stopk Swtch)))))"

definition scheduler_resume :: "nat \<Rightarrow> nat \<Rightarrow> ('a proc_state_scheme, unit) kop" where
  "scheduler_resume p i =
     thenk switchkvm (
     bindk mycpu (\<lambda>c.
     thenk (modk (upd_cpu c (\<lambda>x. x\<lparr>cpu_proc := None, cpu_thread := None\<rparr>))) (
     scheduler_scan (Some p) (scan_from p (i + 1)))))"

text \<open>One pass of the endless loop, up to the first switch.\<close>

definition scheduler_pass :: "('a proc_state_scheme, unit) kop" where
  "scheduler_pass =
     thenk (modk (set_if True)) (
     thenk (acquire PtableLock) (
     scheduler_scan None (scan_from 0 0)))"

section \<open>Sleeping and waking\<close>

definition wakeup1_thread :: "chan option \<Rightarrow> thread \<Rightarrow> thread" where
  "wakeup1_thread ch t =
     (if tstate t = SLEEPING \<and> tchan t = ch then t\<lparr>tstate := RUNNABLE\<rparr> else t)"

definition wakeup1_proc :: "chan option \<Rightarrow> proc \<Rightarrow> proc" where
  "wakeup1_proc ch x = x\<lparr>threads :=
     map (wakeup1_thread ch) (take (t_num x) (threads x)) @ drop (t_num x) (threads x)\<rparr>"

definition wakeup1 :: "chan option \<Rightarrow> ('a proc_state_scheme, unit) kop" where
  "wakeup1 ch = modk (\<lambda>s. s\<lparr>procs := map (wakeup1_proc ch) (procs s)\<rparr>)"

definition wakeup :: "chan \<Rightarrow> ('a proc_state_scheme, unit) kop" where
  "wakeup ch =
     thenk (acquire PtableLock) (
     thenk (wakeup1 (Some ch)) (
     release PtableLock))"

definition sleep :: "chan \<Rightarrow> spinlock_id \<Rightarrow> ('a proc_state_scheme, unit) kop" where
  "sleep ch lk =
     bindk myproc (\<lambda>p.
     bindk mythread (\<lambda>t.
     if p = None then panick ''sleep''
     else
     thenk (whenk (lk \<noteq> PtableLock) (
       thenk (acquire PtableLock) (release lk))) (
     bindk (derefk ''mythread() is null'' t) (\<lambda>(q, i).
     thenk (modk (upd_thread q i (\<lambda>t. t\<lparr>tchan := Some ch\<rparr>))) (
     thenk (modk (upd_thread q i (\<lambda>t. t\<lparr>tstate := SLEEPING\<rparr>))) (
     sched))))))"

definition sleep_resume :: "nat \<times> nat \<Rightarrow> bool \<Rightarrow> spinlock_id \<Rightarrow> ('a proc_state_scheme, unit) kop" where
  "sleep_resume t i lk =
     thenk (sched_resume i) (
     thenk (modk (upd_thread (fst t) (snd t) (\<lambda>t. t\<lparr>tchan := None\<rparr>))) (
     whenk (lk \<noteq> PtableLock) (
       thenk (release PtableLock) (acquire lk))))"

section \<open>Killing\<close>

definition kill_thread :: "thread \<Rightarrow> thread" where
  "kill_thread t = t\<lparr>tkilled := True,
     tstate := (if tstate t = SLEEPING then RUNNABLE else tstate t)\<rparr>"

definition kill_threads :: "proc \<Rightarrow> proc" where
  "kill_threads x = x\<lparr>threads :=
     map kill_thread (take (t_num x) (threads x)) @ drop (t_num x) (threads x)\<rparr>"

definition kill :: "int \<Rightarrow> ('a proc_state_scheme, int) kop" where
  "kill n =
     thenk (acquire PtableLock) (
     bindk (getk (\<lambda>s. find (\<lambda>p. pid (procs s ! p) = n) [0..<NPROC])) (\<lambda>found.
     case found of
       Some p \<Rightarrow>
         thenk (modk (upd_proc p (\<lambda>x. x\<lparr>killed := True\<rparr>))) (
         thenk (modk (upd_proc p kill_threads)) (
         thenk (release PtableLock) (
         returnk 0)))
     | None \<Rightarrow> thenk (release PtableLock) (returnk (-1))))"

section \<open>Growing a process\<close>

definition growproc :: "int \<Rightarrow> ('a proc_state_scheme, int) kop" where
  "growproc n =
     bindk curproc (\<lambda>p.
     bindk mythread (\<lambda>t.
     thenk (acquire PtableLock) (
     bindk (getk (\<lambda>s. procs s ! p)) (\<lambda>x.
     bindk (if n > 0 then allocuvm (pgdir x) (psz x) (psz x + of_int n)
            else if n < 0 then deallocuvm (pgdir x) (psz x) (psz x + of_int n)
            else returnk (psz x)) (\<lambda>sz'.
     if n \<noteq> 0 \<and> sz' = 0 then thenk (release PtableLock) (returnk (-1))
     else
     thenk (modk (upd_proc p (\<lambda>x. x\<lparr>psz := sz'\<rparr>))) (
     thenk (switchuvm (Some p) t) (
     thenk (release PtableLock) (
     returnk 0))))))))"

section \<open>Notions used to state what the operations do\<close>

text \<open>
  A sample process table: process 0 is in use with one running thread, the other slots are
  free.
\<close>

definition blank_thread :: thread where
  "blank_thread = \<lparr>kstack = 0, tstate = UNUSED_T, tkilled = False, tf = 0, tchan = None,
     tcontext = 0, p_parent = None, tid = 0\<rparr>"

definition blank_proc :: proc where
  "blank_proc = \<lparr>killed = False, psz = 0, pgdir = 0, pid = 0, parent = None,
     ofile = replicate NOFILE None, pname = replicate 16 0,
     threads = replicate NTHREADS blank_thread, pstate = UNUSED, t_num = 0, cwd = None\<rparr>"

definition running_proc :: proc where
  "running_proc = blank_proc\<lparr>pid := 1, pstate := USED, t_num := 1, pgdir := 0x80410000, cwd := Some 0,
     threads := (replicate NTHREADS blank_thread)[0 := blank_thread\<lparr>kstack := 0x80411000,
       tstate := RUNNING, tid := 1, p_parent := Some 0, tf := 0x80411FB4\<rparr>]\<rparr>"

definition sample_procs :: "proc list" where
  "sample_procs = (replicate NPROC blank_proc)[0 := running_proc]"

definition sample_proc :: "'a \<Rightarrow> 'a proc_state_scheme" where
  "sample_proc m = sample_kmem (vm_state_ext 0x80108000 0x80409000
     (proc_state_ext sample_procs 2 (Some 0) 0x80104000 0x80105000 m))"

definition ptable_ok :: "'a proc_state_scheme \<Rightarrow> bool" where
  "ptable_ok s \<longleftrightarrow> length (procs s) = NPROC \<and>
     (\<forall>p < NPROC. length (threads (procs s ! p)) = NTHREADS \<and> t_num (procs s ! p) \<le> NTHREADS \<and>
        length (ofile (procs s ! p)) = NOFILE)"

definition woken :: "chan \<Rightarrow> 'a proc_state_scheme \<Rightarrow> 'a proc_state_scheme" where
  "woken ch s = s\<lparr>procs := map (wakeup1_proc (Some ch)) (procs s)\<rparr>"

definition sleeping :: "chan \<Rightarrow> thread \<Rightarrow> thread" where
  "sleeping ch t = t\<lparr>tchan := Some ch, tstate := SLEEPING\<rparr>"

definition first_runnable :: "'a proc_state_scheme \<Rightarrow> nat \<Rightarrow> nat \<Rightarrow> bool" where
  "first_runnable s p i \<longleftrightarrow> p < NPROC \<and> i < NTHREADS \<and> runnable None s (p, i) \<and>
     (\<forall>q < NPROC. \<forall>j < NTHREADS. runnable None s (q, j) \<longrightarrow> p < q \<or> p = q \<and> i \<le> j)"

text \<open>The state in which \<open>switchuvm\<close> leaves a processor that holds a lock.\<close>

definition uvm_st :: "nat \<Rightarrow> nat \<times> nat \<Rightarrow> 'a proc_state_scheme \<Rightarrow> 'a proc_state_scheme" where
  "uvm_st p t s = (upd_cpu (cur s) (\<lambda>x. x\<lparr>ts_ss0 := 16, ts_esp0 := kstack (thr (fst t) (snd t) s) + KSTACKSIZE,
     ts_iomb := 0xFFFF\<rparr>) s)\<lparr>cr3 := (cr3 s)(lapicid s := V2P (pgdir (procs s ! p)))\<rparr>"

text \<open>The processor as the scheduler hands it to thread \<open>(p, i)\<close>.\<close>

definition dispatched :: "nat \<Rightarrow> nat \<Rightarrow> 'a proc_state_scheme \<Rightarrow> 'a proc_state_scheme" where
  "dispatched p i s = upd_thread p i (\<lambda>t. t\<lparr>tstate := RUNNING\<rparr>) (uvm_st p (p, i)
     (upd_cpu (cur s) (\<lambda>x. x\<lparr>cpu_proc := Some p, cpu_thread := Some (p, i)\<rparr>) s))"

text \<open>The thread \<open>allocthread\<close> sets up, and the words it stores on the kernel stack.\<close>

definition new_thread :: "nat \<Rightarrow> nat \<Rightarrow> bool \<Rightarrow> uint \<Rightarrow> thread \<Rightarrow> thread" where
  "new_thread p i first k t = t\<lparr>p_parent := Some p, tid := int i + 1,
     tstate := (if first then EMBRYO else RUNNABLE), tkilled := False, kstack := k,
     tf := k + 4020, tcontext := k + 3996\<rparr>"

definition stack_init :: "uint \<Rightarrow> uint \<Rightarrow> uint \<Rightarrow> memory \<Rightarrow> memory" where
  "stack_init trapret forkret k m =
     store32 (memset (store32 m (k + 4016) trapret) (k + 3996) 0 sizeof_context) (k + 4012) forkret"

definition failed_thread :: "nat \<Rightarrow> nat \<Rightarrow> thread \<Rightarrow> thread" where
  "failed_thread p i t = t\<lparr>p_parent := Some p, tid := int i + 1, tkilled := False, kstack := 0,
     tstate := UNUSED_T\<rparr>"

definition new_proc :: "int \<Rightarrow> proc \<Rightarrow> proc" where
  "new_proc n x = x\<lparr>pid := n, pstate := USED, t_num := 1\<rparr>"

section \<open>Frame\<close>

interpretation kern_data: machine_field kern_data by unfold_locales simp_all
interpretation kpgdir: machine_field kpgdir by unfold_locales simp_all
interpretation procs: machine_field procs by unfold_locales simp_all
interpretation nextpid: machine_field nextpid by unfold_locales simp_all
interpretation initproc: machine_field initproc by unfold_locales simp_all
interpretation sym_forkret: machine_field sym_forkret by unfold_locales simp_all
interpretation sym_trapret: machine_field sym_trapret by unfold_locales simp_all
interpretation procs_upd: machine_upd "procs_update f" for f by unfold_locales simp_all
interpretation nextpid_upd: machine_upd "nextpid_update f" for f by unfold_locales simp_all
interpretation initproc_upd: machine_upd "initproc_update f" for f by unfold_locales simp_all
interpretation upd_proc: machine_upd "upd_proc p f" for p f by unfold_locales (simp_all add: upd_proc_def)
interpretation upd_thread: machine_upd "upd_thread p i f" for p i f by unfold_locales (simp_all add: upd_proc_def upd_thread_def)
interpretation woken: machine_upd "woken ch" for ch by unfold_locales (simp_all add: woken_def)

interpretation thr: machine_field "thr p i" for p i by unfold_locales (simp_all add: thr_def)

section \<open>The current process and thread\<close>

lemma myproc_ok [simp]: "cpu_ok s \<Longrightarrow> myproc s = Ok (me s) (settle s)"
  by (simp add: myproc_def kop_defs) (metis cur_simps(3) me_def me_st(2))

lemma mythread_ok [simp]: "cpu_ok s \<Longrightarrow> mythread s = Ok (my_thread s) (settle s)"
  by (simp add: mythread_def kop_defs) (metis cur_simps(3) my_thread_def me_st(5))

lemma curproc_ok [simp]: "cpu_ok s \<Longrightarrow> me s = Some p \<Longrightarrow> curproc s = Ok p (settle s)"
  by (simp add: curproc_def kop_defs derefk_def)

lemma curthread_ok [simp]: "cpu_ok s \<Longrightarrow> my_thread s = Some t \<Longrightarrow> curthread s = Ok t (settle s)"
  by (simp add: curthread_def kop_defs derefk_def)

section \<open>The process table\<close>

lemma ptable_okD:
  assumes "ptable_ok s" and "p < NPROC"
  shows "length (procs s) = NPROC" and "length (threads (procs s ! p)) = NTHREADS"
    and "t_num (procs s ! p) \<le> NTHREADS" and "length (ofile (procs s ! p)) = NOFILE"
  using assms by (auto simp: ptable_ok_def)

lemma procs_upd_proc: "procs (upd_proc p f s) = (procs s)[p := f (procs s ! p)]"
  by (simp add: upd_proc_def)

lemma upd_proc_upd_proc [simp]: "upd_proc p f (upd_proc p g s) = upd_proc p (f \<circ> g) s"
  by (cases "p < length (procs s)") (simp_all add: upd_proc_def not_less list_update_beyond)

lemma nth_upd_proc [simp]:
  "p < length (procs s) \<Longrightarrow> procs (upd_proc p f s) ! p = f (procs s ! p)"
  "q \<noteq> p \<Longrightarrow> procs (upd_proc p f s) ! q = procs s ! q"
  "length (procs (upd_proc p f s)) = length (procs s)"
  by (simp_all add: upd_proc_def)

lemma procs_upd_thread [simp]:
  "q \<noteq> p \<Longrightarrow> procs (upd_thread p i f s) ! q = procs s ! q"
  "length (procs (upd_thread p i f s)) = length (procs s)"
  by (simp_all add: upd_thread_def)

lemma proc_fields_upd_thread [simp]:
  "t_num (procs (upd_thread p i f s) ! q) = t_num (procs s ! q)"
  "pid (procs (upd_thread p i f s) ! q) = pid (procs s ! q)"
  "pstate (procs (upd_thread p i f s) ! q) = pstate (procs s ! q)"
  "killed (procs (upd_thread p i f s) ! q) = killed (procs s ! q)"
  "pgdir (procs (upd_thread p i f s) ! q) = pgdir (procs s ! q)"
  by (cases "q = p"; cases "p < length (procs s)";
      simp add: upd_thread_def upd_proc_def not_less list_update_beyond)+

lemma thr_upd_thread [simp]:
  "p < length (procs s) \<Longrightarrow> i < length (threads (procs s ! p)) \<Longrightarrow>
   thr p i (upd_thread p i f s) = f (thr p i s)"
  by (simp add: thr_def upd_thread_def)

lemma thr_upd_thread_other [simp]:
  "(q, j) \<noteq> (p, i) \<Longrightarrow> thr q j (upd_thread p i f s) = thr q j s"
  by (cases "q = p"; cases "p < length (procs s)")
     (auto simp: thr_def upd_thread_def upd_proc_def not_less list_update_beyond)

lemma upd_thread_upd_thread [simp]:
  "upd_thread p i f (upd_thread p i g s) = upd_thread p i (f \<circ> g) s"
proof -
  have "(threads x)[i := g (threads x ! i), i := f ((threads x)[i := g (threads x ! i)] ! i)] =
      (threads x)[i := f (g (threads x ! i))]" for x :: proc
    by (cases "i < length (threads x)") (simp_all add: not_less list_update_beyond)
  then show ?thesis by (simp add: upd_thread_def comp_def)
qed

lemma ptable_ok_upd_proc:
  assumes "length (threads (f (procs s ! p))) = length (threads (procs s ! p))"
    and "length (ofile (f (procs s ! p))) = length (ofile (procs s ! p))"
    and "t_num (procs s ! p) \<le> NTHREADS \<Longrightarrow> t_num (f (procs s ! p)) \<le> NTHREADS"
    and "ptable_ok s"
  shows "ptable_ok (upd_proc p f s)"
proof -
  have "length (threads (procs (upd_proc p f s) ! q)) = NTHREADS \<and>
      t_num (procs (upd_proc p f s) ! q) \<le> NTHREADS \<and>
      length (ofile (procs (upd_proc p f s) ! q)) = NOFILE" if "q < NPROC" for q
    using that assms by (cases "q = p") (simp_all add: ptable_ok_def)
  then show ?thesis using assms(4) by (simp add: ptable_ok_def)
qed

lemma ptable_ok_thread [simp]: "ptable_ok s \<Longrightarrow> ptable_ok (upd_thread p i f s)"
  unfolding upd_thread_def by (rule ptable_ok_upd_proc) simp_all

lemma thr_upd_ok [simp]:
  assumes "ptable_ok s" and "p < NPROC" and "i < NTHREADS"
  shows "thr p i (upd_thread p i f s) = f (thr p i s)"
  using assms ptable_okD [OF assms(1,2)] by (simp add: thr_upd_thread)

lemma ptable_ok_st [simp]:
  "ptable_ok (settle s) = ptable_ok s" "ptable_ok (lock_st lk s) = ptable_ok s"
  "ptable_ok (unlock_st lk s) = ptable_ok s"
  by (simp_all add: ptable_ok_def)

lemma other_fields_upd [simp]:
  "mem (upd_proc p f s) = mem s" "mem (upd_thread p i g s) = mem s"
  "freelist (upd_proc p f s) = freelist s" "freelist (upd_thread p i g s) = freelist s"
  "kern_end (upd_proc p f s) = kern_end s" "kern_end (upd_thread p i g s) = kern_end s"
  "use_lock (upd_proc p f s) = use_lock s" "use_lock (upd_thread p i g s) = use_lock s"
  "nextpid (upd_proc p f s) = nextpid s" "nextpid (upd_thread p i g s) = nextpid s"
  by (simp_all add: upd_proc_def upd_thread_def)

section \<open>Waking and sleeping\<close>

lemma wakeup_ok [simp]:
  assumes "cpu_ok s" and "free_lock PtableLock s"
  shows "wakeup ch s = Ok () (woken ch (settle s))"
  using assms by (simp add: wakeup_def wakeup1_def kop_defs woken_def)

lemma nth_woken:
  assumes "p < length (procs s)"
  shows "procs (woken ch s) ! p = wakeup1_proc (Some ch) (procs s ! p)"
    and "length (procs (woken ch s)) = length (procs s)"
  using assms by (simp_all add: woken_def)

lemma woken_thread:
  assumes "ptable_ok s" and "p < NPROC" and "i < NTHREADS"
  shows "thr p i (woken ch s) =
    (if i < t_num (procs s ! p) then wakeup1_thread (Some ch) (thr p i s) else thr p i s)"
  using assms ptable_okD [OF assms(1,2)]
  by (simp add: thr_def woken_def wakeup1_proc_def nth_append min_absorb2)

lemma ptable_ok_woken [simp]: "ptable_ok (woken ch s) = ptable_ok s"
proof -
  have "length (threads (wakeup1_proc c x)) = length (threads x)" for c x
    by (simp add: wakeup1_proc_def)
  moreover have "t_num (wakeup1_proc c x) = t_num x" "ofile (wakeup1_proc c x) = ofile x" for c x
    by (simp_all add: wakeup1_proc_def)
  ultimately show ?thesis by (auto simp: ptable_ok_def woken_def)
qed

lemma sched_ok:
  assumes "cpu_ok s" and "my_thread s = Some (q, i)" and "holds PtableLock s" and "depth s = 1"
    and "tstate (thr q i s) \<noteq> RUNNING"
  shows "sched s = Stop Swtch s"
proof -
  have "\<not> readeflags s" using assms(1,4) by (simp add: cpu_ok_def)
  moreover have "ncli (cpus s (cur s)) = 1" using assms(4) by (simp add: depth_def)
  ultimately show ?thesis using assms by (simp add: sched_def kop_defs)
qed

lemma sched_panics:
  assumes "cpu_ok s" and "my_thread s = Some (q, i)" and "\<not> holds PtableLock s"
  shows "sched s = Stop (Panic ''sched ptable.lock'') (settle s)"
  using assms by (simp add: sched_def kop_defs)

lemma sleep_ok:
  assumes "cpu_ok s" and "me s \<noteq> None" and "my_thread s = Some (q, i)" and "holds lk s"
    and "lk \<noteq> PtableLock" and "free_lock PtableLock s" and "depth s = 1" and "ptable_ok s"
    and "q < NPROC" and "i < NTHREADS"
  shows "sleep ch lk s =
    Stop Swtch (upd_thread q i (sleeping ch) (unlock_st lk (lock_st PtableLock s)))"
proof -
  let ?u = "upd_thread q i (sleeping ch) (unlock_st lk (lock_st PtableLock s))"
  have "sched ?u = Stop Swtch ?u"
    using assms ptable_okD [OF assms(8,9)]
    by (intro sched_ok [of _ q i]) (simp_all add: sleeping_def)
  moreover have "(\<lambda>t. t\<lparr>tstate := SLEEPING\<rparr>) \<circ> (\<lambda>t. t\<lparr>tchan := Some ch\<rparr>) = sleeping ch"
    by (simp add: fun_eq_iff sleeping_def)
  ultimately show ?thesis
    using assms by (auto simp: sleep_def kop_defs derefk_def)
qed

lemma sleep_ptable:
  assumes "cpu_ok s" and "me s \<noteq> None" and "my_thread s = Some (q, i)" and "holds PtableLock s"
    and "depth s = 1" and "ptable_ok s" and "q < NPROC" and "i < NTHREADS"
  shows "sleep ch PtableLock s = Stop Swtch (upd_thread q i (sleeping ch) s)"
proof -
  let ?u = "upd_thread q i (sleeping ch) s"
  have "sched ?u = Stop Swtch ?u"
    using assms ptable_okD [OF assms(6,7)]
    by (intro sched_ok [of _ q i]) (simp_all add: sleeping_def)
  moreover have "(\<lambda>t. t\<lparr>tstate := SLEEPING\<rparr>) \<circ> (\<lambda>t. t\<lparr>tchan := Some ch\<rparr>) = sleeping ch"
    by (simp add: fun_eq_iff sleeping_def)
  ultimately show ?thesis
    using assms by (auto simp: sleep_def kop_defs derefk_def)
qed

section \<open>Killing\<close>

lemma kill_ok:
  assumes "cpu_ok s" and "free_lock PtableLock s"
  shows "kill n s = (case find (\<lambda>p. pid (procs s ! p) = n) [0..<NPROC] of
      Some p \<Rightarrow> Ok 0 (upd_proc p (kill_threads \<circ> (\<lambda>x. x\<lparr>killed := True\<rparr>)) (settle s))
    | None \<Rightarrow> Ok (-1) (settle s))"
  using assms by (simp add: kill_def kop_defs split: option.splits del: upt_rec_numeral)

lemma kill_threads_simps [simp]:
  "killed (kill_threads x) = killed x" "t_num (kill_threads x) = t_num x" "pid (kill_threads x) = pid x"
  by (simp_all add: kill_threads_def)

lemma nth_kill_threads:
  assumes "i < t_num x" and "t_num x \<le> length (threads x)"
  shows "threads (kill_threads x) ! i = kill_thread (threads x ! i)"
  using assms by (simp add: kill_threads_def nth_append)

section \<open>The scheduler\<close>

lemma scan_all: "scan_from 0 0 = List.product [0..<NPROC] [0..<NTHREADS]"
proof -
  have "[0..<NPROC] = 0 # [Suc 0..<NPROC]" by (rule upt_conv_Cons) simp
  then show ?thesis by (simp add: scan_from_def product_concat_map del: upt_rec_numeral)
qed

lemma product_upt_nth:
  assumes "k < m * n"
  shows "List.product [0..<m] [0..<n] ! k = (k div n, k mod n)"
proof -
  have "k div n < m" using assms by (simp add: less_mult_imp_div_less)
  moreover have "k mod n < n" using assms by (cases n) auto
  ultimately show ?thesis using assms by (simp add: product_nth)
qed

lemma find_product_first:
  assumes "p < m" and "i < n" and "P (p, i)"
    and "\<And>q j. q < m \<Longrightarrow> j < n \<Longrightarrow> P (q, j) \<Longrightarrow> p < q \<or> p = q \<and> i \<le> j"
  shows "find P (List.product [0..<m] [0..<n]) = Some (p, i)"
proof -
  have "p * n + i < m * n"
  proof -
    have "p * n + i < Suc p * n" using assms(2) by simp
    also have "\<dots> \<le> m * n" using assms(1) by (intro mult_right_mono) simp_all
    finally show ?thesis .
  qed
  moreover have "\<not> P (k div n, k mod n)" if "k < p * n + i" for k
  proof
    assume P: "P (k div n, k mod n)"
    have "k < m * n" using that calculation by simp
    then have "k div n < m" and "k mod n < n"
      using assms(2) by (simp_all add: less_mult_imp_div_less)
    from assms(4) [OF this P] have "p * n + i \<le> k div n * n + k mod n"
    proof
      assume "p < k div n"
      then have "Suc p * n \<le> k div n * n" by (intro mult_right_mono) simp_all
      then have "p * n + i \<le> k div n * n" using assms(2) unfolding mult_Suc by linarith
      then show ?thesis by (rule trans_le_add1)
    next
      assume "p = k div n \<and> i \<le> k mod n"
      then show ?thesis by (intro add_le_mono) simp_all
    qed
    then show False using that by simp
  qed
  ultimately show ?thesis
    using assms(2,3) by (simp add: find_Some_iff product_upt_nth exI [of _ "p * n + i"])
qed

lemma find_first_runnable:
  "first_runnable s p i \<Longrightarrow> find (runnable None s) (scan_from 0 0) = Some (p, i)"
  unfolding scan_all first_runnable_def by (intro find_product_first) blast+

lemma find_no_runnable:
  assumes "\<And>q j. q < NPROC \<Longrightarrow> j < NTHREADS \<Longrightarrow> \<not> runnable None s (q, j)"
  shows "find (runnable None s) (scan_from 0 0) = None"
  unfolding scan_all find_None_iff using assms by (auto simp del: upt_rec_numeral)

lemma cpu_ok_upd_cpu [simp]:
  assumes "\<And>x. apicid (f x) = apicid x" and "\<And>x. ncli (f x) = ncli x"
  shows "cpu_ok (upd_cpu c f s) = cpu_ok s" and "cur (upd_cpu c f s) = cur s"
    and "depth (upd_cpu c f s) = depth s"
proof -
  show c: "cur (upd_cpu c f s) = cur s" using assms by (simp add: cur_def)
  then show d: "depth (upd_cpu c f s) = depth s" using assms by (simp add: depth_def)
  show "cpu_ok (upd_cpu c f s) = cpu_ok s" using assms d by (simp add: cpu_ok_def)
qed

lemma fields_upd_cpu [simp]:
  "locks (upd_cpu c f s) = locks s" "lapicid (upd_cpu c f s) = lapicid s" "cr3 (upd_cpu c f s) = cr3 s"
  by (simp_all add: upd_cpu_def)

lemma cpu_ok_set_if: "cpu_ok s \<Longrightarrow> depth s = 0 \<Longrightarrow> cpu_ok (set_if True s)"
  by (simp add: cpu_ok_def)

lemma set_if_frame [simp]:
  "locks (set_if b s) = locks s" "free_lock lk (set_if b s) = free_lock lk s"
  by (simp_all add: set_if_def free_lock_def)

lemma sti_cli_deep: "cpu_ok s \<Longrightarrow> 0 < depth s \<Longrightarrow> sti_st (cli_st s) = s"
  by (simp add: sti_cli)

interpretation cr3: machine_field cr3 by unfold_locales simp_all

interpretation lapicid: machine_field lapicid by unfold_locales simp_all

interpretation cr3_upd: machine_upd "cr3_update f" for f by unfold_locales simp_all

lemma switchuvm_ok:
  assumes "cpu_ok s" and "0 < depth s" and "kstack (thr q i s) \<noteq> 0" and "pgdir (procs s ! p) \<noteq> 0"
  shows "switchuvm (Some p) (Some (q, i)) s = Ok () (uvm_st p (q, i) s)"
proof -
  let ?f = "\<lambda>x. x\<lparr>ts_ss0 := 16, ts_esp0 := kstack (thr q i s) + KSTACKSIZE, ts_iomb := 0xFFFF\<rparr>"
  let ?u = "(upd_cpu (cur s) ?f s)\<lparr>cr3 := (cr3 s)(lapicid s := V2P (pgdir (procs s ! p)))\<rparr>"
  have cu: "cur ?u = cur s" by simp
  have eq: "(upd_cpu (cur s) ?f (cli_st s))\<lparr>cr3 := (cr3 s)(lapicid s := V2P (pgdir (procs s ! p)))\<rparr> =
      cli_st ?u"
    unfolding cli_st_def cu by (cases "cpus s (cur s)") (simp add: machine_defs fun_eq_iff)
  have "popcli ((upd_cpu (cur s) ?f (cli_st s))\<lparr>cr3 := (cr3 s)(lapicid s := V2P (pgdir (procs s ! p)))\<rparr>) = Ok () (settle ?u)"
    unfolding eq by (rule popcli_cli) (simp add: assms)
  moreover have "settle ?u = ?u" by (rule settle_deep) (simp add: assms)
  ultimately show ?thesis
    using assms by (simp add: switchuvm_def kop_defs lcr3_def uvm_st_def)
qed

lemma uvm_st_simps [simp]:
  "cpu_ok (uvm_st p t s) = cpu_ok s" "depth (uvm_st p t s) = depth s" "cur (uvm_st p t s) = cur s"
  "locks (uvm_st p t s) = locks s" "procs (uvm_st p t s) = procs s" "lapicid (uvm_st p t s) = lapicid s"
  "cr3 (uvm_st p t s) (lapicid s) = V2P (pgdir (procs s ! p))"
  by (simp_all add: uvm_st_def) (simp add: upd_cpu_def)

lemma me_uvm [simp]: "me (uvm_st p t s) = me s" "my_thread (uvm_st p t s) = my_thread s"
  unfolding me_def my_thread_def uvm_st_simps by (simp_all add: uvm_st_def)

lemma esp0_uvm [simp]: "ts_esp0 (cpus (uvm_st p t s) (cur s)) = kstack (thr (fst t) (snd t) s) + KSTACKSIZE"
  by (simp add: uvm_st_def)

lemma me_upd_cpu [simp]:
  assumes "\<And>x. apicid (f x) = apicid x"
  shows "me (upd_cpu (cur s) f s) = cpu_proc (f (cpus s (cur s)))"
    and "my_thread (upd_cpu (cur s) f s) = cpu_thread (f (cpus s (cur s)))"
proof -
  have "cur (upd_cpu (cur s) f s) = cur s" using assms by (simp add: cur_def)
  then show "me (upd_cpu (cur s) f s) = cpu_proc (f (cpus s (cur s)))"
    and "my_thread (upd_cpu (cur s) f s) = cpu_thread (f (cpus s (cur s)))"
    by (simp_all add: me_def my_thread_def)
qed

lemma procs_upd_cpu [simp]: "procs (upd_cpu c f s) = procs s" "thr p i (upd_cpu c f s) = thr p i s"
  by (simp_all add: upd_cpu_def thr_def)

lemma scheduler_scan_dispatch:
  assumes "cpu_ok s" and "0 < depth s" and "find (runnable r s) ps = Some (p, i)"
    and "kstack (thr p i s) \<noteq> 0" and "pgdir (procs s ! p) \<noteq> 0"
  shows "scheduler_scan r ps s = Stop Swtch (dispatched p i s)"
proof -
  let ?s = "upd_cpu (cur s) (\<lambda>x. x\<lparr>cpu_proc := Some p, cpu_thread := Some (p, i)\<rparr>) s"
  have "switchuvm (Some p) (Some (p, i)) ?s = Ok () (uvm_st p (p, i) ?s)"
    by (rule switchuvm_ok) (simp_all add: assms)
  then show ?thesis
    using assms by (simp add: scheduler_scan_def kop_defs dispatched_def)
qed

lemma cr3_upd_thread [simp]:
  "lapicid (upd_thread p i f s) = lapicid s" "cr3 (upd_thread p i f s) = cr3 s"
  by (simp_all add: upd_thread_def upd_proc_def)

lemma dispatched_simps:
  assumes "ptable_ok s" and "p < NPROC" and "i < NTHREADS"
  shows "me (dispatched p i s) = Some p" and "my_thread (dispatched p i s) = Some (p, i)"
    and "thr p i (dispatched p i s) = (thr p i s)\<lparr>tstate := RUNNING\<rparr>"
    and "locks (dispatched p i s) = locks s" and "cur (dispatched p i s) = cur s"
    and "cr3 (dispatched p i s) (lapicid s) = V2P (pgdir (procs s ! p))"
    and "lapicid (dispatched p i s) = lapicid s"
    and "ts_esp0 (cpus (dispatched p i s) (cur s)) = kstack (thr p i s) + KSTACKSIZE"
proof -
  let ?c = "upd_cpu (cur s) (\<lambda>x. x\<lparr>cpu_proc := Some p, cpu_thread := Some (p, i)\<rparr>) s"
  have c: "cur ?c = cur s" by simp
  have ok: "ptable_ok (uvm_st p (p, i) ?c)" using assms(1) by (simp add: ptable_ok_def)
  show "ts_esp0 (cpus (dispatched p i s) (cur s)) = kstack (thr p i s) + KSTACKSIZE"
    using esp0_uvm [of p "(p, i)" ?c] unfolding c dispatched_def by simp
  have t: "thr p i (uvm_st p (p, i) ?c) = thr p i s" by (simp add: thr_def)
  show "thr p i (dispatched p i s) = (thr p i s)\<lparr>tstate := RUNNING\<rparr>"
    unfolding dispatched_def thr_upd_ok [OF ok assms(2,3)] t ..
  show "cr3 (dispatched p i s) (lapicid s) = V2P (pgdir (procs s ! p))"
    using uvm_st_simps(7) [of p "(p, i)" ?c] by (simp add: dispatched_def)
qed (simp_all add: dispatched_def)

lemma runnable_st [simp]:
  "runnable r (settle s) = runnable r s" "runnable r (lock_st lk s) = runnable r s"
  "runnable r (set_if b s) = runnable r s"
  by (simp_all add: runnable_def fun_eq_iff thr_def set_if_def)

lemma scheduler_pass_dispatch:
  assumes "cpu_ok s" and "depth s = 0" and "free_lock PtableLock s" and "first_runnable s p i"
    and "kstack (thr p i s) \<noteq> 0" and "pgdir (procs s ! p) \<noteq> 0"
  shows "scheduler_pass s = Stop Swtch (dispatched p i (lock_st PtableLock (set_if True s)))"
proof -
  have ok: "cpu_ok (set_if True s)" using assms(1,2) by (rule cpu_ok_set_if)
  moreover have "procs (set_if True s) = procs s" "thr p i (set_if True s) = thr p i s"
    by (simp_all add: set_if_def thr_def)
  ultimately have "scheduler_scan None (scan_from 0 0) (lock_st PtableLock (set_if True s)) =
      Stop Swtch (dispatched p i (lock_st PtableLock (set_if True s)))"
    using assms find_first_runnable [OF assms(4)]
    by (intro scheduler_scan_dispatch) simp_all
  then show ?thesis using ok assms by (simp add: scheduler_pass_def kop_defs)
qed

lemma scheduler_pass_idle:
  assumes "cpu_ok s" and "depth s = 0" and "free_lock PtableLock s"
    and "\<And>q j. q < NPROC \<Longrightarrow> j < NTHREADS \<Longrightarrow> \<not> runnable None s (q, j)"
  shows "scheduler_pass s = Ok () (settle (set_if True s))"
  using cpu_ok_set_if [OF assms(1,2)] assms(1,3) find_no_runnable [OF assms(4)]
  by (simp add: scheduler_pass_def scheduler_scan_def kop_defs)

section \<open>Allocating threads and processes\<close>

lemma kmem_ready_frame [simp]:
  "kmem_ready (upd_proc p f s) = kmem_ready s" "kmem_ready (upd_thread p i g s) = kmem_ready s"
  "kmem_ready (s\<lparr>nextpid := n\<rparr>) = kmem_ready s"
  "lk \<noteq> KmemLock \<Longrightarrow> cpu_ok s \<Longrightarrow> kmem_ready (lock_st lk s) = kmem_ready s"
  by (simp_all add: kmem_ready_def)

lemma tidy_frame_proc [simp]:
  "tidy (upd_proc p f s) = upd_proc p f (tidy s)" "tidy (upd_thread p i g s) = upd_thread p i g (tidy s)"
  "tidy (s\<lparr>nextpid := n\<rparr>) = (tidy s)\<lparr>nextpid := n\<rparr>"
  "cpu_ok s \<Longrightarrow> tidy (lock_st lk s) = lock_st lk s"
  by (simp_all add: tidy_def upd_proc_def upd_thread_def)

lemma free_pages_proc [simp]:
  "free_pages (upd_proc p f s) = free_pages s" "free_pages (upd_thread p i g s) = free_pages s"
  "free_pages (lock_st lk s) = free_pages s" "free_pages (s\<lparr>nextpid := n\<rparr>) = free_pages s"
  "free_pages (settle s) = free_pages s"
  by (simp_all add: free_pages_def fun_eq_iff)

lemma sym_frame [simp]:
  "sym_trapret (upd_proc p f s) = sym_trapret s" "sym_trapret (upd_thread p i g s) = sym_trapret s"
  "sym_forkret (upd_proc p f s) = sym_forkret s" "sym_forkret (upd_thread p i g s) = sym_forkret s"
  "sym_trapret (tidy s) = sym_trapret s" "sym_forkret (tidy s) = sym_forkret s"
  "nextpid (tidy s) = nextpid s" "procs (tidy s) = procs s"
  by (simp_all add: upd_proc_def upd_thread_def tidy_def)

lemma thr_upd_field [simp]:
  "thr p i (s\<lparr>nextpid := n\<rparr>) = thr p i s" "thr p i (s\<lparr>mem := m\<rparr>) = thr p i s"
  "thr p i (s\<lparr>freelist := l\<rparr>) = thr p i s"
  by (simp_all add: thr_def)

lemma allocthread_full:
  "NTHREADS \<le> t_num (procs s ! p) \<Longrightarrow>
   allocthread p first s = Stop (Undef ''allocthread: threads[t_num] out of bounds'') s"
  by (simp add: allocthread_def kop_defs)

lemma mem_upd_swap [simp]:
  "upd_proc p f (s\<lparr>mem := m\<rparr>) = (upd_proc p f s)\<lparr>mem := m\<rparr>"
  "upd_thread p i g (s\<lparr>mem := m\<rparr>) = (upd_thread p i g s)\<lparr>mem := m\<rparr>"
  "upd_proc p f (s\<lparr>freelist := l\<rparr>) = (upd_proc p f s)\<lparr>freelist := l\<rparr>"
  "upd_thread p i g (s\<lparr>freelist := l\<rparr>) = (upd_thread p i g s)\<lparr>freelist := l\<rparr>"
  "upd_proc p f (s\<lparr>nextpid := n\<rparr>) = (upd_proc p f s)\<lparr>nextpid := n\<rparr>"
  "upd_thread p i g (s\<lparr>nextpid := n\<rparr>) = (upd_thread p i g s)\<lparr>nextpid := n\<rparr>"
  by (simp_all add: upd_proc_def upd_thread_def)

lemma allocthread_ok:
  assumes "kmem_ready s" and "free_pages s (k # ks)" and "t_num (procs s ! p) = i" and "i < NTHREADS"
  shows "allocthread p first s = Ok True ((upd_thread p i (new_thread p i first k)
    (upd_proc p (\<lambda>x. x\<lparr>t_num := t_num x + 1\<rparr>) (tidy s)))\<lparr>
      freelist := load32 (mem s) k,
      mem := stack_init (sym_trapret s) (sym_forkret s) k (mem s)\<rparr>)"
proof -
  have "freelist s = k" "k \<noteq> 0" using assms(2) by (simp_all add: free_pages_def)
  then show ?thesis
    using assms
    by (simp add: allocthread_def kop_defs kalloc_eq Let_def new_thread_def [abs_def] comp_def
        stack_init_def add.commute)
qed

lemma allocthread_fails:
  assumes "kmem_ready s" and "free_pages s []" and "t_num (procs s ! p) = i" and "i < NTHREADS"
  shows "allocthread p first s = Ok False (upd_thread p i (failed_thread p i)
    (upd_proc p (\<lambda>x. x\<lparr>t_num := t_num x + 1\<rparr>) (tidy s)))"
proof -
  have fl: "freelist s = 0" using assms(2) by (simp add: free_pages_def)
  then have "freelist (tidy s) = 0" by simp
  then have "(upd_thread p i g (upd_proc p h (tidy s)))\<lparr>freelist := 0\<rparr> =
      upd_thread p i g (upd_proc p h (tidy s))" for g h
    by (simp add: upd_thread_def upd_proc_def)
  moreover have "tstate_update (\<lambda>_. UNUSED_T) \<circ> (kstack_update (\<lambda>_. 0) \<circ>
      (\<lambda>t. t\<lparr>p_parent := Some p, tid := int i + 1, tstate := st, tkilled := False\<rparr>)) =
      failed_thread p i" for st
    by (simp add: fun_eq_iff failed_thread_def)
  ultimately show ?thesis
    using assms fl by (auto simp: allocthread_def kop_defs kalloc_eq)
qed

lemma stack_init_words:
  "load32 (stack_init tr fr k m) (k + 4012) = fr" "load32 (stack_init tr fr k m) (k + 4016) = tr"
  by (simp_all add: stack_init_def) (simp add: load32_def store32_def memset_apply)

lemma find_unused_st [simp]: "find_unused (lock_st lk s) = find_unused s" "find_unused (settle s) = find_unused s"
  by (simp_all add: find_unused_def)

lemma allocproc_ok:
  assumes "kmem_ready s" and "free_lock PtableLock s" and "free_pages s (k # ks)"
    and "find_unused s = Some p" and "ptable_ok s"
  shows "allocproc s = Ok (Some p) ((upd_thread p 0 (new_thread p 0 True k)
    (upd_proc p (new_proc (nextpid s)) (settle s)))\<lparr>nextpid := nextpid s + 1,
      freelist := load32 (mem s) k,
      mem := stack_init (sym_trapret s) (sym_forkret s) k (mem s)\<rparr>)"
proof -
  have "p < NPROC"
    using assms(4) by (auto simp: find_unused_def find_Some_iff simp del: upt_rec_numeral)
  then have "p < length (procs s)" using assms(5) by (simp add: ptable_ok_def)
  moreover have "cpu_ok s" using assms(1) by (simp add: kmem_ready_def)
  ultimately show ?thesis
    using assms by (simp add: allocproc_def kop_defs allocthread_ok [of _ k ks p 0]
        new_proc_def [abs_def] comp_def)
qed

lemma allocproc_full:
  assumes "cpu_ok s" and "free_lock PtableLock s" and "find_unused s = None"
  shows "allocproc s = Ok None (settle s)"
  using assms by (simp add: allocproc_def kop_defs)

lemma allocproc_fails:
  assumes "kmem_ready s" and "free_lock PtableLock s" and "free_pages s []"
    and "find_unused s = Some p" and "ptable_ok s"
  shows "allocproc s = Ok None ((upd_thread p 0 (failed_thread p 0)
    (upd_proc p (new_proc (nextpid s)) (settle s)))\<lparr>nextpid := nextpid s + 1\<rparr>)"
proof -
  have "p < NPROC"
    using assms(4) by (auto simp: find_unused_def find_Some_iff simp del: upt_rec_numeral)
  then have "p < length (procs s)" using assms(5) by (simp add: ptable_ok_def)
  moreover have "cpu_ok s" using assms(1) by (simp add: kmem_ready_def)
  ultimately show ?thesis
    using assms by (simp add: allocproc_def kop_defs allocthread_fails [of _ p 0]
        new_proc_def [abs_def] comp_def)
qed

section \<open>The sample state\<close>

lemma sample_proc_fields [simp]:
  "procs (sample_proc m) = sample_procs" "nextpid (sample_proc m) = 2"
  "cpu_ok (sample_proc m)" "depth (sample_proc m) = 0" "free_lock lk (sample_proc m)"
  "me (sample_proc m) = Some 0" "my_thread (sample_proc m) = Some (0, 0)"
  "settle (sample_proc m) = sample_proc m" "calm (sample_proc m)" "kmem_ready (sample_proc m)"
  by (simp_all add: sample_proc_def sample_kmem_def kmem_ready_def) (simp_all add: sample_machine_def)

lemma sample_procs_nth: "p < NPROC \<Longrightarrow> sample_procs ! p = (if p = 0 then running_proc else blank_proc)"
  by (simp add: sample_procs_def nth_list_update)

lemma sample_ptable [simp]: "ptable_ok (sample_proc m)"
  by (simp add: ptable_ok_def sample_procs_nth running_proc_def blank_proc_def)
     (simp add: sample_procs_def)

lemma sample_thr: "thr 0 0 (sample_proc m) = blank_thread\<lparr>kstack := 0x80411000,
    tstate := RUNNING, tid := 1, p_parent := Some 0, tf := 0x80411FB4\<rparr>"
  by (simp add: thr_def sample_procs_nth running_proc_def)

lemma sample_unused: "find_unused (sample_proc m) = Some 1"
  by (auto simp: find_unused_def find_Some_iff sample_procs_nth running_proc_def blank_proc_def
      exI [of _ 1] simp del: upt_rec_numeral)

lemma sample_proc_pages [simp]: "free_pages (sample_proc m) [0x80402000, 0x80403000]"
  by (simp add: sample_proc_def sample_pages [unfolded kmem_pages_def])

lemma sample_proc_end [simp]: "kern_end (sample_proc m) = 0x80400000"
  by (simp add: sample_proc_def sample_kmem_def sample_machine_def)

lemma cpu_ok_unlock_any: "cpu_ok s \<Longrightarrow> 0 < depth s \<Longrightarrow> cpu_ok (unlock_st lk s)"
  by (auto simp: cpu_ok_def) (auto simp: unlock_st_def sti_st_def)

section \<open>Properties\<close>





text \<open>
  C7: the scheduler dispatches the first runnable thread in table order. It switches with the
  process table locked, the processor set up for that thread (current process and thread, kernel
  stack, page directory) and the thread marked running; when nothing is runnable the pass ends
  with the table unlocked.
\<close>

theorem scheduler_dispatches_first:
  assumes "cpu_ok s" and "depth s = 0" and "free_lock PtableLock s" and "ptable_ok s"
    and "first_runnable s p i" and "kstack (thr p i s) \<noteq> 0" and "pgdir (procs s ! p) \<noteq> 0"
  shows "\<exists>t. scheduler_pass s = Stop Swtch t \<and> me t = Some p \<and> my_thread t = Some (p, i) \<and>
    tstate (thr p i t) = RUNNING \<and> holds PtableLock t \<and>
    cr3 t (lapicid t) = V2P (pgdir (procs s ! p)) \<and>
    ts_esp0 (cpus t (cur t)) = kstack (thr p i s) + KSTACKSIZE"
proof -
  let ?s = "lock_st PtableLock (set_if True s)"
  have pi: "p < NPROC" "i < NTHREADS" using assms(5) by (simp_all add: first_runnable_def)
  have eq: "procs (set_if True s) = procs s" "thr p i (set_if True s) = thr p i s"
    by (simp_all add: set_if_def thr_def)
  then have "ptable_ok ?s" using assms(4) by (simp add: ptable_ok_def)
  note d = dispatched_simps [OF this pi]
  have "holds PtableLock ?s" using assms cpu_ok_set_if by simp
  then have "holds PtableLock (dispatched p i ?s)" by (simp add: holds_def d)
  then show ?thesis
    using scheduler_pass_dispatch [OF assms(1-3,5-7)] d by (simp add: eq)
qed

theorem scheduler_dispatches_first_witness:
  "\<exists>t. scheduler_pass (upd_thread 0 0 (\<lambda>t. t\<lparr>tstate := RUNNABLE\<rparr>) (sample_proc ())) = Stop Swtch t \<and>
     my_thread t = Some (0, 0)"
proof -
  let ?s = "upd_thread 0 0 (\<lambda>t. t\<lparr>tstate := RUNNABLE\<rparr>) (sample_proc ())"
  have x: "procs ?s ! 0 = running_proc\<lparr>threads := (threads running_proc)[0 :=
      (threads running_proc ! 0)\<lparr>tstate := RUNNABLE\<rparr>]\<rparr>"
    by (simp add: upd_thread_def sample_procs_nth) (simp add: sample_procs_def)
  have "first_runnable ?s 0 0"
    by (auto simp: first_runnable_def runnable_def sample_procs_nth sample_thr running_proc_def)
  then show ?thesis
    using scheduler_dispatches_first [of ?s 0 0]
    by (auto simp: sample_thr x running_proc_def)
qed



text \<open>
  C14: allocating a process. With a free slot and a free page, \<open>allocproc\<close> takes the first
  free slot, gives it the next process id and one embryo thread, whose kernel stack is the page
  and whose saved context returns to \<open>forkret\<close> and from there to \<open>trapret\<close>; every
  other slot is unchanged.
\<close>

theorem allocproc_initialises:
  assumes "kmem_ready s" and "free_lock PtableLock s" and "free_pages s (k # ks)"
    and "find_unused s = Some p" and "ptable_ok s"
  shows "\<exists>t. allocproc s = Ok (Some p) t \<and> ptable_ok t \<and> nextpid t = nextpid s + 1 \<and>
    pid (procs t ! p) = nextpid s \<and> pstate (procs t ! p) = USED \<and> t_num (procs t ! p) = 1 \<and>
    tstate (thr p 0 t) = EMBRYO \<and> kstack (thr p 0 t) = k \<and>
    load32 (mem t) (tcontext (thr p 0 t) + 16) = sym_forkret s \<and>
    load32 (mem t) (tcontext (thr p 0 t) + 20) = sym_trapret s \<and>
    (\<forall>q < NPROC. q \<noteq> p \<longrightarrow> procs t ! q = procs s ! q)"
proof -
  have p: "p < NPROC"
    using assms(4) by (auto simp: find_unused_def find_Some_iff simp del: upt_rec_numeral)
  let ?u = "upd_proc p (new_proc (nextpid s)) (settle s)"
  have u: "ptable_ok ?u"
    using assms(5) by (intro ptable_ok_upd_proc) (simp_all add: new_proc_def)
  have pl: "p < length (procs s)" using assms(5) p by (simp add: ptable_ok_def)
  have th: "thr p 0 (upd_thread p 0 (new_thread p 0 True k) ?u) =
      new_thread p 0 True k (thr p 0 ?u)"
    using u p by simp
  have "ptable_ok (upd_thread p 0 (new_thread p 0 True k) ?u)" using u by simp
  then show ?thesis
    unfolding allocproc_ok [OF assms]
    using pl th by (auto simp: ptable_ok_def new_proc_def new_thread_def
        stack_init_words [unfolded add.commute [of _ 4012] add.commute [of _ 4016]])
qed

theorem allocproc_initialises_witness:
  "\<exists>t. allocproc (sample_proc ()) = Ok (Some 1) t \<and> pid (procs t ! 1) = 2 \<and>
     kstack (thr 1 0 t) = 0x80402000"
  using allocproc_initialises [of "sample_proc ()" "0x80402000" "[0x80403000]" 1]
  by (auto simp: sample_unused)

text \<open>
  C31: when the page allocator is empty \<open>allocproc\<close> returns null, but the slot it chose stays
  \<open>USED\<close> with a thread counted in it and its process id consumed: the slot is not free any
  more, and no process was created.
\<close>

theorem allocproc_failure_keeps_slot:
  assumes "kmem_ready s" and "free_lock PtableLock s" and "free_pages s []"
    and "find_unused s = Some p" and "ptable_ok s"
  shows "\<exists>t. allocproc s = Ok None t \<and> pstate (procs t ! p) = USED \<and> t_num (procs t ! p) = 1 \<and>
    tstate (thr p 0 t) = UNUSED_T \<and> nextpid t = nextpid s + 1 \<and> find_unused t \<noteq> Some p"
proof -
  have p: "p < NPROC"
    using assms(4) by (auto simp: find_unused_def find_Some_iff simp del: upt_rec_numeral)
  let ?u = "upd_proc p (new_proc (nextpid s)) (settle s)"
  have u: "ptable_ok ?u"
    using assms(5) by (intro ptable_ok_upd_proc) (simp_all add: new_proc_def)
  have pl: "p < length (procs s)" using assms(5) p by (simp add: ptable_ok_def)
  have th: "thr p 0 (upd_thread p 0 (failed_thread p 0) ?u) = failed_thread p 0 (thr p 0 ?u)"
    using u p by simp
  then show ?thesis
    unfolding allocproc_fails [OF assms]
    using pl by (auto simp: new_proc_def failed_thread_def find_unused_def find_Some_iff
        simp del: upt_rec_numeral)
qed

theorem allocproc_failure_keeps_slot_witness:
  "\<exists>t. allocproc ((sample_proc ())\<lparr>freelist := 0\<rparr>) = Ok None t \<and> pstate (procs t ! 1) = USED"
  using allocproc_failure_keeps_slot [of "(sample_proc ())\<lparr>freelist := 0\<rparr>" 1]
    sample_unused [of "()"] sample_ptable [of "()"]
  by (auto simp: find_unused_def free_pages_def ptable_ok_def)

end
