(* ===== verification/Ring.thy ===== *)
theory Ring
  imports Prelude
begin

text \<open>
  Ring buffers with free-running 32-bit indices, as the pipe and the console input buffer use
  them, and the contract of a bounded queue that both fulfil.
\<close>

section \<open>The content of a ring buffer\<close>

text \<open>
  The elements from read index \<open>r\<close> up to write index \<open>w\<close>. The indices are never reduced; only
  the position in the array is taken modulo its size, which divides \<open>2 ^ 32\<close>.
\<close>

definition ring :: "nat \<Rightarrow> 'a list \<Rightarrow> uint \<Rightarrow> uint \<Rightarrow> 'a list" where
  "ring n d r w = map (\<lambda>i. d ! ((unat r + i) mod n)) [0..<unat (w - r)]"

text \<open>Taking up to \<open>k\<close> elements out of a queue.\<close>

primrec drain :: "('q \<Rightarrow> bool) \<Rightarrow> ('q \<Rightarrow> 'a) \<Rightarrow> ('q \<Rightarrow> 'q) \<Rightarrow> nat \<Rightarrow> 'q \<Rightarrow> 'a list \<times> 'q" where
  "drain emp front rest 0 q = ([], q)"
| "drain emp front rest (Suc k) q =
     (if emp q then ([], q)
      else (let (xs, q') = drain emp front rest k (rest q) in (front q # xs, q')))"

section \<open>Index arithmetic\<close>

lemma length_ring [simp]: "length (ring n d r w) = unat (w - r)"
  by (simp add: ring_def)

lemma ring_empty [simp]: "ring n d r r = []"
  by (simp add: ring_def)

lemma ring_Nil_iff [simp]: "ring n d r w = [] \<longleftrightarrow> r = w"
  by (auto simp: ring_def unat_eq_0)

lemma unat_mod_of_nat:
  fixes x :: uint
  assumes "n < 2 ^ 32"
  shows "unat (x mod of_nat n) = unat x mod n"
  using assms by (simp add: unat_mod_distrib unat_of_nat)

lemma unat_index_mod:
  fixes r w :: uint
  assumes "n dvd 2 ^ 32"
  shows "(unat r + unat (w - r)) mod n = unat w mod n"
proof -
  have "unat w = (unat r + unat (w - r)) mod 2 ^ 32"
    using unat_word_ariths(1) [of r "w - r"] by simp
  then show ?thesis using assms by (simp add: mod_mod_cancel)
qed

lemma mod_differ:
  fixes a i k n :: nat
  assumes "i < k" and "k - i < n"
  shows "(a + i) mod n \<noteq> (a + k) mod n"
proof
  assume "(a + i) mod n = (a + k) mod n"
  then have "(a + k) mod n = (a + i) mod n" by simp
  moreover have "a + i \<le> a + k" using assms(1) by simp
  ultimately have "n dvd (a + k) - (a + i)" by (simp only: mod_eq_dvd_iff_nat)
  then have "n dvd k - i" by simp
  then show False using assms by (auto dest: dvd_imp_le)
qed

lemma ring_put:
  fixes r w :: uint
  assumes "n dvd 2 ^ 32" and "n < 2 ^ 32" and "length d = n" and "unat (w - r) < n"
  shows "ring n (d[unat (w mod of_nat n) := b]) r (w + 1) = ring n d r w @ [b]"
proof -
  let ?k = "unat (w - r)"
  have pos: "unat (w mod of_nat n) = (unat r + ?k) mod n"
    using assms by (simp add: unat_mod_of_nat unat_index_mod)
  have "unat (w - r + 1) = ?k + 1"
    using assms(2,4) by (subst unat_add_lem [THEN iffD1]) (auto)
  then have suc: "unat (w + 1 - r) = Suc ?k" by (simp add: algebra_simps)
  have lt: "(unat r + ?k) mod n < length d" using assms(3,4) by simp
  have "d[(unat r + ?k) mod n := b] ! ((unat r + i) mod n) = d ! ((unat r + i) mod n)" if "i < ?k" for i
  proof -
    have "?k - i < n" using assms(4) by simp
    then have "(unat r + ?k) mod n \<noteq> (unat r + i) mod n"
      using mod_differ [OF that, of n "unat r"] by simp
    then show ?thesis by (rule nth_list_update_neq)
  qed
  then show ?thesis
    using lt by (simp add: ring_def suc pos)
qed

lemma ring_get:
  fixes r w :: uint
  assumes "n dvd 2 ^ 32" and "r \<noteq> w"
  shows "ring n d r w = d ! (unat r mod n) # ring n d (r + 1) w"
proof -
  have "w - r \<noteq> 0" using assms(2) by auto
  then have "unat (w - r - 1) = unat (w - r) - 1" and "0 < unat (w - r)"
    by (simp_all add: unat_minus_one unat_gt_0)
  then have k: "unat (w - r) = Suc (unat (w - (r + 1)))" by (simp add: diff_diff_add)
  have "(unat (r + 1) + i) mod n = (unat r + Suc i) mod n" for i
  proof -
    have "unat (r + 1) mod n = (unat r + 1) mod n"
      using assms(1) by (simp add: unat_word_ariths mod_mod_cancel)
    then have "(unat (r + 1) + i) mod n = (unat r + 1 + i) mod n" by (metis mod_add_left_eq)
    then show ?thesis by simp
  qed
  then show ?thesis
    by (simp add: ring_def k map_upt_Suc del: upt_Suc)
qed

lemma ring_undo:
  fixes r w :: uint
  assumes "r \<noteq> w"
  shows "ring n d r (w - 1) = butlast (ring n d r w)"
proof -
  have "w - r \<noteq> 0" using assms by auto
  then have "unat (w - r - 1) = unat (w - r) - 1"
    by (simp add: unat_minus_one)
  then have "unat (w - 1 - r) = unat (w - r) - 1" by (simp add: algebra_simps)
  then show ?thesis by (simp add: ring_def butlast_conv_take take_map)
qed

section \<open>The contract of a bounded queue\<close>

locale bounded_queue =
  fixes good :: "'q \<Rightarrow> bool"
    and contents :: "'q \<Rightarrow> 'a list"
    and cap :: nat
    and emp :: "'q \<Rightarrow> bool"
    and full :: "'q \<Rightarrow> bool"
    and put :: "'a \<Rightarrow> 'q \<Rightarrow> 'q"
    and front :: "'q \<Rightarrow> 'a"
    and rest :: "'q \<Rightarrow> 'q"
  assumes empty_iff: "good q \<Longrightarrow> emp q \<longleftrightarrow> contents q = []"
    and full_iff: "good q \<Longrightarrow> full q \<longleftrightarrow> length (contents q) = cap"
    and bounded: "good q \<Longrightarrow> length (contents q) \<le> cap"
    and put_spec: "good q \<Longrightarrow> \<not> full q \<Longrightarrow> good (put a q) \<and> contents (put a q) = contents q @ [a]"
    and pop_spec: "good q \<Longrightarrow> \<not> emp q \<Longrightarrow> good (rest q) \<and> contents q = front q # contents (rest q)"
begin

lemma put_all:
  "good q \<Longrightarrow> length (contents q) + length xs \<le> cap \<Longrightarrow>
   good (fold put xs q) \<and> contents (fold put xs q) = contents q @ xs"
proof (induction xs arbitrary: q)
  case (Cons x xs)
  then have "\<not> full q" by (simp add: full_iff)
  with Cons.prems have "good (put x q)" and c: "contents (put x q) = contents q @ [x]"
    using put_spec by blast+
  then show ?case using Cons.IH [of "put x q"] Cons.prems by simp
qed simp

lemma drain_spec:
  "good q \<Longrightarrow> drain emp front rest k q = (xs, q') \<Longrightarrow>
   good q' \<and> xs = take k (contents q) \<and> contents q' = drop k (contents q)"
proof (induction k arbitrary: q xs)
  case (Suc k)
  show ?case
  proof (cases "emp q")
    case True
    then show ?thesis using Suc.prems empty_iff [of q] by simp
  next
    case False
    obtain ys where ys: "drain emp front rest k (rest q) = (ys, q')" and xs: "xs = front q # ys"
      using Suc.prems(2) False by (auto split: prod.splits)
    have "good (rest q)" and "contents q = front q # contents (rest q)"
      using pop_spec Suc.prems(1) False by blast+
    then show ?thesis using Suc.IH [OF _ ys] xs by simp
  qed
qed simp

text \<open>What was put into an empty queue comes out of it, in the same order.\<close>

lemma round_trip:
  assumes "good q" and "emp q" and "length xs \<le> cap"
    and "drain emp front rest (length xs) (fold put xs q) = (ys, q')"
  shows "ys = xs \<and> emp q'"
proof -
  have "contents q = []" using assms(1,2) empty_iff by blast
  then have "good (fold put xs q)" and c: "contents (fold put xs q) = xs"
    using put_all [OF assms(1), of xs] assms(3) by simp_all
  then show ?thesis
    using drain_spec [OF _ assms(4)] empty_iff [of q'] by simp
qed

end

end
