(* ===== verification/Pipe.thy ===== *)
theory Pipe
  imports Proc Ring
begin

text \<open>
  Pipes (\<open>src/pipe.c\<close>). A pipe is named by the address of the page it lives in; the typed
  content of that page is kept in \<open>pipes\<close>. Data goes in and out as lists of bytes.
\<close>

section \<open>State\<close>

abbreviation (input) PIPESIZE :: uint where "PIPESIZE \<equiv> 512"

record pipe =
  p_data :: "uchar list"
  nread :: uint
  nwrite :: uint
  readopen :: bool
  writeopen :: bool

record pipe_state = proc_state +
  pipes :: "uint \<Rightarrow> pipe"

definition upd_pipe :: "uint \<Rightarrow> (pipe \<Rightarrow> pipe) \<Rightarrow> 'a pipe_state_scheme \<Rightarrow> 'a pipe_state_scheme" where
  "upd_pipe p f s = s\<lparr>pipes := (pipes s)(p := f (pipes s p))\<rparr>"

section \<open>Operations\<close>

definition pipe_init :: "uint \<Rightarrow> ('a pipe_state_scheme, unit) kop" where
  "pipe_init p =
    thenk (modk (upd_pipe p (\<lambda>x. x\<lparr>readopen := True, writeopen := True, nwrite := 0, nread := 0\<rparr>))) (
    initlock (PipeLock p) ''pipe'')"

definition pipeclose :: "uint \<Rightarrow> bool \<Rightarrow> ('a pipe_state_scheme, unit) kop" where
  "pipeclose p writable =
    thenk (acquire (PipeLock p)) (
    thenk ((if writable then
      thenk (modk (upd_pipe p (\<lambda>x. x\<lparr>writeopen := False\<rparr>))) (
      wakeup (ChanPipeRead p))
      else
        thenk (modk (upd_pipe p (\<lambda>x. x\<lparr>readopen := False\<rparr>))) (
        wakeup (ChanPipeWrite p)))) (
    bindk (getk (\<lambda>s. pipes s p)) (\<lambda>x.
    if \<not> readopen x \<and> \<not> writeopen x then
      thenk (release (PipeLock p)) (
      kfree p)
     else release (PipeLock p))))"

definition pipe_full :: "pipe \<Rightarrow> bool" where
  "pipe_full x \<longleftrightarrow> nwrite x = nread x + PIPESIZE"

definition pipe_put :: "uchar \<Rightarrow> pipe \<Rightarrow> pipe" where
  "pipe_put b x = x\<lparr>p_data := (p_data x)[unat (nwrite x mod PIPESIZE) := b],
     nwrite := nwrite x + 1\<rparr>"

text \<open>The bytes that are still to be written, out of \<open>n\<close>.\<close>

primrec pipewrite_loop :: "uint \<Rightarrow> uchar list \<Rightarrow> int \<Rightarrow> ('a pipe_state_scheme, int) kop" where
  "pipewrite_loop p [] n =
    thenk (wakeup (ChanPipeRead p)) (
    thenk (release (PipeLock p)) (
    returnk n))"
| "pipewrite_loop p (b # bs) n =
  bindk (getk (\<lambda>s. pipes s p)) (\<lambda>x.
  if pipe_full x then
    bindk ((if \<not> readopen x then returnk True
                else
                  bindk (curthread) (\<lambda>(q, i).
                  getk (\<lambda>s. tkilled (thr q i s))))) (\<lambda>stop.
    if stop then
      thenk (release (PipeLock p)) (
      returnk (-1))
       else
         thenk (wakeup (ChanPipeRead p)) (
         thenk (sleep (ChanPipeWrite p) (PipeLock p)) (
         stopk (Undef ''sleep returned''))))
     else
       thenk (modk (upd_pipe p (pipe_put b))) (
       pipewrite_loop p bs n))"

definition pipewrite :: "uint \<Rightarrow> uchar list \<Rightarrow> ('a pipe_state_scheme, int) kop" where
  "pipewrite p bs =
    thenk (acquire (PipeLock p)) (
    pipewrite_loop p bs (int (length bs)))"

definition pipewrite_resume ::
  "nat \<times> nat \<Rightarrow> bool \<Rightarrow> uint \<Rightarrow> uchar list \<Rightarrow> int \<Rightarrow> ('a pipe_state_scheme, int) kop" where
  "pipewrite_resume t i p bs n =
    thenk (sleep_resume t i (PipeLock p)) (
    pipewrite_loop p bs n)"

definition pipe_get :: "pipe \<Rightarrow> uchar" where
  "pipe_get x = p_data x ! unat (nread x mod PIPESIZE)"

text \<open>The copy loop of \<open>piperead\<close>: at most \<open>n\<close> bytes, up to the write index.\<close>

primrec piperead_copy :: "nat \<Rightarrow> pipe \<Rightarrow> uchar list \<times> pipe" where
  "piperead_copy 0 x = ([], x)"
| "piperead_copy (Suc n) x =
     (if nread x = nwrite x then ([], x)
      else
      (let (bs, y) = piperead_copy n (x\<lparr>nread := nread x + 1\<rparr>)
       in (pipe_get x # bs, y)))"

definition piperead_loop :: "uint \<Rightarrow> int \<Rightarrow> ('a pipe_state_scheme, int \<times> uchar list) kop" where
  "piperead_loop p n =
    bindk (getk (\<lambda>s. pipes s p)) (\<lambda>x.
    if nread x = nwrite x \<and> writeopen x then
      bindk (curthread) (\<lambda>(q, i).
      bindk (getk (\<lambda>s. tkilled (thr q i s))) (\<lambda>k.
      if k then
        thenk (release (PipeLock p)) (
        returnk (-1, []))
       else
         thenk (sleep (ChanPipeRead p) (PipeLock p)) (
         stopk (Undef ''sleep returned''))))
     else
       (let (bs, y) = piperead_copy (nat n) x in
       thenk (modk (upd_pipe p (\<lambda>_. y))) (
       thenk (wakeup (ChanPipeWrite p)) (
       thenk (release (PipeLock p)) (
       returnk (int (length bs), bs))))))"

definition piperead :: "uint \<Rightarrow> int \<Rightarrow> ('a pipe_state_scheme, int \<times> uchar list) kop" where
  "piperead p n =
    thenk (acquire (PipeLock p)) (
    piperead_loop p n)"

definition piperead_resume ::
  "nat \<times> nat \<Rightarrow> bool \<Rightarrow> uint \<Rightarrow> int \<Rightarrow> ('a pipe_state_scheme, int \<times> uchar list) kop" where
  "piperead_resume t i p n =
    thenk (sleep_resume t i (PipeLock p)) (
    piperead_loop p n)"

section \<open>Notions used to state what the operations do\<close>

definition pipe_ok :: "pipe \<Rightarrow> bool" where
  "pipe_ok x \<longleftrightarrow> length (p_data x) = 512 \<and> unat (nwrite x - nread x) \<le> 512"

text \<open>The bytes in the pipe, oldest first.\<close>

definition pipe_bytes :: "pipe \<Rightarrow> uchar list" where
  "pipe_bytes x = ring 512 (p_data x) (nread x) (nwrite x)"

definition pipe_empty :: "pipe \<Rightarrow> bool" where
  "pipe_empty x \<longleftrightarrow> nread x = nwrite x"

definition pipe_pop :: "pipe \<Rightarrow> pipe" where
  "pipe_pop x = x\<lparr>nread := nread x + 1\<rparr>"

text \<open>A sample pipe, holding two bytes, its indices about to wrap around.\<close>

definition sample_pipe :: pipe where
  "sample_pipe = \<lparr>p_data = (replicate 512 0)[510 := 7, 511 := 8], nread = 0xFFFFFFFE, nwrite = 0,
     readopen = True, writeopen = True\<rparr>"

definition sample_pipes :: "'a \<Rightarrow> 'a pipe_state_scheme" where
  "sample_pipes m = sample_proc (pipe_state_ext (\<lambda>_. sample_pipe) m)"

text \<open>
  A writer that still has to write some bytes, the pipe, and the bytes readers have got so
  far. The writer stores one byte when there is room, a reader takes what it finds, in any
  order.
\<close>

inductive pipe_step ::
  "uchar list \<times> pipe \<times> uchar list \<Rightarrow> uchar list \<times> pipe \<times> uchar list \<Rightarrow> bool" where
  pipe_step_write: "\<not> pipe_full x \<Longrightarrow> pipe_step (b # bs, x, got) (bs, pipe_put b x, got)"
| pipe_step_read: "piperead_copy n x = (ys, y) \<Longrightarrow> pipe_step (bs, x, got) (bs, y, got @ ys)"

section \<open>A pipe is a bounded queue\<close>

lemma pipe_put_spec:
  assumes "pipe_ok x" and "\<not> pipe_full x"
  shows "pipe_ok (pipe_put b x) \<and> pipe_bytes (pipe_put b x) = pipe_bytes x @ [b]"
proof -
  have "nwrite x - nread x \<noteq> 512"
    using assms(2) by (auto simp: pipe_full_def algebra_simps)
  then have "unat (nwrite x - nread x) \<noteq> 512" by (simp add: word_unat_eq_iff)
  with assms(1) have lt: "unat (nwrite x - nread x) < 512" by (simp add: pipe_ok_def)
  have "ring 512 ((p_data x)[unat (nwrite x mod of_nat 512) := b]) (nread x) (nwrite x + 1) =
      ring 512 (p_data x) (nread x) (nwrite x) @ [b]"
    using assms(1) lt by (intro ring_put) (simp_all add: pipe_ok_def)
  moreover have "unat (nwrite x + 1 - nread x) = Suc (unat (nwrite x - nread x))"
    using arg_cong [OF calculation, of length] by simp
  ultimately show ?thesis
    using assms(1) lt by (simp add: pipe_ok_def pipe_bytes_def pipe_put_def)
qed

lemma pipe_pop_spec:
  assumes "pipe_ok x" and "\<not> pipe_empty x"
  shows "pipe_ok (pipe_pop x) \<and> pipe_bytes x = pipe_get x # pipe_bytes (pipe_pop x)"
proof -
  have r: "ring 512 (p_data x) (nread x) (nwrite x) =
      p_data x ! (unat (nread x) mod 512) # ring 512 (p_data x) (nread x + 1) (nwrite x)"
    using assms(2) by (intro ring_get) (simp_all add: pipe_empty_def)
  moreover have "unat (nread x mod 512) = unat (nread x) mod 512"
    using unat_mod_of_nat [of 512 "nread x"] by simp
  moreover have "unat (nwrite x - (nread x + 1)) < unat (nwrite x - nread x)"
    using arg_cong [OF r, of length] by simp
  ultimately show ?thesis
    using assms(1) by (simp add: pipe_ok_def pipe_bytes_def pipe_pop_def pipe_get_def)
qed

interpretation pipeq: bounded_queue pipe_ok pipe_bytes 512 pipe_empty pipe_full pipe_put pipe_get pipe_pop
proof
  fix x b
  assume ok: "pipe_ok x"
  show "pipe_empty x \<longleftrightarrow> pipe_bytes x = []"
    by (simp add: pipe_empty_def pipe_bytes_def)
  show "pipe_full x \<longleftrightarrow> length (pipe_bytes x) = 512"
  proof
    show "length (pipe_bytes x) = 512" if "pipe_full x"
      using that by (simp add: pipe_full_def pipe_bytes_def)
    show "pipe_full x" if "length (pipe_bytes x) = 512"
    proof -
      have "nwrite x - nread x = 512"
        using that by (simp add: pipe_bytes_def word_unat_eq_iff)
      then show ?thesis by (auto simp: pipe_full_def algebra_simps)
    qed
  qed
  show "length (pipe_bytes x) \<le> 512" using ok by (simp add: pipe_ok_def pipe_bytes_def)
  show "pipe_ok (pipe_put b x) \<and> pipe_bytes (pipe_put b x) = pipe_bytes x @ [b]" if "\<not> pipe_full x"
    using ok that by (rule pipe_put_spec)
  show "pipe_ok (pipe_pop x) \<and> pipe_bytes x = pipe_get x # pipe_bytes (pipe_pop x)"
    if "\<not> pipe_empty x"
    using ok that by (rule pipe_pop_spec)
qed

lemma piperead_copy_drain: "piperead_copy n x = drain pipe_empty pipe_get pipe_pop n x"
  by (induction n arbitrary: x) (simp_all add: pipe_empty_def pipe_pop_def)

lemma piperead_copy_spec:
  "pipe_ok x \<Longrightarrow> piperead_copy n x = (ys, y) \<Longrightarrow>
   pipe_ok y \<and> ys = take n (pipe_bytes x) \<and> pipe_bytes y = drop n (pipe_bytes x)"
  unfolding piperead_copy_drain by (rule pipeq.drain_spec)

lemma pipe_step_invariant:
  "pipe_step c c' \<Longrightarrow> pipe_ok (fst (snd c)) \<Longrightarrow>
   pipe_ok (fst (snd c')) \<and>
   snd (snd c') @ pipe_bytes (fst (snd c')) @ fst c' = snd (snd c) @ pipe_bytes (fst (snd c)) @ fst c"
  by (induction rule: pipe_step.induct)
     (auto dest: pipe_put_spec [THEN conjunct1] pipe_put_spec [THEN conjunct2] piperead_copy_spec)

lemma pipe_steps_invariant:
  "pipe_step\<^sup>*\<^sup>* c c' \<Longrightarrow> pipe_ok (fst (snd c)) \<Longrightarrow>
   pipe_ok (fst (snd c')) \<and>
   snd (snd c') @ pipe_bytes (fst (snd c')) @ fst c' = snd (snd c) @ pipe_bytes (fst (snd c)) @ fst c"
  by (induction rule: rtranclp_induct) (auto dest: pipe_step_invariant)

section \<open>The operations\<close>

interpretation pipes: machine_field pipes by unfold_locales simp_all

interpretation upd_pipe: machine_upd "upd_pipe p f" for p f
  by unfold_locales (simp_all add: upd_pipe_def)

lemma pipes_upd_pipe [simp]:
  "pipes (upd_pipe p f s) p = f (pipes s p)" "q \<noteq> p \<Longrightarrow> pipes (upd_pipe p f s) q = pipes s q"
  "procs (upd_pipe p f s) = procs s" "thr r i (upd_pipe p f s) = thr r i s"
  by (simp_all add: upd_pipe_def thr_def)

lemma upd_pipe_upd_pipe [simp]: "upd_pipe p f (upd_pipe p g s) = upd_pipe p (f \<circ> g) s"
  by (simp add: upd_pipe_def)

lemma upd_pipe_id: "upd_pipe p (\<lambda>x. x) s = s"
  by (simp add: upd_pipe_def)

lemma pipes_frame [simp]: "pipes (woken ch s) = pipes s" "pipes (upd_thread q i f s) = pipes s"
  by (simp_all add: woken_def upd_thread_def upd_proc_def)

lemma pipewrite_loop_ok:
  "pipe_ok (pipes s p) \<Longrightarrow> length (pipe_bytes (pipes s p)) + length bs \<le> 512 \<Longrightarrow>
   cpu_ok s \<Longrightarrow> 1 < depth s \<or> depth s = 1 \<Longrightarrow> holds (PipeLock p) s \<Longrightarrow> free_lock PtableLock s \<Longrightarrow>
   pipewrite_loop p bs n s =
     Ok n (unlock_st (PipeLock p) (woken (ChanPipeRead p) (upd_pipe p (fold pipe_put bs) s)))"
proof (induction bs arbitrary: s)
  case Nil
  then show ?case by (auto simp: kop_defs upd_pipe_def id_def)
next
  case (Cons b bs)
  have nf: "\<not> pipe_full (pipes s p)" using Cons.prems pipeq.full_iff by auto
  then have "pipe_ok (pipe_put b (pipes s p))"
    and "pipe_bytes (pipe_put b (pipes s p)) = pipe_bytes (pipes s p) @ [b]"
    using pipe_put_spec Cons.prems(1) by blast+
  then have "pipewrite_loop p bs n (upd_pipe p (pipe_put b) s) = Ok n (unlock_st (PipeLock p)
      (woken (ChanPipeRead p) (upd_pipe p (fold pipe_put bs) (upd_pipe p (pipe_put b) s))))"
    using Cons.prems by (intro Cons.IH) simp_all
  then show ?case using nf by (simp add: kop_defs comp_def)
qed

lemma pipewrite_ok:
  assumes "cpu_ok s" and "free_lock (PipeLock p) s" and "free_lock PtableLock s"
    and "pipe_ok (pipes s p)" and "length (pipe_bytes (pipes s p)) + length bs \<le> 512"
  shows "pipewrite p bs s =
    Ok (int (length bs)) (woken (ChanPipeRead p) (upd_pipe p (fold pipe_put bs) (settle s)))"
proof -
  have "0 \<le> depth s" using assms(1) by simp
  then have d: "0 < depth s \<or> depth s = 0" by auto
  have "pipewrite_loop p bs (int (length bs)) (lock_st (PipeLock p) s) =
      Ok (int (length bs)) (unlock_st (PipeLock p)
        (woken (ChanPipeRead p) (upd_pipe p (fold pipe_put bs) (lock_st (PipeLock p) s))))"
    using assms d by (intro pipewrite_loop_ok) auto
  then show ?thesis using assms by (simp add: pipewrite_def kop_defs)
qed

lemma piperead_ok:
  assumes "cpu_ok s" and "free_lock (PipeLock p) s" and "free_lock PtableLock s"
    and "nread (pipes s p) \<noteq> nwrite (pipes s p) \<or> \<not> writeopen (pipes s p)"
    and "piperead_copy (nat n) (pipes s p) = (bs, y)"
  shows "piperead p n s =
    Ok (int (length bs), bs) (woken (ChanPipeWrite p) (upd_pipe p (\<lambda>_. y) (settle s)))"
  using assms by (auto simp: piperead_def piperead_loop_def kop_defs)

lemma pipewrite_blocks:
  assumes "cpu_ok s" and "depth s = 0" and "free_lock (PipeLock p) s" and "free_lock PtableLock s"
    and "pipe_full (pipes s p)" and "readopen (pipes s p)" and "bs \<noteq> []"
    and "me s \<noteq> None" and "my_thread s = Some (q, i)" and "\<not> tkilled (thr q i s)"
    and "ptable_ok s" and "q < NPROC" and "i < NTHREADS"
  shows "\<exists>s'. pipewrite p bs s = Stop Swtch s' \<and> holds PtableLock s' \<and> free_lock (PipeLock p) s' \<and>
    tstate (thr q i s') = SLEEPING \<and> tchan (thr q i s') = Some (ChanPipeWrite p) \<and>
    pipes s' = pipes s"
proof -
  obtain b bs' where bs: "bs = b # bs'" using assms(7) by (cases bs) auto
  let ?s = "woken (ChanPipeRead p) (lock_st (PipeLock p) s)"
  have "sleep (ChanPipeWrite p) (PipeLock p) ?s = Stop Swtch (upd_thread q i (sleeping (ChanPipeWrite p))
      (unlock_st (PipeLock p) (lock_st PtableLock ?s)))"
    using assms by (intro sleep_ok) simp_all
  then show ?thesis
    using assms bs by (auto simp: pipewrite_def kop_defs sleeping_def)
qed

lemma pipewrite_no_reader:
  assumes "cpu_ok s" and "free_lock (PipeLock p) s" and "pipe_full (pipes s p)"
    and "\<not> readopen (pipes s p)" and "bs \<noteq> []"
  shows "pipewrite p bs s = Ok (-1) (settle s)"
  using assms by (cases bs) (simp_all add: pipewrite_def kop_defs)

section \<open>Properties\<close>

lemma sample_pipe_ok [simp]: "pipe_ok sample_pipe" "pipe_bytes sample_pipe = [7, 8]"
  by (simp_all add: pipe_ok_def pipe_bytes_def sample_pipe_def ring_def upt_conv_Cons)

lemma sample_pipes_pipe [simp]: "pipes (sample_pipes m) p = sample_pipe"
  by (simp add: sample_pipes_def sample_proc_def sample_kmem_def sample_machine_def)

lemma sample_pipes_fields [simp]:
  "procs (sample_pipes m) = sample_procs"
  "cpu_ok (sample_pipes m)" "depth (sample_pipes m) = 0" "free_lock lk (sample_pipes m)"
  "me (sample_pipes m) = Some 0" "my_thread (sample_pipes m) = Some (0, 0)"
  "settle (sample_pipes m) = sample_pipes m" "calm (sample_pipes m)" "ptable_ok (sample_pipes m)"
  by (simp_all add: sample_pipes_def)

text \<open>
  C3: a pipe is first in, first out, under any interleaving of a writer and readers. What
  the readers have got, followed by what the pipe holds, followed by what the writer has still
  to write, is always what the writer set out to write, and the pipe never holds more than
  512 bytes; the unbounded wrap-around of the two index counters does not disturb it.
\<close>

theorem pipe_fifo:
  assumes "pipe_ok x" and "pipe_step\<^sup>*\<^sup>* (bs, x, got) (bs', y, got')"
  shows "got' @ pipe_bytes y @ bs' = got @ pipe_bytes x @ bs \<and> length (pipe_bytes y) \<le> 512"
  using pipe_steps_invariant [OF assms(2)] assms(1) by (simp add: pipe_ok_def pipe_bytes_def)

theorem pipe_fifo_witness:
  "\<exists>y. pipe_step\<^sup>*\<^sup>* ([9], sample_pipe, []) ([], y, [7, 8, 9]) \<and> pipe_bytes y = []"
proof -
  let ?x = "pipe_put 9 sample_pipe"
  obtain ys y where r: "piperead_copy 3 ?x = (ys, y)" by fastforce
  have nf: "\<not> pipe_full sample_pipe" by (simp add: pipe_full_def sample_pipe_def)
  have "pipe_step ([9], sample_pipe, []) ([], ?x, [])" using nf by (rule pipe_step_write)
  moreover have "pipe_step ([], ?x, []) ([], y, [] @ ys)" using r by (rule pipe_step_read)
  ultimately have st: "pipe_step\<^sup>*\<^sup>* ([9], sample_pipe, []) ([], y, ys)"
    by (simp add: r_into_rtranclp rtranclp.rtrancl_into_rtrancl)
  have "pipe_ok ?x \<and> pipe_bytes ?x = [7, 8, 9]" using pipe_put_spec [OF _ nf, of 9] by simp
  then have "ys = [7, 8, 9]" using piperead_copy_spec [OF _ r] by simp
  then show ?thesis
    using st pipe_fifo [OF _ st] by auto
qed





end
