(* ===== verification/Sleeplock.thy ===== *)
theory Sleeplock
  imports Pipe
begin

text \<open>
  Sleep locks, \<open>src/sleeplock.c\<close> and \<open>src/sleeplock.h\<close>. A lock that is taken puts the
  caller to sleep; the wait loop is its own definition, entered again by
  \<open>acquiresleep_resume\<close> when the thread is woken.
\<close>

section \<open>Data and operations\<close>

record sleeplock =
  sl_locked :: uint
  sl_name :: string
  sl_pid :: int

record sl_state = pipe_state +
  sleeplocks :: "sleeplock_id \<Rightarrow> sleeplock"

definition upd_sl ::
  "sleeplock_id \<Rightarrow> (sleeplock \<Rightarrow> sleeplock) \<Rightarrow> 'a sl_state_scheme \<Rightarrow> 'a sl_state_scheme" where
  "upd_sl lk f s = s\<lparr>sleeplocks := (sleeplocks s)(lk := f (sleeplocks s lk))\<rparr>"

definition initsleeplock :: "sleeplock_id \<Rightarrow> string \<Rightarrow> ('a sl_state_scheme, unit) kop" where
  "initsleeplock lk name =
     thenk (initlock (SleepLk lk) ''sleep lock'') (
     modk (upd_sl lk (\<lambda>_. \<lparr>sl_locked = 0, sl_name = name, sl_pid = 0\<rparr>)))"

definition acquiresleep_loop :: "sleeplock_id \<Rightarrow> ('a sl_state_scheme, unit) kop" where
  "acquiresleep_loop lk =
     bindk (getk (\<lambda>s. sl_locked (sleeplocks s lk))) (\<lambda>l.
     if l \<noteq> 0 then sleep (ChanSleeplock lk) (SleepLk lk)
     else
     thenk (modk (upd_sl lk (\<lambda>x. x\<lparr>sl_locked := 1\<rparr>))) (
     bindk curproc (\<lambda>p.
     thenk (modk (\<lambda>s. upd_sl lk (\<lambda>x. x\<lparr>sl_pid := pid (procs s ! p)\<rparr>) s)) (
     release (SleepLk lk)))))"

definition acquiresleep :: "sleeplock_id \<Rightarrow> ('a sl_state_scheme, unit) kop" where
  "acquiresleep lk = thenk (acquire (SleepLk lk)) (acquiresleep_loop lk)"

definition acquiresleep_resume ::
  "nat \<times> nat \<Rightarrow> bool \<Rightarrow> sleeplock_id \<Rightarrow> ('a sl_state_scheme, unit) kop" where
  "acquiresleep_resume t i lk = thenk (sleep_resume t i (SleepLk lk)) (acquiresleep_loop lk)"

definition releasesleep :: "sleeplock_id \<Rightarrow> ('a sl_state_scheme, unit) kop" where
  "releasesleep lk =
     thenk (acquire (SleepLk lk)) (
     thenk (modk (upd_sl lk (\<lambda>x. x\<lparr>sl_locked := 0, sl_pid := 0\<rparr>))) (
     thenk (wakeup (ChanSleeplock lk)) (
     release (SleepLk lk))))"

definition holdingsleep :: "sleeplock_id \<Rightarrow> ('a sl_state_scheme, bool) kop" where
  "holdingsleep lk =
     thenk (acquire (SleepLk lk)) (
     bindk curproc (\<lambda>p.
     bindk (getk (\<lambda>s. sl_locked (sleeplocks s lk) \<noteq> 0 \<and>
                      sl_pid (sleeplocks s lk) = pid (procs s ! p))) (\<lambda>r.
     thenk (release (SleepLk lk)) (
     returnk r))))"

section \<open>Notions used to state what the operations do\<close>

definition mypid :: "'a proc_state_scheme \<Rightarrow> int" where
  "mypid s = pid (procs s ! the (me s))"

definition take_sl :: "sleeplock_id \<Rightarrow> 'a sl_state_scheme \<Rightarrow> 'a sl_state_scheme" where
  "take_sl lk s = upd_sl lk (\<lambda>x. x\<lparr>sl_locked := 1, sl_pid := mypid s\<rparr>) s"

definition drop_sl :: "sleeplock_id \<Rightarrow> 'a sl_state_scheme \<Rightarrow> 'a sl_state_scheme" where
  "drop_sl lk s = woken (ChanSleeplock lk) (upd_sl lk (\<lambda>x. x\<lparr>sl_locked := 0, sl_pid := 0\<rparr>) s)"

definition has_sl :: "sleeplock_id \<Rightarrow> 'a sl_state_scheme \<Rightarrow> bool" where
  "has_sl lk s \<longleftrightarrow> sl_locked (sleeplocks s lk) \<noteq> 0 \<and> sl_pid (sleeplocks s lk) = mypid s"

text \<open>A sample state in which every sleep lock is free.\<close>

definition sample_sl :: "'a \<Rightarrow> 'a sl_state_scheme" where
  "sample_sl m = sample_pipes (sl_state_ext (\<lambda>_. \<lparr>sl_locked = 0, sl_name = ''sample'', sl_pid = 0\<rparr>) m)"

section \<open>Frame\<close>

interpretation sleeplocks: machine_field sleeplocks by unfold_locales simp_all

interpretation upd_sl: machine_upd "upd_sl lk f" for lk f
  by unfold_locales (simp_all add: upd_sl_def)

lemma upd_sl_simps [simp]:
  "procs (upd_sl lk f s) = procs s"
  "sleeplocks (upd_sl lk f s) lk = f (sleeplocks s lk)"
  "lk' \<noteq> lk \<Longrightarrow> sleeplocks (upd_sl lk f s) lk' = sleeplocks s lk'"
  "upd_sl lk f (upd_sl lk g s) = upd_sl lk (f \<circ> g) s"
  by (simp_all add: upd_sl_def)

lemma sleeplocks_frame [simp]:
  "sleeplocks (woken ch s) = sleeplocks s" "sleeplocks (upd_thread q i g s) = sleeplocks s"
  by (simp_all add: woken_def upd_thread_def upd_proc_def)

lemma mypid_st [simp]: "mypid (lock_st lk s) = mypid s" "mypid (upd_sl lk' f t) = mypid t"
  by (simp_all add: mypid_def)

lemma mypid_woken [simp]: "the (me s) < length (procs s) \<Longrightarrow> mypid (woken ch s) = mypid s"
  by (simp add: mypid_def nth_woken wakeup1_proc_def)

lemma calm_take_sl [simp]: "calm s \<Longrightarrow> calm (take_sl lk s)"
  by (simp add: take_sl_def)

lemma calm_drop_sl [simp]: "calm s \<Longrightarrow> calm (drop_sl lk s)"
  by (simp add: drop_sl_def)

section \<open>What the operations do\<close>

lemma acquiresleep_ok:
  assumes "calm s" and "sl_locked (sleeplocks s lk) = 0"
  shows "acquiresleep lk s = Ok () (take_sl lk s)"
  using assms calmD [OF assms(1)]
  by (simp add: acquiresleep_def acquiresleep_loop_def kop_defs take_sl_def mypid_def comp_def)

lemma releasesleep_ok:
  assumes "calm s"
  shows "releasesleep lk s = Ok () (drop_sl lk s)"
  using assms calmD [OF assms(1)]
  by (simp add: releasesleep_def kop_defs drop_sl_def)

lemma holdingsleep_ok:
  assumes "calm s"
  shows "holdingsleep lk s = Ok (has_sl lk s) s"
  using assms calmD [OF assms(1)]
  by (simp add: holdingsleep_def kop_defs has_sl_def mypid_def)

lemma acquiresleep_blocks:
  assumes "calm s" and "depth s = 0" and "sl_locked (sleeplocks s lk) \<noteq> 0"
    and "my_thread s = Some (q, i)" and "ptable_ok s" and "q < NPROC" and "i < NTHREADS"
  shows "\<exists>s'. acquiresleep lk s = Stop Swtch s' \<and> holds PtableLock s' \<and> free_lock (SleepLk lk) s' \<and>
    tstate (thr q i s') = SLEEPING \<and> tchan (thr q i s') = Some (ChanSleeplock lk) \<and>
    sleeplocks s' = sleeplocks s"
proof -
  let ?s = "lock_st (SleepLk lk) s"
  have "sleep (ChanSleeplock lk) (SleepLk lk) ?s = Stop Swtch (upd_thread q i (sleeping (ChanSleeplock lk))
      (unlock_st (SleepLk lk) (lock_st PtableLock ?s)))"
    using assms calmD [OF assms(1)] by (intro sleep_ok) auto
  then show ?thesis
    using assms by (auto simp: acquiresleep_def acquiresleep_loop_def kop_defs sleeping_def)
qed

section \<open>Properties\<close>

lemma sample_sl_lock [simp]: "sl_locked (sleeplocks (sample_sl m) lk) = 0"
  by (simp add: sample_sl_def sample_pipes_def sample_proc_def sample_kmem_def sample_machine_def)

lemma sample_sl_fields [simp]:
  "procs (sample_sl m) = sample_procs"
  "depth (sample_sl m) = 0" "me (sample_sl m) = Some 0" "my_thread (sample_sl m) = Some (0, 0)"
  "calm (sample_sl m)" "ptable_ok (sample_sl m)"
  by (simp_all add: sample_sl_def)



end
