(* ===== verification/Bio.thy ===== *)
theory Bio
  imports Sleeplock
begin

text \<open>
  The buffer cache, \<open>src/bio.c\<close> and \<open>src/buf.h\<close>, over the in-memory disk driver
  \<open>src/memide.c\<close> (\<open>Makefile\<close> target \<open>xv6memfs\<close>). A buffer is the index of its slot in
  \<open>bcache.buf\<close>. The circular list through \<open>prev\<close> and \<open>next\<close> is kept as the list
  of slots in the order of \<open>next\<close>, the most recently used first; walking \<open>prev\<close> from
  the head is walking that list backwards. The disk is a function from block numbers to
  the bytes of the block. \<open>disk_writes\<close> is a history of the blocks written to the disk,
  oldest first, by which the states of the disk between two writes can be stated; no
  operation reads it.
\<close>

section \<open>Data\<close>

abbreviation (input) BSIZE :: nat where "BSIZE \<equiv> 512"
abbreviation (input) NBUF :: nat where "NBUF \<equiv> 30"

record buf =
  b_valid :: bool
  b_dirty :: bool
  b_dev :: uint
  b_blockno :: uint
  b_refcnt :: int
  b_data :: "uchar list"

record bio_state = sl_state +
  bufs :: "nat \<Rightarrow> buf"
  lru :: "nat list"
  disk :: "uint \<Rightarrow> uchar list"
  disksize :: uint
  disk_writes :: "(uint \<times> uchar list) list"

definition upd_buf :: "nat \<Rightarrow> (buf \<Rightarrow> buf) \<Rightarrow> 'a bio_state_scheme \<Rightarrow> 'a bio_state_scheme" where
  "upd_buf b f s = s\<lparr>bufs := (bufs s)(b := f (bufs s b))\<rparr>"

section \<open>The disk driver\<close>

definition iderw :: "nat \<Rightarrow> ('a bio_state_scheme, unit) kop" where
  "iderw b =
     bindk (holdingsleep (BufLock b)) (\<lambda>h.
     if \<not> h then panick ''iderw: buf not locked''
     else bindk (getk (\<lambda>s. bufs s b)) (\<lambda>x.
     if b_valid x \<and> \<not> b_dirty x then panick ''iderw: nothing to do''
     else if b_dev x \<noteq> 1 then panick ''iderw: request not for disk 1''
     else bindk (getk disksize) (\<lambda>n.
     if b_blockno x \<ge> n then panick ''iderw: block out of range''
     else
     thenk (if b_dirty x then
              thenk (modk (upd_buf b (\<lambda>x. x\<lparr>b_dirty := False\<rparr>))) (
              modk (\<lambda>s. s\<lparr>disk := (disk s)(b_blockno x := b_data x),
                disk_writes := disk_writes s @ [(b_blockno x, b_data x)]\<rparr>))
            else modk (\<lambda>s. upd_buf b (\<lambda>y. y\<lparr>b_data := disk s (b_blockno x)\<rparr>) s)) (
     modk (upd_buf b (\<lambda>x. x\<lparr>b_valid := True\<rparr>))))))"

section \<open>The cache\<close>

definition binit :: "('a bio_state_scheme, unit) kop" where
  "binit =
     thenk (initlock BcacheLock ''bcache'') (
     thenk (modk (\<lambda>s. s\<lparr>lru := []\<rparr>)) (
     foreachk [0..<NBUF] (\<lambda>b.
       thenk (initsleeplock (BufLock b) ''buffer'') (
       modk (\<lambda>s. s\<lparr>lru := b # lru s\<rparr>)))))"

definition find_cached :: "uint \<Rightarrow> uint \<Rightarrow> 'a bio_state_scheme \<Rightarrow> nat option" where
  "find_cached dev blockno s =
     find (\<lambda>b. b_dev (bufs s b) = dev \<and> b_blockno (bufs s b) = blockno) (lru s)"

definition find_victim :: "'a bio_state_scheme \<Rightarrow> nat option" where
  "find_victim s = find (\<lambda>b. b_refcnt (bufs s b) = 0 \<and> \<not> b_dirty (bufs s b)) (rev (lru s))"

definition bget :: "uint \<Rightarrow> uint \<Rightarrow> ('a bio_state_scheme, nat) kop" where
  "bget dev blockno =
     thenk (acquire BcacheLock) (
     bindk (getk (find_cached dev blockno)) (\<lambda>hit.
     case hit of
       Some b \<Rightarrow>
         thenk (modk (upd_buf b (\<lambda>x. x\<lparr>b_refcnt := b_refcnt x + 1\<rparr>))) (
         thenk (release BcacheLock) (
         thenk (acquiresleep (BufLock b)) (
         returnk b)))
     | None \<Rightarrow>
         bindk (getk find_victim) (\<lambda>victim.
         case victim of
           Some b \<Rightarrow>
             thenk (modk (upd_buf b (\<lambda>x. x\<lparr>b_dev := dev, b_blockno := blockno,
               b_valid := False, b_dirty := False, b_refcnt := 1\<rparr>))) (
             thenk (release BcacheLock) (
             thenk (acquiresleep (BufLock b)) (
             returnk b)))
         | None \<Rightarrow> panick ''bget: no buffers'')))"

definition bread :: "uint \<Rightarrow> uint \<Rightarrow> ('a bio_state_scheme, nat) kop" where
  "bread dev blockno =
     bindk (bget dev blockno) (\<lambda>b.
     bindk (getk (\<lambda>s. b_valid (bufs s b))) (\<lambda>v.
     thenk (whenk (\<not> v) (iderw b)) (
     returnk b)))"

definition bwrite :: "nat \<Rightarrow> ('a bio_state_scheme, unit) kop" where
  "bwrite b =
     bindk (holdingsleep (BufLock b)) (\<lambda>h.
     if \<not> h then panick ''bwrite''
     else
     thenk (modk (upd_buf b (\<lambda>x. x\<lparr>b_dirty := True\<rparr>))) (
     iderw b))"

definition brelse :: "nat \<Rightarrow> ('a bio_state_scheme, unit) kop" where
  "brelse b =
     bindk (holdingsleep (BufLock b)) (\<lambda>h.
     if \<not> h then panick ''brelse''
     else
     thenk (releasesleep (BufLock b)) (
     thenk (acquire BcacheLock) (
     thenk (modk (upd_buf b (\<lambda>x. x\<lparr>b_refcnt := b_refcnt x - 1\<rparr>))) (
     bindk (getk (\<lambda>s. b_refcnt (bufs s b))) (\<lambda>n.
     thenk (whenk (n = 0) (modk (\<lambda>s. s\<lparr>lru := b # remove1 b (lru s)\<rparr>))) (
     release BcacheLock))))))"

section \<open>Notions used to state what the operations do\<close>

text \<open>
  The invariant while the caller holds the buffers \<open>H\<close>: every other buffer is unlocked and
  unreferenced, the list names every buffer once, at most one buffer caches a block of disk 1,
  and a clean valid buffer that is not held agrees with the disk.
\<close>

definition buf_ok :: "nat set \<Rightarrow> 'a bio_state_scheme \<Rightarrow> nat \<Rightarrow> bool" where
  "buf_ok H s b \<longleftrightarrow> (let x = bufs s b in
     (if b \<in> H then b_refcnt x = 1 \<and> has_sl (BufLock b) s \<and> b_valid x \<and> b_dev x = 1
      else b_refcnt x = 0 \<and> sl_locked (sleeplocks s (BufLock b)) = 0) \<and>
     (b_dirty x \<longrightarrow> b_valid x \<and> b_dev x = 1) \<and>
     (b_dev x = 1 \<longrightarrow> b_blockno x < disksize s) \<and>
     (b_valid x \<longrightarrow> length (b_data x) = BSIZE) \<and>
     (b \<notin> H \<and> b_valid x \<and> \<not> b_dirty x \<and> b_dev x = 1 \<longrightarrow> b_data x = disk s (b_blockno x)))"

definition bio_inv :: "nat set \<Rightarrow> 'a bio_state_scheme \<Rightarrow> bool" where
  "bio_inv H s \<longleftrightarrow> calm s \<and> the (me s) < length (procs s) \<and>
     distinct (lru s) \<and> set (lru s) = {..<NBUF} \<and> H \<subseteq> {..<NBUF} \<and>
     (\<forall>k. length (disk s k) = BSIZE) \<and> (\<forall>b < NBUF. buf_ok H s b) \<and>
     (\<forall>b < NBUF. \<forall>c < NBUF. b_dev (bufs s b) = 1 \<and> b_dev (bufs s c) = 1 \<and>
        b_blockno (bufs s b) = b_blockno (bufs s c) \<longrightarrow> b = c)"

text \<open>The content of a block as the kernel sees it: the cached copy, or else the disk.\<close>

definition bview :: "'a bio_state_scheme \<Rightarrow> uint \<Rightarrow> uchar list" where
  "bview s k = (case find_cached 1 k s of
     Some b \<Rightarrow> if b_valid (bufs s b) then b_data (bufs s b) else disk s k
   | None \<Rightarrow> disk s k)"

definition dirty_bufs :: "'a bio_state_scheme \<Rightarrow> nat set" where
  "dirty_bufs s = {b. b < NBUF \<and> b_dirty (bufs s b)}"

definition dirty_blocks :: "'a bio_state_scheme \<Rightarrow> uint set" where
  "dirty_blocks s = (\<lambda>b. b_blockno (bufs s b)) ` dirty_bufs s"

definition caches :: "nat \<Rightarrow> uint \<Rightarrow> 'a bio_state_scheme \<Rightarrow> bool" where
  "caches b k s \<longleftrightarrow> b < NBUF \<and> b_dev (bufs s b) = 1 \<and> b_blockno (bufs s b) = k"

text \<open>Buffer \<open>b\<close> locked by the caller, holding block \<open>k\<close>.\<close>

definition grabbed :: "nat \<Rightarrow> uint \<Rightarrow> 'a bio_state_scheme \<Rightarrow> 'a bio_state_scheme" where
  "grabbed b k s = take_sl (BufLock b) (upd_buf b (\<lambda>x. \<lparr>b_valid = True, b_dirty = b_dirty x, b_dev = 1,
     b_blockno = k, b_refcnt = 1, b_data = bview s k, \<dots> = buf.more x\<rparr>) s)"

text \<open>
  Every operation changes one buffer and, when it writes, one block of the disk. \<open>one_buf\<close>
  says so; two lemmas then give the invariant and the content of the blocks afterwards.
\<close>

definition one_buf :: "nat \<Rightarrow> uint \<Rightarrow> nat set \<Rightarrow> 'a bio_state_scheme \<Rightarrow> 'a bio_state_scheme \<Rightarrow> bool" where
  "one_buf b k H s t \<longleftrightarrow> calm t \<and> mypid t = mypid s \<and> the (me t) < length (procs t) \<and>
     distinct (lru t) \<and> set (lru t) = {..<NBUF} \<and> disksize t = disksize s \<and> caches b k t \<and>
     b_valid (bufs t b) \<and> length (disk t k) = BSIZE \<and>
     (\<forall>c. c \<noteq> b \<longrightarrow> bufs t c = bufs s c \<and> sleeplocks t (BufLock c) = sleeplocks s (BufLock c)) \<and>
     (\<forall>j. j \<noteq> k \<longrightarrow> disk t j = disk s j) \<and> (\<forall>c. caches c k s \<longrightarrow> c = b)"

text \<open>What stays: the size of the disk and the state of the components above.\<close>

definition bio_frame :: "'a bio_state_scheme \<Rightarrow> 'a bio_state_scheme \<Rightarrow> bool" where
  "bio_frame s t \<longleftrightarrow> disksize t = disksize s \<and> bio_state.more t = bio_state.more s"

definition apply_writes :: "(uint \<times> uchar list) list \<Rightarrow> (uint \<Rightarrow> uchar list) \<Rightarrow> uint \<Rightarrow> uchar list" where
  "apply_writes ws d = fold (\<lambda>(k, v) d. d(k := v)) ws d"

text \<open>From \<open>s\<close> to \<open>t\<close>, with no buffer held, the blocks \<open>ws\<close> were written, and nothing else.\<close>

definition wrote :: "(uint \<times> uchar list) list \<Rightarrow> 'a bio_state_scheme \<Rightarrow> 'a bio_state_scheme \<Rightarrow> bool" where
  "wrote ws s t \<longleftrightarrow> bio_inv {} t \<and> disk t = apply_writes ws (disk s) \<and>
     bview t = apply_writes ws (bview s) \<and> disk_writes t = disk_writes s @ ws \<and> bio_frame s t \<and>
     dirty_blocks t = dirty_blocks s - fst ` set ws \<and> card (dirty_bufs t) \<le> card (dirty_bufs s)"

text \<open>A sample state: an empty cache and a disk of 1000 blocks of zeros.\<close>

definition sample_bio :: "'a \<Rightarrow> 'a bio_state_scheme" where
  "sample_bio m = sample_sl (bio_state_ext (\<lambda>_. \<lparr>b_valid = False, b_dirty = False, b_dev = 0,
     b_blockno = 0, b_refcnt = 0, b_data = replicate BSIZE 0\<rparr>) [0..<NBUF] (\<lambda>_. replicate BSIZE 0)
     1000 [] m)"

section \<open>Frame\<close>

interpretation bufs: machine_field bufs by unfold_locales simp_all
interpretation lru: machine_field lru by unfold_locales simp_all
interpretation disk: machine_field disk by unfold_locales simp_all
interpretation disksize: machine_field disksize by unfold_locales simp_all
interpretation disk_writes: machine_field disk_writes by unfold_locales simp_all
interpretation upd_buf: machine_upd "upd_buf b f" for b f
  by unfold_locales (simp_all add: upd_buf_def)
interpretation lru_upd: machine_upd "lru_update f" for f by unfold_locales simp_all
interpretation disk_upd: machine_upd "disk_update f" for f by unfold_locales simp_all
interpretation disk_writes_upd: machine_upd "disk_writes_update f" for f by unfold_locales simp_all

lemma upd_buf_simps [simp]:
  "bufs (upd_buf b f s) b = f (bufs s b)" "c \<noteq> b \<Longrightarrow> bufs (upd_buf b f s) c = bufs s c"
  "lru (upd_buf b f s) = lru s" "disk (upd_buf b f s) = disk s"
  "disksize (upd_buf b f s) = disksize s" "disk_writes (upd_buf b f s) = disk_writes s"
  "procs (upd_buf b f s) = procs s" "sleeplocks (upd_buf b f s) = sleeplocks s"
  "upd_buf b f (upd_buf b g s) = upd_buf b (f \<circ> g) s"
  "bio_state.more (upd_buf b f s) = bio_state.more s"
  by (simp_all add: upd_buf_def)

lemma upd_buf_cong: "f (bufs s b) = g (bufs s b) \<Longrightarrow> upd_buf b f s = upd_buf b g s"
  by (simp add: upd_buf_def)

lemma bio_fields_sl [simp]:
  "bufs (upd_sl lk f s) = bufs s" "lru (upd_sl lk f s) = lru s" "disk (upd_sl lk f s) = disk s"
  "disksize (upd_sl lk f s) = disksize s" "disk_writes (upd_sl lk f s) = disk_writes s"
  "bio_state.more (upd_sl lk f s) = bio_state.more s"
  "bufs (woken ch s) = bufs s" "lru (woken ch s) = lru s" "disk (woken ch s) = disk s"
  "disksize (woken ch s) = disksize s" "disk_writes (woken ch s) = disk_writes s"
  "bio_state.more (woken ch s) = bio_state.more s"
  by (simp_all add: upd_sl_def woken_def)

lemma mypid_buf [simp]:
  "mypid (upd_buf b f s) = mypid s" "mypid (s\<lparr>disk := d\<rparr>) = mypid s"
  "mypid (s\<lparr>disk_writes := w\<rparr>) = mypid s" "mypid (s\<lparr>lru := l\<rparr>) = mypid s"
  by (simp_all add: mypid_def)

section \<open>Running the operations\<close>

lemma bget_hit:
  assumes "calm s" and "find_cached dev k s = Some b" and "sl_locked (sleeplocks s (BufLock b)) = 0"
  shows "bget dev k s = Ok b (take_sl (BufLock b) (upd_buf b (\<lambda>x. x\<lparr>b_refcnt := b_refcnt x + 1\<rparr>) s))"
proof -
  have "find_cached dev k (lock_st BcacheLock s) = Some b"
    using assms(2) by (simp add: find_cached_def)
  then show ?thesis
    using assms calmD [OF assms(1)] by (simp add: bget_def kop_defs acquiresleep_ok)
qed

lemma bget_miss:
  assumes "calm s" and "find_cached dev k s = None" and "find_victim s = Some b"
    and "sl_locked (sleeplocks s (BufLock b)) = 0"
  shows "bget dev k s = Ok b (take_sl (BufLock b) (upd_buf b (\<lambda>x. x\<lparr>b_dev := dev, b_blockno := k,
      b_valid := False, b_dirty := False, b_refcnt := 1\<rparr>) s))"
proof -
  have "find_cached dev k (lock_st BcacheLock s) = None" "find_victim (lock_st BcacheLock s) = Some b"
    using assms(2,3) by (simp_all add: find_cached_def find_victim_def)
  then show ?thesis
    using assms calmD [OF assms(1)] by (simp add: bget_def kop_defs acquiresleep_ok)
qed

lemma iderw_read:
  assumes "calm s" and "has_sl (BufLock b) s" and "\<not> b_valid (bufs s b)" and "\<not> b_dirty (bufs s b)"
    and "b_dev (bufs s b) = 1" and "b_blockno (bufs s b) < disksize s"
  shows "iderw b s = Ok () (upd_buf b (\<lambda>x. x\<lparr>b_data := disk s (b_blockno (bufs s b)), b_valid := True\<rparr>) s)"
  using assms by (simp add: iderw_def kop_defs holdingsleep_ok comp_def)

lemma iderw_write:
  assumes "calm s" and "has_sl (BufLock b) s" and "b_dirty (bufs s b)"
    and "b_dev (bufs s b) = 1" and "b_blockno (bufs s b) < disksize s"
  shows "iderw b s = Ok () (upd_buf b (\<lambda>x. x\<lparr>b_dirty := False, b_valid := True\<rparr>)
    (s\<lparr>disk := (disk s)(b_blockno (bufs s b) := b_data (bufs s b)),
       disk_writes := disk_writes s @ [(b_blockno (bufs s b), b_data (bufs s b))]\<rparr>))"
  using assms by (simp add: iderw_def kop_defs holdingsleep_ok upd_buf_def)

lemma bwrite_run:
  assumes "calm s" and "has_sl (BufLock b) s" and "b_dev (bufs s b) = 1"
    and "b_blockno (bufs s b) < disksize s"
  shows "bwrite b s = Ok () (upd_buf b (\<lambda>x. x\<lparr>b_dirty := False, b_valid := True\<rparr>)
    (s\<lparr>disk := (disk s)(b_blockno (bufs s b) := b_data (bufs s b)),
       disk_writes := disk_writes s @ [(b_blockno (bufs s b), b_data (bufs s b))]\<rparr>))"
proof -
  have "has_sl (BufLock b) (upd_buf b (\<lambda>x. x\<lparr>b_dirty := True\<rparr>) s)"
    using assms(2) by (simp add: has_sl_def)
  then show ?thesis
    using assms by (simp add: bwrite_def kop_defs holdingsleep_ok iderw_write) (simp add: upd_buf_def)
qed

lemma brelse_run:
  assumes "calm s" and "has_sl (BufLock b) s" and "b_refcnt (bufs s b) = 1"
  shows "brelse b s = Ok () ((upd_buf b (\<lambda>x. x\<lparr>b_refcnt := b_refcnt x - 1\<rparr>)
    (drop_sl (BufLock b) s))\<lparr>lru := b # remove1 b (lru s)\<rparr>)"
proof -
  have "calm (drop_sl (BufLock b) s)" using assms(1) by simp
  moreover have "bufs (drop_sl (BufLock b) s) = bufs s" "lru (drop_sl (BufLock b) s) = lru s"
    by (simp_all add: drop_sl_def)
  ultimately show ?thesis
    using assms calmD [of "drop_sl (BufLock b) s"]
    by (simp add: brelse_def kop_defs holdingsleep_ok releasesleep_ok)
qed

section \<open>The invariant\<close>

lemma bio_invD:
  assumes "bio_inv H s"
  shows "calm s" and "the (me s) < length (procs s)" and "distinct (lru s)" and "set (lru s) = {..<NBUF}"
    and "H \<subseteq> {..<NBUF}" and "length (disk s k) = BSIZE" and "b < NBUF \<Longrightarrow> buf_ok H s b"
    and "caches b k s \<Longrightarrow> caches c k s \<Longrightarrow> b = c"
  using assms by (auto simp: bio_inv_def caches_def)

lemma heldD:
  assumes "bio_inv H s" and "b \<in> H"
  shows "b < NBUF" and "b_refcnt (bufs s b) = 1" and "has_sl (BufLock b) s" and "b_valid (bufs s b)"
    and "b_dev (bufs s b) = 1" and "b_blockno (bufs s b) < disksize s"
    and "length (b_data (bufs s b)) = BSIZE" and "caches b (b_blockno (bufs s b)) s"
  using assms by (auto simp: bio_inv_def buf_ok_def Let_def caches_def)

lemma freeD:
  assumes "bio_inv H s" and "b < NBUF" and "b \<notin> H"
  shows "b_refcnt (bufs s b) = 0" and "sl_locked (sleeplocks s (BufLock b)) = 0"
    and "b_dirty (bufs s b) \<Longrightarrow> b_valid (bufs s b) \<and> b_dev (bufs s b) = 1"
    and "b_dev (bufs s b) = 1 \<Longrightarrow> b_blockno (bufs s b) < disksize s"
    and "b_valid (bufs s b) \<Longrightarrow> length (b_data (bufs s b)) = BSIZE"
    and "b_valid (bufs s b) \<Longrightarrow> \<not> b_dirty (bufs s b) \<Longrightarrow> b_dev (bufs s b) = 1 \<Longrightarrow>
      b_data (bufs s b) = disk s (b_blockno (bufs s b))"
  using assms by (auto simp: bio_inv_def buf_ok_def Let_def)

lemma find_cached_iff:
  assumes "bio_inv H s"
  shows "find_cached 1 k s = Some b \<longleftrightarrow> caches b k s"
proof
  show "caches b k s" if "find_cached 1 k s = Some b"
  proof -
    have "b \<in> set (lru s)" "b_dev (bufs s b) = 1" "b_blockno (bufs s b) = k"
      using that by (auto simp: find_cached_def find_Some_iff)
    then show ?thesis using bio_invD(4) [OF assms] by (simp add: caches_def)
  qed
next
  assume c: "caches b k s"
  then have "find_cached 1 k s \<noteq> None"
    using bio_invD(4) [OF assms] by (auto simp: find_cached_def find_None_iff caches_def)
  then obtain d where d: "find_cached 1 k s = Some d" by auto
  then have "d \<in> set (lru s)" "b_dev (bufs s d) = 1" "b_blockno (bufs s d) = k"
    by (auto simp: find_cached_def find_Some_iff)
  then have "caches d k s" using bio_invD(4) [OF assms] by (simp add: caches_def)
  then show "find_cached 1 k s = Some b" using bio_invD(8) [OF assms] c d by blast
qed

lemma find_cached_None:
  "bio_inv H s \<Longrightarrow> find_cached 1 k s = None \<longleftrightarrow> (\<forall>b. \<not> caches b k s)"
  using find_cached_iff [of H s k] by (cases "find_cached 1 k s") auto

lemma bview_cached:
  "bio_inv H s \<Longrightarrow> caches b k s \<Longrightarrow>
   bview s k = (if b_valid (bufs s b) then b_data (bufs s b) else disk s k)"
  by (simp add: bview_def find_cached_iff [THEN iffD2])

lemma bview_uncached: "bio_inv H s \<Longrightarrow> (\<And>b. \<not> caches b k s) \<Longrightarrow> bview s k = disk s k"
  by (simp add: bview_def find_cached_None [THEN iffD2])

lemma bview_clean:
  assumes "bio_inv {} s" and "k \<notin> dirty_blocks s"
  shows "bview s k = disk s k"
proof (cases "\<exists>b. caches b k s")
  case True
  then obtain b where b: "caches b k s" by blast
  then have "\<not> b_dirty (bufs s b)"
    using assms(2) by (auto simp: dirty_blocks_def dirty_bufs_def caches_def)
  then show ?thesis
    using bview_cached [OF assms(1) b] freeD [OF assms(1)] b by (auto simp: caches_def)
next
  case False
  then show ?thesis using bview_uncached [OF assms(1)] by simp
qed

lemma bview_length:
  assumes "bio_inv H s"
  shows "length (bview s k) = BSIZE"
proof (cases "\<exists>b. caches b k s")
  case True
  then obtain b where b: "caches b k s" by blast
  then have "b < NBUF" by (simp add: caches_def)
  then show ?thesis
    using bview_cached [OF assms b] freeD(5) [OF assms, of b] heldD(7) [OF assms, of b]
      bio_invD(6) [OF assms] by (cases "b \<in> H") auto
next
  case False
  then show ?thesis using bview_uncached [OF assms] bio_invD(6) [OF assms] by simp
qed

lemma find_victim_ex:
  assumes "bio_inv H s" and "card (dirty_bufs s \<union> H) < NBUF"
  shows "\<exists>b. find_victim s = Some b \<and> b < NBUF \<and> b \<notin> H \<and> \<not> b_dirty (bufs s b)"
proof -
  have sub: "dirty_bufs s \<union> H \<subseteq> {..<NBUF}"
    using bio_invD(5) [OF assms(1)] by (auto simp: dirty_bufs_def)
  have "\<not> {..<NBUF} \<subseteq> dirty_bufs s \<union> H"
  proof
    assume "{..<NBUF} \<subseteq> dirty_bufs s \<union> H"
    then have "card {..<NBUF} \<le> card (dirty_bufs s \<union> H)"
      using finite_subset [OF sub] by (intro card_mono) simp_all
    then show False using assms(2) by simp
  qed
  then obtain b where b: "b < NBUF" "b \<notin> H" "\<not> b_dirty (bufs s b)"
    by (auto simp: dirty_bufs_def)
  then have "b_refcnt (bufs s b) = 0" using freeD(1) [OF assms(1)] by blast
  then have "find_victim s \<noteq> None"
    using b bio_invD(4) [OF assms(1)] by (auto simp: find_victim_def find_None_iff)
  then obtain c where c: "find_victim s = Some c" by auto
  then have "c \<in> set (lru s)" "b_refcnt (bufs s c) = 0" "\<not> b_dirty (bufs s c)"
    by (auto simp: find_victim_def dest: find_SomeD)
  moreover have "c \<notin> H" using heldD(2) [OF assms(1), of c] calculation(2) by auto
  ultimately show ?thesis using c bio_invD(4) [OF assms(1)] by auto
qed

lemma grabbed_simps [simp]:
  "bufs (grabbed b k s) b = \<lparr>b_valid = True, b_dirty = b_dirty (bufs s b), b_dev = 1, b_blockno = k,
     b_refcnt = 1, b_data = bview s k\<rparr>"
  "c \<noteq> b \<Longrightarrow> bufs (grabbed b k s) c = bufs s c"
  "lru (grabbed b k s) = lru s" "disk (grabbed b k s) = disk s" "disksize (grabbed b k s) = disksize s"
  "disk_writes (grabbed b k s) = disk_writes s" "bio_state.more (grabbed b k s) = bio_state.more s"
  by (simp_all add: grabbed_def take_sl_def)

lemma grabbed_frame [simp]:
  "calm s \<Longrightarrow> calm (grabbed b k s)" "mypid (grabbed b k s) = mypid s" "me (grabbed b k s) = me s"
  "procs (grabbed b k s) = procs s" "has_sl (BufLock b) (grabbed b k s)"
  "c \<noteq> b \<Longrightarrow> sleeplocks (grabbed b k s) (BufLock c) = sleeplocks s (BufLock c)"
  by (simp_all add: grabbed_def take_sl_def has_sl_def)

lemma grabbedI:
  assumes "f (bufs s b) = \<lparr>b_valid = True, b_dirty = b_dirty (bufs s b), b_dev = 1, b_blockno = k,
     b_refcnt = 1, b_data = bview s k\<rparr>"
  shows "take_sl (BufLock b) (upd_buf b f s) = grabbed b k s"
  unfolding grabbed_def by (intro arg_cong [of _ _ "take_sl (BufLock b)"] upd_buf_cong) (simp add: assms)

lemma upd_buf_take_sl [simp]: "upd_buf b f (take_sl lk s) = take_sl lk (upd_buf b f s)"
  by (simp add: take_sl_def) (simp add: upd_buf_def upd_sl_def)

lemma take_sl_simps [simp]:
  "bufs (take_sl lk s) = bufs s" "disk (take_sl lk s) = disk s" "disksize (take_sl lk s) = disksize s"
  "has_sl lk (take_sl lk s)"
  by (simp_all add: take_sl_def has_sl_def)

lemma bread_run:
  assumes inv: "bio_inv H s" and k: "k < disksize s" and fresh: "\<And>b. b \<in> H \<Longrightarrow> b_blockno (bufs s b) \<noteq> k"
    and room: "k \<in> dirty_blocks s \<or> card (dirty_bufs s \<union> H) < NBUF"
  shows "\<exists>b. b < NBUF \<and> b \<notin> H \<and> (caches b k s \<or> (\<forall>c. \<not> caches c k s) \<and> \<not> b_dirty (bufs s b)) \<and>
    bread 1 k s = Ok b (grabbed b k s)"
proof (cases "\<exists>b. caches b k s")
  case True
  then obtain b where b: "caches b k s" by blast
  then have bH: "b < NBUF" "b \<notin> H" using fresh by (auto simp: caches_def)
  let ?s = "take_sl (BufLock b) (upd_buf b (\<lambda>x. x\<lparr>b_refcnt := b_refcnt x + 1\<rparr>) s)"
  have g: "bget 1 k s = Ok b ?s"
    using bio_invD(1) [OF inv] find_cached_iff [OF inv] b freeD(2) [OF inv bH] by (intro bget_hit) simp_all
  have "bread 1 k s = Ok b (grabbed b k s)"
  proof (cases "b_valid (bufs s b)")
    case True
    have "?s = grabbed b k s"
      using True b freeD(1) [OF inv bH] bview_cached [OF inv b]
      by (intro grabbedI buf.equality) (simp_all add: caches_def)
    then show ?thesis using g True by (simp add: bread_def kop_defs)
  next
    case False
    then have nd: "\<not> b_dirty (bufs s b)" using freeD(3) [OF inv bH] by blast
    have "iderw b ?s = Ok () (upd_buf b (\<lambda>x. x\<lparr>b_data := disk ?s (b_blockno (bufs ?s b)), b_valid := True\<rparr>) ?s)"
      using False nd b bio_invD(1) [OF inv] k by (intro iderw_read) (simp_all add: caches_def)
    moreover have "upd_buf b (\<lambda>x. x\<lparr>b_data := disk ?s (b_blockno (bufs ?s b)), b_valid := True\<rparr>) ?s = grabbed b k s"
      using False b freeD(1) [OF inv bH] bview_cached [OF inv b]
      by (simp, intro grabbedI buf.equality) (simp_all add: caches_def)
    ultimately show ?thesis using g False by (simp add: bread_def kop_defs)
  qed
  then show ?thesis using b bH by blast
next
  case False
  then have none: "\<And>b. \<not> caches b k s" by blast
  then have "k \<notin> dirty_blocks s"
    using freeD(3) [OF inv] heldD(5) [OF inv] by (auto simp: dirty_blocks_def dirty_bufs_def caches_def)
  then obtain b where v: "find_victim s = Some b" and b: "b < NBUF" "b \<notin> H" "\<not> b_dirty (bufs s b)"
    using room find_victim_ex [OF inv] by blast
  let ?s = "take_sl (BufLock b) (upd_buf b (\<lambda>x. x\<lparr>b_dev := 1, b_blockno := k, b_valid := False,
      b_dirty := False, b_refcnt := 1\<rparr>) s)"
  have g: "bget 1 k s = Ok b ?s"
    using bio_invD(1) [OF inv] find_cached_None [OF inv] none v freeD(2) [OF inv b(1,2)]
    by (intro bget_miss) simp_all
  have "iderw b ?s = Ok () (upd_buf b (\<lambda>x. x\<lparr>b_data := disk ?s (b_blockno (bufs ?s b)), b_valid := True\<rparr>) ?s)"
    using bio_invD(1) [OF inv] k by (intro iderw_read) simp_all
  moreover have "upd_buf b (\<lambda>x. x\<lparr>b_data := disk ?s (b_blockno (bufs ?s b)), b_valid := True\<rparr>) ?s = grabbed b k s"
    using b(3) bview_uncached [OF inv none] by (simp, intro grabbedI buf.equality) simp_all
  ultimately have "bread 1 k s = Ok b (grabbed b k s)" using g by (simp add: bread_def kop_defs)
  then show ?thesis using b none by blast
qed

section \<open>What the operations keep\<close>

lemma one_bufD:
  assumes "one_buf b k H s t"
  shows "calm t" and "mypid t = mypid s" and "the (me t) < length (procs t)" and "distinct (lru t)"
    and "set (lru t) = {..<NBUF}" and "disksize t = disksize s" and "caches b k t"
    and "b_valid (bufs t b)" and "length (disk t k) = BSIZE" and "c \<noteq> b \<Longrightarrow> bufs t c = bufs s c"
    and "c \<noteq> b \<Longrightarrow> sleeplocks t (BufLock c) = sleeplocks s (BufLock c)"
    and "j \<noteq> k \<Longrightarrow> disk t j = disk s j" and "caches c k s \<Longrightarrow> c = b"
  using assms unfolding one_buf_def by blast+

lemma one_buf_inv:
  assumes inv: "bio_inv H s" and one: "one_buf b k H s t" and "buf_ok H' t b"
    and H: "H' \<subseteq> {..<NBUF}" "\<And>c. c \<noteq> b \<Longrightarrow> c \<in> H' \<longleftrightarrow> c \<in> H"
  shows "bio_inv H' t"
proof -
  note o = one_bufD [OF one]
  have "buf_ok H' t c" if c: "c < NBUF" for c
  proof (cases "c = b")
    case False
    have ne: "b_dev (bufs s c) = 1 \<Longrightarrow> b_blockno (bufs s c) \<noteq> k"
      using o(13) [of c] False c by (auto simp: caches_def)
    have "has_sl (BufLock c) t = has_sl (BufLock c) s"
      using o(2) o(11) [OF False] by (simp add: has_sl_def)
    moreover have "b_dev (bufs s c) = 1 \<longrightarrow> disk t (b_blockno (bufs s c)) = disk s (b_blockno (bufs s c))"
      using o(12) ne by blast
    ultimately show ?thesis
      using bio_invD(7) [OF inv c] H(2) [OF False]
      unfolding buf_ok_def Let_def o(6) o(10) [OF False] o(11) [OF False] by auto
  qed (simp add: assms(3))
  moreover have "c = d" if "c < NBUF" "d < NBUF" "b_dev (bufs t c) = 1" "b_dev (bufs t d) = 1"
      "b_blockno (bufs t c) = b_blockno (bufs t d)" for c d
  proof -
    have b: "b_blockno (bufs t b) = k" using o(7) by (simp add: caches_def)
    have "caches e (b_blockno (bufs t e)) s" if "e \<noteq> b" "e < NBUF" "b_dev (bufs t e) = 1" for e
      using that o(10) [OF that(1)] by (simp add: caches_def)
    then have "c \<noteq> b \<Longrightarrow> caches c (b_blockno (bufs t c)) s" "d \<noteq> b \<Longrightarrow> caches d (b_blockno (bufs t c)) s"
      using that by metis+
    then show ?thesis using b that(5) bio_invD(8) [OF inv] o(13) by metis
  qed
  moreover have "length (disk t j) = BSIZE" for j
    using o(9) o(12) [of j] bio_invD(6) [OF inv, of j] by (cases "j = k") simp_all
  ultimately show ?thesis using o(1-5) H(1) unfolding bio_inv_def by blast
qed

lemma one_buf_view:
  assumes inv: "bio_inv H s" "bio_inv H' t" and one: "one_buf b k H s t"
    and old: "\<And>j. j \<noteq> k \<Longrightarrow> caches b j s \<Longrightarrow> bview s j = disk s j"
  shows "bview t = (bview s)(k := b_data (bufs t b))"
proof
  fix j
  note o = one_bufD [OF one]
  show "bview t j = ((bview s)(k := b_data (bufs t b))) j"
  proof (cases "j = k")
    case True
    then show ?thesis using bview_cached [OF inv(2) o(7)] o(8) by simp
  next
    case False
    have eq: "caches c j t \<longleftrightarrow> caches c j s \<and> c \<noteq> b" for c
      using o(7) o(10) [of c] False by (cases "c = b") (auto simp: caches_def)
    have d: "disk t j = disk s j" using o(12) False by simp
    show ?thesis
    proof (cases "\<exists>c. caches c j s \<and> c \<noteq> b")
      case True
      then obtain c where c: "caches c j s" "c \<noteq> b" by blast
      then have "bview t j = bview s j"
        using eq bview_cached [OF inv(1), of c j] bview_cached [OF inv(2), of c j] d o(10) [of c]
        by simp
      then show ?thesis using False by simp
    next
      case none: False
      then have "bview t j = disk s j" using eq d bview_uncached [OF inv(2), of j] by simp
      moreover have "bview s j = disk s j"
        using none old [OF False] bview_uncached [OF inv(1), of j] by blast
      ultimately show ?thesis using False by simp
    qed
  qed
qed

lemma bread_spec:
  assumes inv: "bio_inv H s" and k: "k < disksize s" and fresh: "\<And>b. b \<in> H \<Longrightarrow> b_blockno (bufs s b) \<noteq> k"
    and room: "k \<in> dirty_blocks s \<or> card (dirty_bufs s \<union> H) < NBUF"
  shows "\<exists>b t. bread 1 k s = Ok b t \<and> b \<notin> H \<and> bio_inv (insert b H) t \<and> b_blockno (bufs t b) = k \<and>
    b_data (bufs t b) = bview s k \<and> (\<not> b_dirty (bufs t b) \<longrightarrow> bview s k = disk s k) \<and>
    bview t = bview s \<and> disk t = disk s \<and>
    disk_writes t = disk_writes s \<and> bio_frame s t \<and> (\<forall>c. c \<noteq> b \<longrightarrow> bufs t c = bufs s c) \<and>
    dirty_bufs t = dirty_bufs s \<and> dirty_blocks t = dirty_blocks s"
proof -
  obtain b where b: "b < NBUF" "b \<notin> H"
    and c: "caches b k s \<or> (\<forall>c. \<not> caches c k s) \<and> \<not> b_dirty (bufs s b)"
    and run: "bread 1 k s = Ok b (grabbed b k s)"
    using bread_run [OF assms] by blast
  let ?t = "grabbed b k s"
  have "c = b" if "caches c k s" for c using c that bio_invD(8) [OF inv] by blast
  then have one: "one_buf b k H s ?t"
    using bio_invD(1-4) [OF inv] bio_invD(6) [OF inv, of k] b by (simp add: one_buf_def caches_def)
  have "bio_inv (insert b H) ?t"
  proof (rule one_buf_inv [OF inv one])
    show "buf_ok (insert b H) ?t b"
      using k bview_length [OF inv] by (simp add: buf_ok_def)
  qed (use b bio_invD(5) [OF inv] in simp_all)
  moreover have "bview ?t = (bview s)(k := b_data (bufs ?t b))"
  proof (rule one_buf_view [OF inv calculation one])
    fix j
    assume "j \<noteq> k" "caches b j s"
    then have "\<not> b_dirty (bufs s b)" using c by (auto simp: caches_def)
    then show "bview s j = disk s j"
      using bview_cached [OF inv \<open>caches b j s\<close>] freeD(6) [OF inv b] \<open>caches b j s\<close>
      by (simp add: caches_def split: if_splits)
  qed
  moreover have "b_dirty (bufs ?t c) = b_dirty (bufs s c)" for c by (cases "c = b") simp_all
  then have db: "dirty_bufs ?t = dirty_bufs s" by (simp add: dirty_bufs_def)
  moreover have "b_blockno (bufs ?t d) = b_blockno (bufs s d)" if "d \<in> dirty_bufs s" for d
    using c that by (cases "d = b") (auto simp: caches_def dirty_bufs_def)
  then have "dirty_blocks ?t = dirty_blocks s"
    unfolding dirty_blocks_def db by (intro image_cong refl)
  moreover have "\<not> b_dirty (bufs ?t b) \<longrightarrow> bview s k = disk s k"
    using c bview_cached [OF inv, of b k] bview_uncached [OF inv, of k] freeD(6) [OF inv b]
    by (auto simp: caches_def)
  ultimately show ?thesis
    using run b by (intro exI [of _ b] exI [of _ ?t]) (simp add: bio_frame_def)
qed

lemma brelse_spec:
  assumes inv: "bio_inv H s" and b: "b \<in> H"
    and sync: "\<not> b_dirty (bufs s b) \<Longrightarrow> b_data (bufs s b) = disk s (b_blockno (bufs s b))"
  shows "\<exists>t. brelse b s = Ok () t \<and> bio_inv (H - {b}) t \<and> bview t = bview s \<and> disk t = disk s \<and>
    disk_writes t = disk_writes s \<and> bio_frame s t \<and> (\<forall>c. c \<noteq> b \<longrightarrow> bufs t c = bufs s c) \<and>
    dirty_bufs t = dirty_bufs s \<and> dirty_blocks t = dirty_blocks s"
proof -
  note h = heldD [OF inv b] and i = bio_invD [OF inv]
  let ?k = "b_blockno (bufs s b)"
  let ?t = "(upd_buf b (\<lambda>x. x\<lparr>b_refcnt := b_refcnt x - 1\<rparr>) (drop_sl (BufLock b) s))\<lparr>
    lru := b # remove1 b (lru s)\<rparr>"
  have bufs: "bufs ?t = (bufs s)(b := (bufs s b)\<lparr>b_refcnt := 0\<rparr>)"
    using h(2) by (simp add: upd_buf_def drop_sl_def)
  have rest: "disk ?t = disk s" "disksize ?t = disksize s" "disk_writes ?t = disk_writes s"
      "bio_state.more ?t = bio_state.more s" "length (procs ?t) = length (procs s)" "me ?t = me s"
      "mypid ?t = mypid s" "sl_locked (sleeplocks ?t (BufLock b)) = 0"
      "\<And>c. c \<noteq> b \<Longrightarrow> sleeplocks ?t (BufLock c) = sleeplocks s (BufLock c)"
    using i(2) by (simp_all add: drop_sl_def) (simp_all add: woken_def)
  have lru: "distinct (lru ?t)" "set (lru ?t) = {..<NBUF}"
    using i(3,4) h(1) by (auto simp: set_remove1_eq)
  have "calm ?t" using i(1) by simp
  then have one: "one_buf b ?k H s ?t"
    using i(2,6,8) h(1,4,5,8) lru unfolding one_buf_def bufs rest
    by (auto simp: caches_def bufs drop_sl_def)
  have ok: "bio_inv (H - {b}) ?t"
  proof (rule one_buf_inv [OF inv one])
    show "buf_ok (H - {b}) ?t b"
      unfolding buf_ok_def bufs rest using sync h(4-7) by (auto simp: rest)
  qed (use i(5) in auto)
  have "bview ?t = (bview s)(?k := b_data (bufs ?t b))"
    using one_buf_view [OF inv ok one] by (auto simp: caches_def)
  then have "bview ?t = bview s" unfolding bufs using bview_cached [OF inv h(8)] h(4) by auto
  moreover have "dirty_bufs ?t = dirty_bufs s" unfolding dirty_bufs_def bufs by auto
  moreover have "dirty_blocks ?t = dirty_blocks s"
    unfolding dirty_blocks_def calculation(2) unfolding bufs by (intro image_cong) auto
  ultimately show ?thesis
    using brelse_run [OF i(1) h(3,2)] ok unfolding bio_frame_def
    by (intro exI [of _ ?t]) (simp add: rest(1-4) bufs del: upd_buf_simps)
qed

lemma bwrite_spec:
  assumes inv: "bio_inv H s" and b: "b \<in> H" and k: "b_blockno (bufs s b) = k"
  shows "\<exists>t. bwrite b s = Ok () t \<and> bio_inv H t \<and> bview t = bview s \<and>
    disk t = (disk s)(k := bview s k) \<and> disk_writes t = disk_writes s @ [(k, bview s k)] \<and>
    bio_frame s t \<and> (\<forall>c. c \<noteq> b \<longrightarrow> bufs t c = bufs s c) \<and>
    bufs t b = (bufs s b)\<lparr>b_dirty := False\<rparr> \<and> b_data (bufs t b) = disk t k \<and>
    dirty_bufs t = dirty_bufs s - {b} \<and> dirty_blocks t = dirty_blocks s - {k}"
proof -
  note h = heldD [OF inv b] and i = bio_invD [OF inv]
  have v: "bview s k = b_data (bufs s b)" using bview_cached [OF inv h(8)] h(4) k by simp
  let ?t = "upd_buf b (\<lambda>x. x\<lparr>b_dirty := False, b_valid := True\<rparr>)
    (s\<lparr>disk := (disk s)(b_blockno (bufs s b) := b_data (bufs s b)),
       disk_writes := disk_writes s @ [(b_blockno (bufs s b), b_data (bufs s b))]\<rparr>)"
  have eq: "(bufs s b)\<lparr>b_dirty := False, b_valid := True\<rparr> = (bufs s b)\<lparr>b_dirty := False\<rparr>"
    using h(4) by (intro buf.equality) simp_all
  then have bufs: "bufs ?t = (bufs s)(b := (bufs s b)\<lparr>b_dirty := False\<rparr>)" by (simp add: upd_buf_def)
  have one: "one_buf b k H s ?t"
    using i(1-4,6,8) h(1,4,5,7,8) k unfolding one_buf_def bufs
    by (auto simp: caches_def bufs)
  have "has_sl (BufLock b) ?t" using h(3) by (simp add: has_sl_def)
  then have ok: "bio_inv H ?t"
    using h b i(5) by (intro one_buf_inv [OF inv one]) (auto simp: buf_ok_def bufs)
  have "bview ?t = (bview s)(k := b_data (bufs ?t b))"
    using one_buf_view [OF inv ok one] k by (auto simp: caches_def)
  then have "bview ?t = bview s" unfolding bufs using v by auto
  moreover have db: "dirty_bufs ?t = dirty_bufs s - {b}" unfolding dirty_bufs_def bufs by auto
  moreover have "dirty_blocks ?t = dirty_blocks s - {k}"
  proof -
    have "b_blockno (bufs s c) \<noteq> k" if "c \<in> dirty_bufs s" "c \<noteq> b" for c
    proof
      assume "b_blockno (bufs s c) = k"
      moreover have "c < NBUF" "b_dev (bufs s c) = 1"
        using that i(7) [of c] by (auto simp: dirty_bufs_def buf_ok_def Let_def)
      ultimately show False using i(8) [of c k b] h(8) that(2) k by (simp add: caches_def)
    qed
    then show ?thesis unfolding dirty_blocks_def db unfolding bufs using k by (auto simp: image_iff)
  qed
  ultimately show ?thesis
    using bwrite_run [OF i(1) h(3,5,6)] ok v k unfolding bio_frame_def
    by (intro exI [of _ ?t]) (simp add: bufs eq)
qed

lemma set_data_spec:
  assumes inv: "bio_inv H s" and b: "b \<in> H" and k: "b_blockno (bufs s b) = k"
    and v: "length v = BSIZE" and t: "t = upd_buf b (\<lambda>x. x\<lparr>b_data := v\<rparr>) s"
  shows "bio_inv H t" and "bview t = (bview s)(k := v)" and "bio_frame s t"
    and "dirty_bufs t = dirty_bufs s" and "dirty_blocks t = dirty_blocks s"
proof -
  note h = heldD [OF inv b] and i = bio_invD [OF inv]
  have bufs: "bufs t = (bufs s)(b := (bufs s b)\<lparr>b_data := v\<rparr>)" by (simp add: t upd_buf_def)
  have one: "one_buf b k H s t"
    using i(1-4,6,8) h(1,4,5,7,8) k unfolding one_buf_def bufs
    by (auto simp: caches_def bufs t)
  have "has_sl (BufLock b) t" using h(3) by (simp add: has_sl_def t)
  then show ok: "bio_inv H t"
    using h b v i(5) by (intro one_buf_inv [OF inv one]) (auto simp: buf_ok_def bufs t)
  show "bview t = (bview s)(k := v)"
    using one_buf_view [OF inv ok one] k by (auto simp: caches_def bufs)
  show "bio_frame s t" by (simp add: bio_frame_def t)
  show db: "dirty_bufs t = dirty_bufs s" unfolding dirty_bufs_def bufs by auto
  show "dirty_blocks t = dirty_blocks s"
    unfolding dirty_blocks_def db unfolding bufs by (intro image_cong) auto
qed

section \<open>Sequences of writes\<close>

lemma apply_writes_simps [simp]:
  "apply_writes [] d = d" "apply_writes ((k, v) # ws) d = apply_writes ws (d(k := v))"
  "apply_writes (ws @ vs) d = apply_writes vs (apply_writes ws d)"
  by (simp_all add: apply_writes_def)

lemma apply_writes_other: "k \<notin> fst ` set ws \<Longrightarrow> apply_writes ws d k = d k"
  by (induction ws arbitrary: d) auto

lemma apply_writes_nth:
  "distinct (map fst ws) \<Longrightarrow> i < length ws \<Longrightarrow> apply_writes ws d (fst (ws ! i)) = snd (ws ! i)"
proof (induction ws arbitrary: d i)
  case (Cons w ws)
  obtain k v where w: "w = (k, v)" by fastforce
  show ?case
  proof (cases i)
    case 0
    then show ?thesis using Cons.prems(1) w by (simp add: apply_writes_other)
  next
    case (Suc j)
    then show ?thesis using Cons w by simp
  qed
qed simp

lemma wrote_refl: "bio_inv {} s \<Longrightarrow> wrote [] s s"
  by (simp add: wrote_def bio_frame_def)

lemma wrote_trans: "wrote ws s t \<Longrightarrow> wrote vs t u \<Longrightarrow> wrote (ws @ vs) s u"
  by (auto simp: wrote_def bio_frame_def)

lemma card_dirty:
  assumes "bio_inv H s"
  shows "card (dirty_blocks s) = card (dirty_bufs s)"
proof -
  have "inj_on (\<lambda>b. b_blockno (bufs s b)) (dirty_bufs s)"
  proof (rule inj_onI)
    fix b c
    assume d: "b \<in> dirty_bufs s" "c \<in> dirty_bufs s" "b_blockno (bufs s b) = b_blockno (bufs s c)"
    have "caches e (b_blockno (bufs s e)) s" if "e \<in> dirty_bufs s" for e
      using that bio_invD(7) [OF assms, of e] by (auto simp: dirty_bufs_def buf_ok_def Let_def caches_def)
    then show "b = c" using d bio_invD(8) [OF assms] by metis
  qed
  then show ?thesis by (simp add: dirty_blocks_def card_image)
qed

section \<open>Fields of the components above the cache\<close>

text \<open>An update of a field of a later component leaves the cache and the disk alone.\<close>

locale bio_upd = machine_upd upd for upd :: "'a bio_state_scheme \<Rightarrow> 'a bio_state_scheme" +
  assumes upd_bio: "bufs (upd s) = bufs s" "lru (upd s) = lru s" "disk (upd s) = disk s"
      "disksize (upd s) = disksize s" "disk_writes (upd s) = disk_writes s"
      "sleeplocks (upd s) = sleeplocks s" "procs (upd s) = procs s"
begin

lemma bio_upd_fields [simp]:
  "bufs (upd s) = bufs s" "lru (upd s) = lru s" "disk (upd s) = disk s" "disksize (upd s) = disksize s"
  "disk_writes (upd s) = disk_writes s" "sleeplocks (upd s) = sleeplocks s" "procs (upd s) = procs s"
  by (simp_all add: upd_bio)

lemma bio_upd_view [simp]:
  "bview (upd s) = bview s" "dirty_bufs (upd s) = dirty_bufs s" "dirty_blocks (upd s) = dirty_blocks s"
  by (simp_all add: bview_def find_cached_def fun_eq_iff dirty_bufs_def dirty_blocks_def
      split: option.split)

lemma has_sl_upd [simp]: "has_sl lk (upd s) = has_sl lk s" "mypid (upd s) = mypid s"
  by (simp_all add: has_sl_def mypid_def)

lemma buf_ok_upd: "buf_ok H (upd s) b = buf_ok H s b"
  by (simp add: buf_ok_def)

lemma bio_inv_upd: "bio_inv H s \<Longrightarrow> bio_inv H (upd s)"
  by (simp add: bio_inv_def buf_ok_upd)

end

lemma upd_lock_bio [simp]:
  "bufs (upd_lock lk f s) = bufs s" "lru (upd_lock lk f s) = lru s" "disk (upd_lock lk f s) = disk s"
  "disksize (upd_lock lk f s) = disksize s" "disk_writes (upd_lock lk f s) = disk_writes s"
  "sleeplocks (upd_lock lk f s) = sleeplocks s" "procs (upd_lock lk f s) = procs s"
  "bio_state.more (upd_lock lk f s) = bio_state.more s" "me (upd_lock lk f s) = me s"
  by (simp_all add: upd_lock_def me_def cur_def find_cpu_def)

lemma bio_inv_initlock:
  assumes "bio_inv H s"
  shows "bio_inv H (upd_lock lk (\<lambda>_. \<lparr>lk_locked = 0, lk_name = name, lk_cpu = None\<rparr>) s)"
proof -
  let ?s = "upd_lock lk (\<lambda>_. \<lparr>lk_locked = 0, lk_name = name, lk_cpu = None\<rparr>) s"
  have "buf_ok H ?s b = buf_ok H s b" for b by (simp add: buf_ok_def has_sl_def mypid_def)
  then show ?thesis
    using assms calm_initlock [of s lk name] by (simp add: bio_inv_def)
qed

lemma mark_dirty_spec:
  assumes inv: "bio_inv H s" and b: "b \<in> H" and k: "b_blockno (bufs s b) = k"
    and t: "t = upd_buf b (\<lambda>x. x\<lparr>b_dirty := True\<rparr>) s"
  shows "bio_inv H t" and "bview t = bview s" and "bio_frame s t" and "dirty_blocks t = insert k (dirty_blocks s)"
proof -
  note h = heldD [OF inv b] and i = bio_invD [OF inv]
  have bufs: "bufs t = (bufs s)(b := (bufs s b)\<lparr>b_dirty := True\<rparr>)" by (simp add: t upd_buf_def)
  have one: "one_buf b k H s t"
    using i(1-4,6,8) h(1,4,5,7,8) k unfolding one_buf_def bufs
    by (auto simp: caches_def bufs t)
  have "has_sl (BufLock b) t" using h(3) by (simp add: has_sl_def t)
  then show ok: "bio_inv H t"
    using h b i(5) by (intro one_buf_inv [OF inv one]) (auto simp: buf_ok_def bufs t)
  have "bview t = (bview s)(k := b_data (bufs t b))"
    using one_buf_view [OF inv ok one] k by (auto simp: caches_def)
  then show "bview t = bview s" using bview_cached [OF inv h(8)] h(4) k by (auto simp: bufs)
  show "bio_frame s t" by (simp add: bio_frame_def t)
  have "dirty_bufs t = insert b (dirty_bufs s)" using h(1) by (auto simp: dirty_bufs_def bufs)
  moreover have "b_blockno (bufs t c) = b_blockno (bufs s c)" for c by (simp add: bufs)
  ultimately show "dirty_blocks t = insert k (dirty_blocks s)" using k by (simp add: dirty_blocks_def)
qed

interpretation bufs_upd: machine_upd "bufs_update f" for f by unfold_locales simp_all

lemma bio_inv_disk:
  assumes "bio_inv {} s" and "\<And>k. length (d k) = BSIZE" and "\<And>b. \<not> b_valid (bufs s b)"
  shows "bio_inv {} (s\<lparr>disk := d\<rparr>)"
  using assms by (simp add: bio_inv_def buf_ok_def has_sl_def)

section \<open>Properties\<close>

lemma sample_bio_fields:
  "bufs (sample_bio m) b = \<lparr>b_valid = False, b_dirty = False, b_dev = 0, b_blockno = 0,
     b_refcnt = 0, b_data = replicate BSIZE 0\<rparr>"
  "lru (sample_bio m) = [0..<NBUF]" "disk (sample_bio m) k = replicate BSIZE 0"
  "disksize (sample_bio m) = 1000" "disk_writes (sample_bio m) = []" "bio_state.more (sample_bio m) = m"
  by (simp_all add: sample_bio_def sample_sl_def sample_pipes_def sample_proc_def sample_kmem_def
      sample_machine_def del: upt_rec_numeral)

lemma sample_bio_inv [simp]: "bio_inv {} (sample_bio m)"
proof -
  have "calm (sample_bio m)" "procs (sample_bio m) = sample_procs" "me (sample_bio m) = Some 0"
      "sl_locked (sleeplocks (sample_bio m) lk) = 0" for lk
    by (simp_all add: sample_bio_def)
  moreover have "bufs (sample_bio m) b = \<lparr>b_valid = False, b_dirty = False, b_dev = 0, b_blockno = 0,
      b_refcnt = 0, b_data = replicate BSIZE 0\<rparr>" "lru (sample_bio m) = [0..<NBUF]"
      "disk (sample_bio m) k = replicate BSIZE 0" for b k
    by (simp_all add: sample_bio_fields)
  ultimately show ?thesis
    by (simp add: bio_inv_def buf_ok_def sample_procs_def lessThan_atLeast0 del: upt_rec_numeral)
qed

lemma sample_bio_clean: "dirty_bufs (sample_bio m) = {}" "dirty_blocks (sample_bio m) = {}"
  by (simp_all add: dirty_bufs_def dirty_blocks_def sample_bio_fields)

text \<open>
  C9: the buffer cache is transparent. \<open>bread\<close> returns a locked buffer with the current content
  of the block; after the caller changes it, \<open>bwrite\<close> puts it on the disk, \<open>brelse\<close> gives the
  buffer back, and the next \<open>bread\<close> of the block returns what was written. No other block of the
  disk changes.
\<close>

theorem bio_read_write:
  assumes inv: "bio_inv {} s" and k: "k < disksize s" and room: "card (dirty_bufs s) < NBUF"
    and v: "length v = BSIZE"
  shows "\<exists>b t u w c x. bread 1 k s = Ok b t \<and> b_data (bufs t b) = bview s k \<and>
    bwrite b (upd_buf b (\<lambda>y. y\<lparr>b_data := v\<rparr>) t) = Ok () u \<and> brelse b u = Ok () w \<and>
    bio_inv {} w \<and> disk w = (disk s)(k := v) \<and> bread 1 k w = Ok c x \<and> b_data (bufs x c) = v"
proof -
  obtain b t where r: "bread 1 k s = Ok b t" "bio_inv {b} t" "b_blockno (bufs t b) = k"
      "b_data (bufs t b) = bview s k" "bview t = bview s" "disk t = disk s" "bio_frame s t"
      "dirty_bufs t = dirty_bufs s"
    using bread_spec [OF inv k] room by auto
  let ?t = "upd_buf b (\<lambda>y. y\<lparr>b_data := v\<rparr>) t"
  have m: "bio_inv {b} ?t" "bview ?t = (bview t)(k := v)" "dirty_bufs ?t = dirty_bufs t" "bio_frame t ?t"
    using set_data_spec [OF r(2) _ r(3) v refl] by simp_all
  obtain u where w: "bwrite b ?t = Ok () u" "bio_inv {b} u" "bview u = bview ?t"
      "disk u = (disk ?t)(k := bview ?t k)" "bio_frame ?t u" "b_data (bufs u b) = disk u k"
      "bufs u b = (bufs ?t b)\<lparr>b_dirty := False\<rparr>" "dirty_bufs u = dirty_bufs ?t - {b}"
    using bwrite_spec [OF m(1), of b k] r(3) by auto
  have "b_data (bufs u b) = disk u (b_blockno (bufs u b))" using w(6,7) r(3) by simp
  then obtain w' where x: "brelse b u = Ok () w'" "bio_inv {} w'" "bview w' = bview u"
      "disk w' = disk u" "bio_frame u w'" "dirty_bufs w' = dirty_bufs u"
    using brelse_spec [OF w(2), of b] by auto
  have "finite (dirty_bufs s)" by (simp add: dirty_bufs_def)
  then have "card (dirty_bufs w') < NBUF"
    using room x(6) w(8) m(3) r(8) by (metis card_Diff1_le le_less_trans)
  moreover have "k < disksize w'" using k r(7) m(4) w(5) x(5) by (simp add: bio_frame_def)
  ultimately obtain c y where "bread 1 k w' = Ok c y" "b_data (bufs y c) = bview w' k"
    using bread_spec [OF x(2), of k] by auto
  then show ?thesis using r w m x by (intro exI conjI) simp_all
qed

theorem bio_read_write_witness:
  "\<exists>b t u w. bread 1 3 (sample_bio ()) = Ok b t \<and>
     bwrite b (upd_buf b (\<lambda>y. y\<lparr>b_data := replicate BSIZE 7\<rparr>) t) = Ok () u \<and> brelse b u = Ok () w \<and>
     disk w 3 = replicate BSIZE 7"
proof -
  have "3 < disksize (sample_bio ())" by (simp add: sample_bio_fields)
  moreover have "card (dirty_bufs (sample_bio ())) < NBUF" by (simp add: sample_bio_clean)
  ultimately show ?thesis
    using bio_read_write [of "sample_bio ()" 3 "replicate BSIZE 7"] by auto
qed

end
