(* ===== verification/Diskfmt.thy ===== *)
theory Diskfmt
  imports Strings
begin

text \<open>
  The on-disk format, \<open>src/fs.h\<close> and \<open>struct logheader\<close> of \<open>src/log.c\<close>: the structures
  and their layout in the bytes of a block (little-endian words, no padding), with the
  macros that locate inodes and bitmap bits.
\<close>

section \<open>Words in a block\<close>

definition get16 :: "uchar list \<Rightarrow> nat \<Rightarrow> ushort" where
  "get16 d o' = un16 (d ! o') (d ! (o' + 1))"

definition get32 :: "uchar list \<Rightarrow> nat \<Rightarrow> uint" where
  "get32 d o' = un32 (d ! o') (d ! (o' + 1)) (d ! (o' + 2)) (d ! (o' + 3))"

text \<open>Bytes stored over a part of a block.\<close>

definition put_bytes :: "uchar list \<Rightarrow> nat \<Rightarrow> uchar list \<Rightarrow> uchar list" where
  "put_bytes d o' bs = take o' d @ bs @ drop (o' + length bs) d"

definition put32 :: "uchar list \<Rightarrow> nat \<Rightarrow> uint \<Rightarrow> uchar list" where
  "put32 d o' w = put_bytes d o' (le32 w)"

section \<open>Structures\<close>

abbreviation (input) NDIRECT :: nat where "NDIRECT \<equiv> 12"
abbreviation (input) NINDIRECT :: nat where "NINDIRECT \<equiv> 128"
abbreviation (input) MAXFILE :: nat where "MAXFILE \<equiv> 140"
abbreviation (input) DIRSIZ :: nat where "DIRSIZ \<equiv> 14"
abbreviation (input) IPB :: nat where "IPB \<equiv> 8"
abbreviation (input) BPB :: uint where "BPB \<equiv> 4096"
abbreviation (input) LOGSIZE :: nat where "LOGSIZE \<equiv> 30"
abbreviation (input) sizeof_dirent :: nat where "sizeof_dirent \<equiv> 16"
abbreviation (input) sizeof_dinode :: nat where "sizeof_dinode \<equiv> 64"

abbreviation (input) T_DIR :: ushort where "T_DIR \<equiv> 1"
abbreviation (input) T_FILE :: ushort where "T_FILE \<equiv> 2"
abbreviation (input) T_DEV :: ushort where "T_DEV \<equiv> 3"

record superblock =
  sb_size :: uint
  sb_nblocks :: uint
  sb_ninodes :: uint
  sb_nlog :: uint
  sb_logstart :: uint
  sb_inodestart :: uint
  sb_bmapstart :: uint

record dinode =
  di_type :: ushort
  di_major :: ushort
  di_minor :: ushort
  di_nlink :: ushort
  di_size :: uint
  di_addrs :: "uint list"

record dirent =
  de_inum :: ushort
  de_name :: "uchar list"

definition IBLOCK :: "uint \<Rightarrow> superblock \<Rightarrow> uint" where
  "IBLOCK i sb = i div 8 + sb_inodestart sb"

definition BBLOCK :: "uint \<Rightarrow> superblock \<Rightarrow> uint" where
  "BBLOCK b sb = b div BPB + sb_bmapstart sb"

section \<open>Encoding\<close>

definition enc_superblock :: "superblock \<Rightarrow> uchar list" where
  "enc_superblock sb = concat (map le32
     [sb_size sb, sb_nblocks sb, sb_ninodes sb, sb_nlog sb, sb_logstart sb, sb_inodestart sb,
      sb_bmapstart sb])"

definition dec_superblock :: "uchar list \<Rightarrow> superblock" where
  "dec_superblock d = \<lparr>sb_size = get32 d 0, sb_nblocks = get32 d 4, sb_ninodes = get32 d 8,
     sb_nlog = get32 d 12, sb_logstart = get32 d 16, sb_inodestart = get32 d 20,
     sb_bmapstart = get32 d 24\<rparr>"

definition enc_words :: "uint list \<Rightarrow> uchar list" where
  "enc_words ws = concat (map le32 ws)"

definition dec_words :: "uchar list \<Rightarrow> nat \<Rightarrow> nat \<Rightarrow> uint list" where
  "dec_words d o' n = map (\<lambda>i. get32 d (o' + 4 * i)) [0..<n]"

definition enc_dinode :: "dinode \<Rightarrow> uchar list" where
  "enc_dinode x = le16 (di_type x) @ le16 (di_major x) @ le16 (di_minor x) @ le16 (di_nlink x) @
     le32 (di_size x) @ enc_words (di_addrs x)"

definition dec_dinode :: "uchar list \<Rightarrow> nat \<Rightarrow> dinode" where
  "dec_dinode d o' = \<lparr>di_type = get16 d o', di_major = get16 d (o' + 2),
     di_minor = get16 d (o' + 4), di_nlink = get16 d (o' + 6), di_size = get32 d (o' + 8),
     di_addrs = dec_words d (o' + 12) (NDIRECT + 1)\<rparr>"

definition enc_dirent :: "dirent \<Rightarrow> uchar list" where
  "enc_dirent x = le16 (de_inum x) @ de_name x"

definition dec_dirent :: "uchar list \<Rightarrow> dirent" where
  "dec_dirent d = \<lparr>de_inum = get16 d 0, de_name = take DIRSIZ (drop 2 d)\<rparr>"

section \<open>Round trips\<close>

lemma length_put_bytes [simp]:
  "o' + length bs \<le> length d \<Longrightarrow> length (put_bytes d o' bs) = length d"
  by (simp add: put_bytes_def)

lemma length_put32 [simp]: "o' + 4 \<le> length d \<Longrightarrow> length (put32 d o' w) = length d"
  by (simp add: put32_def)

lemma nth_put_bytes:
  assumes "o' + length bs \<le> length d" and "i < length d"
  shows "put_bytes d o' bs ! i = (if o' \<le> i \<and> i < o' + length bs then bs ! (i - o') else d ! i)"
  using assms by (auto simp: put_bytes_def nth_append)

lemma get32_append_le32: "get32 (xs @ le32 w @ ys) (length xs) = w"
  by (simp add: get32_def le32_def nth_append)

lemma get16_append_le16: "get16 (xs @ le16 w @ ys) (length xs) = w"
  by (simp add: get16_def le16_def nth_append)

lemma get32_put32_same: "o' + 4 \<le> length d \<Longrightarrow> get32 (put32 d o' w) o' = w"
  using get32_append_le32 [of "take o' d" w "drop (o' + 4) d"]
  by (simp add: put32_def put_bytes_def min_def)

lemma get32_put_bytes_other:
  assumes "o' + length bs \<le> length d" and "i + 4 \<le> length d"
    and "i + 4 \<le> o' \<or> o' + length bs \<le> i"
  shows "get32 (put_bytes d o' bs) i = get32 d i"
  using assms by (auto simp: get32_def nth_put_bytes)

lemma get32_put32_other:
  assumes "o' + 4 \<le> length d" and "i + 4 \<le> length d" and "i + 4 \<le> o' \<or> o' + 4 \<le> i"
  shows "get32 (put32 d o' w) i = get32 d i"
  using assms by (simp add: put32_def get32_put_bytes_other)

lemma length_enc_words [simp]: "length (enc_words ws) = 4 * length ws"
  by (induction ws) (simp_all add: enc_words_def)

lemma get32_enc_words:
  assumes "i < length ws"
  shows "get32 (xs @ enc_words ws @ ys) (length xs + 4 * i) = ws ! i"
proof -
  have "enc_words ws = enc_words (take i ws) @ le32 (ws ! i) @ enc_words (drop (Suc i) ws)"
    using id_take_nth_drop [OF assms] by (metis concat_append enc_words_def list.simps(9)
        concat.simps(2) map_append)
  moreover have "length (xs @ enc_words (take i ws)) = length xs + 4 * i"
    using assms by simp
  ultimately show ?thesis
    by (metis append.assoc get32_append_le32)
qed

lemma dec_enc_words: "dec_words (xs @ enc_words ws @ ys) (length xs) (length ws) = ws"
  by (auto simp: dec_words_def get32_enc_words intro!: nth_equalityI)

lemma get16_shift: "get16 (xs @ ys) (length xs + k) = get16 ys k"
  by (simp add: get16_def nth_append)

lemma get32_shift: "get32 (xs @ ys) (length xs + k) = get32 ys k"
  by (simp add: get32_def nth_append)

lemma dec_words_shift: "dec_words (xs @ ys) (length xs + k) n = dec_words ys k n"
  by (simp add: dec_words_def get32_shift add.assoc)

lemma dec_dinode_shift: "dec_dinode (xs @ ys) (length xs) = dec_dinode ys 0"
  using get16_shift [of xs ys 0] get16_shift [of xs ys 2] dec_words_shift [of xs ys 12]
  by (simp add: dec_dinode_def get16_shift get32_shift numeral_2_eq_2)

lemma dec_enc_dinode:
  assumes "length (di_addrs x) = NDIRECT + 1"
  shows "dec_dinode (xs @ enc_dinode x @ ys) (length xs) = x"
proof -
  let ?h = "le16 (di_type x) @ le16 (di_major x) @ le16 (di_minor x) @ le16 (di_nlink x) @
     le32 (di_size x)"
  have "dec_words (?h @ enc_words (di_addrs x) @ ys) 12 13 = di_addrs x"
    using dec_enc_words [of ?h "di_addrs x" ys] assms by simp
  then show ?thesis
    unfolding dec_dinode_shift
    by (simp add: dec_dinode_def enc_dinode_def get16_def get32_def le16_def le32_def)
qed

lemma length_enc_dinode [simp]:
  "length (di_addrs x) = NDIRECT + 1 \<Longrightarrow> length (enc_dinode x) = sizeof_dinode"
  by (simp add: enc_dinode_def)

lemma dec_enc_dirent:
  "length (de_name x) = DIRSIZ \<Longrightarrow> dec_dirent (enc_dirent x) = x"
  by (simp add: dec_dirent_def enc_dirent_def get16_def le16_def)

lemma length_enc_dirent [simp]:
  "length (de_name x) = DIRSIZ \<Longrightarrow> length (enc_dirent x) = sizeof_dirent"
  by (simp add: enc_dirent_def)

lemma dec_enc_superblock: "dec_superblock (enc_superblock sb @ ys) = sb"
  by (simp add: dec_superblock_def enc_superblock_def get32_def le32_def)

text \<open>A block holds eight inodes; storing one leaves the other seven alone.\<close>

lemma put_dinode_same:
  assumes "length d = 512" and "k < IPB" and "length (di_addrs x) = NDIRECT + 1"
  shows "dec_dinode (put_bytes d (k * sizeof_dinode) (enc_dinode x)) (k * sizeof_dinode) = x"
  using dec_enc_dinode [OF assms(3), of "take (k * 64) d"] assms(1,2)
  by (simp add: put_bytes_def)

lemma put_dinode_other:
  assumes "length d = 512" and "k < IPB" and "j < IPB" and "j \<noteq> k"
    and "length (di_addrs x) = NDIRECT + 1"
  shows "dec_dinode (put_bytes d (k * sizeof_dinode) (enc_dinode x)) (j * sizeof_dinode) =
    dec_dinode d (j * sizeof_dinode)"
proof -
  have apart: "j * 64 + 64 \<le> k * 64 \<or> k * 64 + 64 \<le> j * 64"
    using assms(4) by (cases "j < k") auto
  have len: "length (enc_dinode x) = 64" using assms(5) by simp
  have b: "put_bytes d (k * 64) (enc_dinode x) ! i = d ! i" if "j * 64 \<le> i" "i < j * 64 + 64" for i
    using that apart assms len by (subst nth_put_bytes) auto
  show ?thesis
    by (auto simp: dec_dinode_def dec_words_def get16_def get32_def b)
qed

section \<open>Properties\<close>





end
