(* ===== verification/Log.thy ===== *)
theory Log
  imports Bio Diskfmt
begin

text \<open>
  The write-ahead log, \<open>src/log.c\<close>, and \<open>readsb\<close> of \<open>src/fs.c\<close> on which it depends. The
  in-memory header is \<open>lh_n\<close> and \<open>lh_block\<close>; its on-disk copy is the block at
  \<open>log_start\<close>. A header read from disk whose count exceeds \<open>LOGSIZE\<close> would be copied
  past the end of the in-memory array (\<open>Undef\<close>).
\<close>

section \<open>State\<close>

abbreviation (input) MAXOPBLOCKS :: int where "MAXOPBLOCKS \<equiv> 10"

record log_state = bio_state +
  log_start :: uint
  log_size :: int
  outstanding :: int
  committing :: bool
  log_dev :: uint
  lh_n :: int
  lh_block :: "uint list"

section \<open>Operations\<close>

definition set_data :: "nat \<Rightarrow> (uchar list \<Rightarrow> uchar list) \<Rightarrow> ('a bio_state_scheme, unit) kop" where
  "set_data b f = modk (upd_buf b (\<lambda>x. x\<lparr>b_data := f (b_data x)\<rparr>))"

definition get_data :: "nat \<Rightarrow> ('a bio_state_scheme, uchar list) kop" where
  "get_data b = getk (\<lambda>s. b_data (bufs s b))"

definition readsb :: "uint \<Rightarrow> ('a bio_state_scheme, superblock) kop" where
  "readsb dev =
     bindk (bread dev 1) (\<lambda>bp.
     bindk (get_data bp) (\<lambda>d.
     thenk (brelse bp) (
     returnk (dec_superblock d))))"

definition install_one :: "nat \<Rightarrow> ('a log_state_scheme, unit) kop" where
  "install_one tail =
     bindk (getk (\<lambda>s. (log_dev s, log_start s, lh_block s ! tail))) (\<lambda>(dev, start, blk).
     bindk (bread dev (start + of_nat tail + 1)) (\<lambda>lbuf.
     bindk (bread dev blk) (\<lambda>dbuf.
     bindk (get_data lbuf) (\<lambda>d.
     thenk (set_data dbuf (\<lambda>_. d)) (
     thenk (bwrite dbuf) (
     thenk (brelse lbuf) (
     brelse dbuf)))))))"

definition install_trans :: "('a log_state_scheme, unit) kop" where
  "install_trans =
     bindk (getk lh_n) (\<lambda>n.
     foreachk [0..<nat n] install_one)"

definition read_head :: "('a log_state_scheme, unit) kop" where
  "read_head =
     bindk (getk (\<lambda>s. (log_dev s, log_start s))) (\<lambda>(dev, start).
     bindk (bread dev start) (\<lambda>b.
     bindk (get_data b) (\<lambda>d.
     (let n = sint (get32 d 0) in
     if n > int LOGSIZE then stopk (Undef ''read_head: log.lh.block overflow'')
     else
     thenk (modk (\<lambda>s. s\<lparr>lh_n := n, lh_block :=
       dec_words d 4 (nat n) @ drop (nat n) (lh_block s)\<rparr>)) (
     brelse b)))))"

definition enc_head :: "int \<Rightarrow> uint list \<Rightarrow> uchar list \<Rightarrow> uchar list" where
  "enc_head n bl d = put_bytes d 0 (le32 (of_int n) @ enc_words (take (nat n) bl))"

definition write_head :: "('a log_state_scheme, unit) kop" where
  "write_head =
     bindk (getk (\<lambda>s. (log_dev s, log_start s))) (\<lambda>(dev, start).
     bindk (bread dev start) (\<lambda>b.
     bindk (getk (\<lambda>s. (lh_n s, lh_block s))) (\<lambda>(n, bl).
     thenk (set_data b (enc_head n bl)) (
     thenk (bwrite b) (
     brelse b)))))"

definition recover_from_log :: "('a log_state_scheme, unit) kop" where
  "recover_from_log =
     thenk read_head (
     thenk install_trans (
     thenk (modk (\<lambda>s. s\<lparr>lh_n := 0\<rparr>)) (
     write_head)))"

definition initlog :: "uint \<Rightarrow> ('a log_state_scheme, unit) kop" where
  "initlog dev =
     thenk (initlock LogLock ''log'') (
     bindk (readsb dev) (\<lambda>sb.
     thenk (modk (\<lambda>s. s\<lparr>log_start := sb_logstart sb, log_size := sint (sb_nlog sb),
       log_dev := dev\<rparr>)) (
     recover_from_log)))"

definition begin_op_loop :: "('a log_state_scheme, unit) kop" where
  "begin_op_loop =
     bindk (getk (\<lambda>s. (committing s, lh_n s, outstanding s))) (\<lambda>(c, n, out).
     if c then sleep ChanLog LogLock
     else if n + (out + 1) * MAXOPBLOCKS > int LOGSIZE then sleep ChanLog LogLock
     else
     thenk (modk (\<lambda>s. s\<lparr>outstanding := outstanding s + 1\<rparr>)) (
     release LogLock))"

definition begin_op :: "('a log_state_scheme, unit) kop" where
  "begin_op = thenk (acquire LogLock) begin_op_loop"

definition begin_op_resume :: "nat \<times> nat \<Rightarrow> bool \<Rightarrow> ('a log_state_scheme, unit) kop" where
  "begin_op_resume t i = thenk (sleep_resume t i LogLock) begin_op_loop"

definition write_log_one :: "nat \<Rightarrow> ('a log_state_scheme, unit) kop" where
  "write_log_one tail =
     bindk (getk (\<lambda>s. (log_dev s, log_start s, lh_block s ! tail))) (\<lambda>(dev, start, blk).
     bindk (bread dev (start + of_nat tail + 1)) (\<lambda>to.
     bindk (bread dev blk) (\<lambda>from.
     bindk (get_data from) (\<lambda>d.
     thenk (set_data to (\<lambda>_. d)) (
     thenk (bwrite to) (
     thenk (brelse from) (
     brelse to)))))))"

definition write_log :: "('a log_state_scheme, unit) kop" where
  "write_log =
     bindk (getk lh_n) (\<lambda>n.
     foreachk [0..<nat n] write_log_one)"

definition commit :: "('a log_state_scheme, unit) kop" where
  "commit =
     bindk (getk lh_n) (\<lambda>n.
     whenk (n > 0) (
       thenk write_log (
       thenk write_head (
       thenk install_trans (
       thenk (modk (\<lambda>s. s\<lparr>lh_n := 0\<rparr>)) (
       write_head))))))"

definition end_op :: "('a log_state_scheme, unit) kop" where
  "end_op =
     thenk (acquire LogLock) (
     thenk (modk (\<lambda>s. s\<lparr>outstanding := outstanding s - 1\<rparr>)) (
     bindk (getk (\<lambda>s. (committing s, outstanding s))) (\<lambda>(c, out).
     if c then panick ''log.committing''
     else
     bindk (if out = 0 then
              thenk (modk (\<lambda>s. s\<lparr>committing := True\<rparr>)) (returnk True)
            else
              thenk (wakeup ChanLog) (returnk False)) (\<lambda>do_commit.
     thenk (release LogLock) (
     whenk do_commit (
       thenk commit (
       thenk (acquire LogLock) (
       thenk (modk (\<lambda>s. s\<lparr>committing := False\<rparr>)) (
       thenk (wakeup ChanLog) (
       release LogLock)))))))))) "

text \<open>The slot \<open>log_write\<close> uses: the first that already holds the block, else the next free one.\<close>

definition absorb :: "uint \<Rightarrow> nat \<Rightarrow> uint list \<Rightarrow> nat" where
  "absorb blk n bl = (case find (\<lambda>i. bl ! i = blk) [0..<n] of Some i \<Rightarrow> i | None \<Rightarrow> n)"

definition log_write :: "nat \<Rightarrow> ('a log_state_scheme, unit) kop" where
  "log_write b =
     bindk (getk (\<lambda>s. (lh_n s, log_size s, outstanding s))) (\<lambda>(n, size, out).
     if n \<ge> int LOGSIZE \<or> n \<ge> size - 1 then panick ''too big a transaction''
     else if out < 1 then panick ''log_write outside of trans''
     else
     thenk (acquire LogLock) (
     bindk (getk (\<lambda>s. absorb (b_blockno (bufs s b)) (nat (lh_n s)) (lh_block s))) (\<lambda>i.
     thenk (modk (\<lambda>s. s\<lparr>lh_block := (lh_block s)[i := b_blockno (bufs s b)]\<rparr>)) (
     thenk (modk (\<lambda>s. if int i = lh_n s then s\<lparr>lh_n := lh_n s + 1\<rparr> else s)) (
     thenk (modk (upd_buf b (\<lambda>x. x\<lparr>b_dirty := True\<rparr>))) (
     release LogLock))))))"

section \<open>Notions used to state what the operations do\<close>

text \<open>The header block and the log blocks that follow it.\<close>

definition log_region :: "uint \<Rightarrow> uint set" where
  "log_region start = (\<lambda>i. start + of_nat i) ` {..LOGSIZE}"

definition log_blocks :: "'a log_state_scheme \<Rightarrow> uint list" where
  "log_blocks s = take (nat (lh_n s)) (lh_block s)"

text \<open>
  The state between transactions or inside one that has not begun to commit: the dirty
  blocks of the cache are those the in-memory header lists, and the header on disk is
  empty.
\<close>

definition log_ok :: "'a log_state_scheme \<Rightarrow> bool" where
  "log_ok s \<longleftrightarrow> bio_inv {} s \<and> log_dev s = 1 \<and> length (lh_block s) = LOGSIZE \<and>
     0 \<le> lh_n s \<and> lh_n s < int LOGSIZE \<and> distinct (log_blocks s) \<and>
     dirty_blocks s = set (log_blocks s) \<and>
     (\<forall>k \<in> set (log_blocks s). k \<notin> log_region (log_start s) \<and> k < disksize s) \<and>
     unat (log_start s) + LOGSIZE < unat (disksize s) \<and> get32 (disk s (log_start s)) 0 = 0"

text \<open>The blocks \<open>commit\<close> writes, in order: the log, its header, the home blocks, the empty header.\<close>

definition log_copies :: "'a log_state_scheme \<Rightarrow> (uint \<times> uchar list) list" where
  "log_copies s = map (\<lambda>i. (log_start s + of_nat i + 1, bview s (log_blocks s ! i))) [0..<length (log_blocks s)]"

definition log_header :: "'a log_state_scheme \<Rightarrow> uchar list" where
  "log_header s = enc_head (lh_n s) (lh_block s) (bview s (log_start s))"

definition home_copies :: "'a log_state_scheme \<Rightarrow> (uint \<times> uchar list) list" where
  "home_copies s = map (\<lambda>i. (log_blocks s ! i, bview s (log_blocks s ! i))) [0..<length (log_blocks s)]"

definition commit_writes :: "'a log_state_scheme \<Rightarrow> (uint \<times> uchar list) list" where
  "commit_writes s = log_copies s @ [(log_start s, log_header s)] @ home_copies s @
     [(log_start s, enc_head 0 (lh_block s) (log_header s))]"

definition same_outside :: "uint set \<Rightarrow> (uint \<Rightarrow> uchar list) \<Rightarrow> (uint \<Rightarrow> uchar list) \<Rightarrow> bool" where
  "same_outside R d e \<longleftrightarrow> (\<forall>k. k \<notin> R \<longrightarrow> d k = e k)"

text \<open>A machine that has just booted with the disk \<open>d\<close>: nothing is cached dirty.\<close>

definition booted :: "(uint \<Rightarrow> uchar list) \<Rightarrow> uint \<Rightarrow> 'a log_state_scheme \<Rightarrow> bool" where
  "booted d n r \<longleftrightarrow> bio_inv {} r \<and> dirty_bufs r = {} \<and> disk r = d \<and> disksize r = n \<and>
     length (lh_block r) = LOGSIZE"

definition sample_log :: "'a \<Rightarrow> 'a log_state_scheme" where
  "sample_log m = (sample_bio (log_state_ext 2 30 1 False 1 1 (50 # replicate 29 0) m))\<lparr>
     bufs := (\<lambda>b. \<lparr>b_valid = (b = 0), b_dirty = (b = 0), b_dev = (if b = 0 then 1 else 0), b_blockno = 50,
       b_refcnt = 0, b_data = replicate BSIZE 7\<rparr>),
     disk := (\<lambda>_. replicate BSIZE 0)(1 := enc_superblock \<lparr>sb_size = 1000, sb_nblocks = 941, sb_ninodes = 200,
       sb_nlog = 30, sb_logstart = 2, sb_inodestart = 32, sb_bmapstart = 58\<rparr> @ replicate 484 0)\<rparr>"

definition sample_boot :: "(uint \<Rightarrow> uchar list) \<Rightarrow> 'a \<Rightarrow> 'a log_state_scheme" where
  "sample_boot d m = (sample_bio (log_state_ext 0 0 0 False 0 0 (replicate 30 0) m))\<lparr>disk := d\<rparr>"

section \<open>The blocks of the log\<close>

lemma log_region_simps [simp]:
  "start \<in> log_region start" "i < LOGSIZE \<Longrightarrow> start + of_nat i + 1 \<in> log_region start"
  unfolding log_region_def by (rule image_eqI [of _ _ 0]; simp) (rule image_eqI [of _ _ "Suc i"]; simp)

lemma log_addr:
  assumes "unat (start :: uint) + LOGSIZE < unat (n :: uint)" and "i < LOGSIZE"
  shows "unat (start + of_nat i + 1) = unat start + i + 1" and "start + of_nat i + 1 < n" and "start < n"
    and "start + of_nat i + 1 \<noteq> start"
proof -
  have "unat n < 2 ^ 32" using unsigned_less [of n] by simp
  then have lt: "unat start + i + 1 < 2 ^ 32" using assms by simp
  have eq: "start + of_nat i + 1 = of_nat (unat start + i + 1)" by simp
  show u: "unat (start + of_nat i + 1) = unat start + i + 1"
    unfolding eq unat_of_nat using lt by simp
  show "start + of_nat i + 1 < n" "start < n" using u assms by (simp_all add: word_less_nat_alt)
  show "start + of_nat i + 1 \<noteq> start"
  proof
    assume "start + of_nat i + 1 = start"
    from arg_cong [OF this, of unat] show False unfolding u by simp
  qed
qed

lemma log_addr_inj:
  assumes "unat (start :: uint) + LOGSIZE < unat (n :: uint)" and "i < LOGSIZE" and "j < LOGSIZE"
    and "start + of_nat i + 1 = start + of_nat j + 1"
  shows "i = j"
  using arg_cong [OF assms(4), of unat]
  unfolding log_addr(1) [OF assms(1,2)] log_addr(1) [OF assms(1,3)] by simp

section \<open>Copying one block to another\<close>

lemma copy_held:
  assumes inv: "bio_inv {b, c} s" and ne: "b \<noteq> c" "src \<noteq> dst"
    and no: "b_blockno (bufs s b) = dst" "b_blockno (bufs s c) = src"
    and c: "b_data (bufs s c) = bview s src" "\<not> b_dirty (bufs s c) \<Longrightarrow> bview s src = disk s src"
  shows "\<exists>t. bindk (get_data c) (\<lambda>d. thenk (set_data b (\<lambda>_. d)) (thenk (bwrite b) (thenk (brelse c) (brelse b)))) s
      = Ok () t \<and> wrote [(dst, bview s src)] s t"
proof -
  let ?t = "upd_buf b (\<lambda>x. x\<lparr>b_data := bview s src\<rparr>) s"
  have m: "bio_inv {b, c} ?t" "bview ?t = (bview s)(dst := bview s src)" "bio_frame s ?t"
      "dirty_bufs ?t = dirty_bufs s" "dirty_blocks ?t = dirty_blocks s"
    using set_data_spec [OF inv _ no(1) bview_length [OF inv] refl] by simp_all
  obtain u where w: "bwrite b ?t = Ok () u" "bio_inv {b, c} u" "bview u = bview ?t"
      "disk u = (disk s)(dst := bview s src)" "disk_writes u = disk_writes s @ [(dst, bview s src)]"
      "bio_frame ?t u" "bufs u c = bufs s c" "b_data (bufs u b) = disk u dst" "b_blockno (bufs u b) = dst"
      "dirty_bufs u = dirty_bufs s - {b}" "dirty_blocks u = dirty_blocks s - {dst}"
    using bwrite_spec [OF m(1), of b dst] no(1) ne m(2,4,5) by auto
  obtain v where v: "brelse c u = Ok () v" "bio_inv {b} v" "bview v = bview u" "disk v = disk u"
      "disk_writes v = disk_writes u" "bio_frame u v" "bufs v b = bufs u b"
      "dirty_bufs v = dirty_bufs u" "dirty_blocks v = dirty_blocks u"
    using brelse_spec [OF w(2), of c] c ne no(2) w(4,7) by (auto simp: insert_Diff_if)
  obtain x where x: "brelse b v = Ok () x" "bio_inv {} x" "bview x = bview v" "disk x = disk v"
      "disk_writes x = disk_writes v" "bio_frame v x" "dirty_bufs x = dirty_bufs v"
      "dirty_blocks x = dirty_blocks v"
    using brelse_spec [OF v(2), of b] v(4,7) w(8,9) by auto
  have "finite (dirty_bufs s)" by (simp add: dirty_bufs_def)
  then have "card (dirty_bufs x) \<le> card (dirty_bufs s)" using x v w by (simp add: card_Diff1_le)
  then have "wrote [(dst, bview s src)] s x"
    using x v w m by (simp add: wrote_def bio_frame_def)
  moreover have "set_data b (\<lambda>_. bview s src) s = Ok () ?t" by (simp add: set_data_def kop_defs)
  ultimately show ?thesis
    using x(1) v(1) w(1) c(1) by (simp add: kop_defs get_data_def)
qed

lemma copy_dst_first:
  assumes inv: "bio_inv {} s" and k: "dst < disksize s" "src < disksize s" "src \<noteq> dst"
    and room: "card (dirty_bufs s) < NBUF" "src \<in> dirty_blocks s \<or> Suc (card (dirty_bufs s)) < NBUF"
  shows "\<exists>t. bindk (bread 1 dst) (\<lambda>b. bindk (bread 1 src) (\<lambda>c. bindk (get_data c) (\<lambda>d.
      thenk (set_data b (\<lambda>_. d)) (thenk (bwrite b) (thenk (brelse c) (brelse b)))))) s = Ok () t \<and>
    wrote [(dst, bview s src)] s t"
proof -
  obtain b t where b: "bread 1 dst s = Ok b t" "bio_inv {b} t" "b_blockno (bufs t b) = dst"
      "bview t = bview s" "disk t = disk s" "disk_writes t = disk_writes s" "bio_frame s t"
      "dirty_bufs t = dirty_bufs s" "dirty_blocks t = dirty_blocks s"
    using bread_spec [OF inv k(1)] room(1) by auto
  have "card (dirty_bufs t \<union> {b}) \<le> Suc (card (dirty_bufs s))"
    using b(8) by (simp add: card_insert_le_m1 dirty_bufs_def card_insert_if)
  then have r: "src \<in> dirty_blocks t \<or> card (dirty_bufs t \<union> {b}) < NBUF" using room(2) b(9) by (metis order_le_less_trans)
  have "src < disksize t" using k(2) b(7) by (simp add: bio_frame_def)
  from bread_spec [OF b(2) this _ r] obtain c u where c: "bread 1 src t = Ok c u" "c \<noteq> b" "bio_inv {b, c} u"
      "b_blockno (bufs u c) = src" "b_data (bufs u c) = bview s src"
      "\<not> b_dirty (bufs u c) \<longrightarrow> bview s src = disk s src" "bview u = bview s" "disk u = disk s"
      "disk_writes u = disk_writes s" "bio_frame t u" "bufs u b = bufs t b"
      "dirty_bufs u = dirty_bufs s" "dirty_blocks u = dirty_blocks s"
    using b k(3) by (auto simp: insert_commute)
  from copy_held [OF c(3), of src dst] obtain x where
    x: "bindk (get_data c) (\<lambda>d. thenk (set_data b (\<lambda>_. d)) (thenk (bwrite b) (thenk (brelse c) (brelse b)))) u
      = Ok () x" "wrote [(dst, bview u src)] u x"
    using c b(3) k(3) by auto
  have "wrote [(dst, bview s src)] s x"
    using x(2) c b by (simp add: wrote_def bio_frame_def)
  then show ?thesis using x(1) b(1) c(1) by (simp add: bindk_def)
qed

lemma copy_src_first:
  assumes inv: "bio_inv {} s" and k: "dst < disksize s" "src < disksize s" "src \<noteq> dst"
    and room: "card (dirty_bufs s) < NBUF" "dst \<in> dirty_blocks s \<or> Suc (card (dirty_bufs s)) < NBUF"
  shows "\<exists>t. bindk (bread 1 src) (\<lambda>c. bindk (bread 1 dst) (\<lambda>b. bindk (get_data c) (\<lambda>d.
      thenk (set_data b (\<lambda>_. d)) (thenk (bwrite b) (thenk (brelse c) (brelse b)))))) s = Ok () t \<and>
    wrote [(dst, bview s src)] s t"
proof -
  obtain c t where c: "bread 1 src s = Ok c t" "bio_inv {c} t" "b_blockno (bufs t c) = src"
      "b_data (bufs t c) = bview s src" "\<not> b_dirty (bufs t c) \<longrightarrow> bview s src = disk s src"
      "bview t = bview s" "disk t = disk s" "disk_writes t = disk_writes s" "bio_frame s t"
      "dirty_bufs t = dirty_bufs s" "dirty_blocks t = dirty_blocks s"
    using bread_spec [OF inv k(2)] room(1) by auto
  have "card (dirty_bufs t \<union> {c}) \<le> Suc (card (dirty_bufs s))"
    using c(10) by (simp add: card_insert_le_m1 dirty_bufs_def card_insert_if)
  then have r: "dst \<in> dirty_blocks t \<or> card (dirty_bufs t \<union> {c}) < NBUF" using room(2) c(11) by (metis order_le_less_trans)
  have "dst < disksize t" using k(1) c(9) by (simp add: bio_frame_def)
  from bread_spec [OF c(2) this _ r] obtain b u where b: "bread 1 dst t = Ok b u" "b \<noteq> c" "bio_inv {b, c} u"
      "b_blockno (bufs u b) = dst" "bview u = bview s" "disk u = disk s"
      "disk_writes u = disk_writes s" "bio_frame t u" "bufs u c = bufs t c"
      "dirty_bufs u = dirty_bufs s" "dirty_blocks u = dirty_blocks s"
    using c k(3) by auto
  from copy_held [OF b(3), of src dst] obtain x where
    x: "bindk (get_data c) (\<lambda>d. thenk (set_data b (\<lambda>_. d)) (thenk (bwrite b) (thenk (brelse c) (brelse b)))) u
      = Ok () x" "wrote [(dst, bview u src)] u x"
    using b c k(3) by auto
  have "wrote [(dst, bview s src)] s x"
    using x(2) c b by (simp add: wrote_def bio_frame_def)
  then show ?thesis using x(1) b(1) c(1) by (simp add: bindk_def)
qed

interpretation lh_n_upd: bio_upd "lh_n_update f" for f by unfold_locales simp_all
interpretation lh_block_upd: bio_upd "lh_block_update f" for f by unfold_locales simp_all
interpretation log_start_upd: bio_upd "log_start_update f" for f by unfold_locales simp_all
interpretation log_size_upd: bio_upd "log_size_update f" for f by unfold_locales simp_all
interpretation log_dev_upd: bio_upd "log_dev_update f" for f by unfold_locales simp_all
interpretation outstanding_upd: bio_upd "outstanding_update f" for f by unfold_locales simp_all
interpretation committing_upd: bio_upd "committing_update f" for f by unfold_locales simp_all

lemma log_frame:
  fixes s t :: "'a log_state_scheme"
  assumes "bio_frame s t"
  shows "log_start t = log_start s" and "log_size t = log_size s" and "log_dev t = log_dev s"
    and "lh_n t = lh_n s" and "lh_block t = lh_block s" and "outstanding t = outstanding s"
    and "committing t = committing s"
  using assms by (cases s; cases t; simp add: bio_frame_def)+

lemma wrote_room: "wrote ws s t \<Longrightarrow> card (dirty_bufs t) \<le> card (dirty_bufs s)"
  by (simp add: wrote_def)

section \<open>The log header\<close>

lemma length_enc_head:
  "length d = BSIZE \<Longrightarrow> n \<le> int LOGSIZE \<Longrightarrow> length (enc_head n bl d) = BSIZE"
  by (simp add: enc_head_def)

lemma enc_head_decode:
  assumes "length d = BSIZE" and "0 \<le> n" "n \<le> int LOGSIZE" and "length bl = LOGSIZE"
  shows "sint (get32 (enc_head n bl d) 0) = n" and "dec_words (enc_head n bl d) 4 (nat n) = take (nat n) bl"
proof -
  have len: "length (take (nat n) bl) = nat n" using assms by simp
  then have e: "enc_head n bl d = le32 (of_int n) @ enc_words (take (nat n) bl) @ drop (4 + 4 * nat n) d"
    by (simp add: enc_head_def put_bytes_def)
  have "get32 (enc_head n bl d) 0 = of_int n"
    unfolding e using get32_append_le32 [of "[]"] by simp
  then show "sint (get32 (enc_head n bl d) 0) = n"
    using assms(2,3) by (simp add: sint_sbintrunc' signed_take_bit_int_eq_self)
  show "dec_words (enc_head n bl d) 4 (nat n) = take (nat n) bl"
    unfolding e using dec_enc_words [of "le32 (of_int n)" "take (nat n) bl"] len by simp
qed

section \<open>Runs of the log operations\<close>

lemma write_head_wrote:
  assumes inv: "bio_inv {} s" and "log_dev s = 1" and "log_start s < disksize s"
    and "card (dirty_bufs s) < NBUF" and "lh_n s \<le> int LOGSIZE"
  shows "\<exists>t. write_head s = Ok () t \<and>
    wrote [(log_start s, enc_head (lh_n s) (lh_block s) (bview s (log_start s)))] s t"
proof -
  let ?v = "enc_head (lh_n s) (lh_block s) (bview s (log_start s))"
  obtain b t where b: "bread 1 (log_start s) s = Ok b t" "bio_inv {b} t" "b_blockno (bufs t b) = log_start s"
      "b_data (bufs t b) = bview s (log_start s)" "bview t = bview s" "disk t = disk s"
      "disk_writes t = disk_writes s" "bio_frame s t" "dirty_bufs t = dirty_bufs s"
      "dirty_blocks t = dirty_blocks s"
    using bread_spec [OF inv assms(3)] assms(4) by auto
  note f = log_frame [OF b(8)]
  let ?t = "upd_buf b (\<lambda>x. x\<lparr>b_data := ?v\<rparr>) t"
  have "length ?v = BSIZE" using bview_length [OF inv] assms(5) by (rule length_enc_head)
  then have m: "bio_inv {b} ?t" "bview ?t = (bview s)(log_start s := ?v)" "bio_frame t ?t"
      "dirty_bufs ?t = dirty_bufs s" "dirty_blocks ?t = dirty_blocks s"
    using set_data_spec [OF b(2) _ b(3) _ refl, of ?v] b by simp_all
  obtain u where w: "bwrite b ?t = Ok () u" "bio_inv {b} u" "bview u = bview ?t"
      "disk u = (disk s)(log_start s := ?v)" "disk_writes u = disk_writes s @ [(log_start s, ?v)]"
      "bio_frame ?t u" "b_data (bufs u b) = disk u (log_start s)" "b_blockno (bufs u b) = log_start s"
      "dirty_bufs u = dirty_bufs s - {b}" "dirty_blocks u = dirty_blocks s - {log_start s}"
    using bwrite_spec [OF m(1), of b "log_start s"] b m by auto
  obtain v where v: "brelse b u = Ok () v" "bio_inv {} v" "bview v = bview u" "disk v = disk u"
      "disk_writes v = disk_writes u" "bio_frame u v" "dirty_bufs v = dirty_bufs u"
      "dirty_blocks v = dirty_blocks u"
    using brelse_spec [OF w(2), of b] w(7,8) by auto
  have "finite (dirty_bufs s)" by (simp add: dirty_bufs_def)
  then have "wrote [(log_start s, ?v)] s v"
    using v w m b by (simp add: wrote_def bio_frame_def card_Diff1_le)
  moreover have "upd_buf b (\<lambda>x. x\<lparr>b_data := enc_head (lh_n s) (lh_block s) (b_data x)\<rparr>) t = ?t"
    using b(4) by (intro upd_buf_cong) simp
  ultimately show ?thesis
    using assms(2) b(1) w(1) v(1) f by (simp add: write_head_def kop_defs set_data_def)
qed

lemma write_log_wrote:
  assumes inv: "bio_inv {} s" and dev: "log_dev s = 1" and n: "log_blocks s = bl" "length bl = nat (lh_n s)"
    and lt: "length bl < LOGSIZE" and sz: "unat (log_start s) + LOGSIZE < unat (disksize s)"
    and dirty: "dirty_blocks s = set bl" and bl: "\<And>k. k \<in> set bl \<Longrightarrow> k \<notin> log_region (log_start s) \<and> k < disksize s"
    and room: "card (dirty_bufs s) < NBUF"
  shows "\<exists>t. write_log s = Ok () t \<and>
    wrote (map (\<lambda>i. (log_start s + of_nat i + 1, bview s (bl ! i))) [0..<length bl]) s t"
proof -
  define W where "W i = map (\<lambda>i. (log_start s + of_nat i + 1, bview s (bl ! i))) [0..<i]" for i
  have "\<exists>t. foreachk [0..<length bl] write_log_one s = Ok () t \<and> wrote (W (length bl)) s t"
  proof (rule foreachk_upto [where P = "\<lambda>i. wrote (W i) s"])
    show "wrote (W 0) s s" using inv by (simp add: W_def wrote_refl)
    fix i t
    assume i: "i < length bl" and w: "wrote (W i) s t"
    let ?dst = "log_start s + of_nat i + 1" and ?src = "bl ! i"
    have fr: "bio_frame s t" and ti: "bio_inv {} t" using w by (simp_all add: wrote_def)
    note f = log_frame [OF fr]
    have src: "?src \<in> set bl" using i by simp
    have reg: "fst ` set (W i) \<subseteq> log_region (log_start s)"
      using i lt by (auto simp: W_def simp del: upt_rec_numeral)
    then have out: "?src \<notin> fst ` set (W i)" using bl [OF src] by blast
    have "?src \<in> dirty_blocks t" using w dirty src out by (simp add: wrote_def)
    moreover have "?dst < disksize t" "?src < disksize t"
      using log_addr(2) [OF sz, of i] i lt bl [OF src] fr by (simp_all add: bio_frame_def)
    moreover have "?src \<noteq> ?dst" using bl [OF src] i lt by auto
    moreover have "card (dirty_bufs t) < NBUF" using wrote_room [OF w] room by simp
    ultimately obtain u where "bindk (bread 1 ?dst) (\<lambda>b. bindk (bread 1 ?src) (\<lambda>c. bindk (get_data c) (\<lambda>d.
        thenk (set_data b (\<lambda>_. d)) (thenk (bwrite b) (thenk (brelse c) (brelse b)))))) t = Ok () u"
        and u: "wrote [(?dst, bview t ?src)] t u"
      using copy_dst_first [OF ti] by blast
    moreover have "lh_block s ! i = ?src" using n i by (auto simp: log_blocks_def)
    ultimately have "write_log_one i t = Ok () u"
      using f dev by (simp add: write_log_one_def bindk_def getk_def)
    moreover have "bview t ?src = bview s ?src" using w out by (simp add: wrote_def apply_writes_other)
    then have "wrote (W (Suc i)) s u" using wrote_trans [OF w u] by (simp add: W_def)
    ultimately show "\<exists>u. write_log_one i t = Ok () u \<and> wrote (W (Suc i)) s u" by blast
  qed
  then show ?thesis using n(2) by (simp add: write_log_def bindk_def getk_def W_def)
qed

lemma install_trans_wrote:
  assumes inv: "bio_inv {} s" and dev: "log_dev s = 1" and n: "log_blocks s = bl" "length bl = nat (lh_n s)"
    and lt: "length bl < LOGSIZE" and sz: "unat (log_start s) + LOGSIZE < unat (disksize s)"
    and dirty: "set bl \<subseteq> dirty_blocks s \<or> Suc (card (dirty_bufs s)) < NBUF"
    and bl: "\<And>k. k \<in> set bl \<Longrightarrow> k \<notin> log_region (log_start s) \<and> k < disksize s" "distinct bl"
    and room: "card (dirty_bufs s) < NBUF"
  shows "\<exists>t. install_trans s = Ok () t \<and>
    wrote (map (\<lambda>i. (bl ! i, bview s (log_start s + of_nat i + 1))) [0..<length bl]) s t"
proof -
  define W where "W i = map (\<lambda>i. (bl ! i, bview s (log_start s + of_nat i + 1))) [0..<i]" for i
  have "\<exists>t. foreachk [0..<length bl] install_one s = Ok () t \<and> wrote (W (length bl)) s t"
  proof (rule foreachk_upto [where P = "\<lambda>i. wrote (W i) s"])
    show "wrote (W 0) s s" using inv by (simp add: W_def wrote_refl)
    fix i t
    assume i: "i < length bl" and w: "wrote (W i) s t"
    let ?src = "log_start s + of_nat i + 1" and ?dst = "bl ! i"
    have fr: "bio_frame s t" and ti: "bio_inv {} t" using w by (simp_all add: wrote_def)
    note f = log_frame [OF fr]
    have dst: "?dst \<in> set bl" using i by simp
    have fw: "fst ` set (W i) = (!) bl ` {..<i}" by (simp add: W_def image_image atLeast0LessThan)
    then have "?dst \<notin> fst ` set (W i)" using bl(2) i by (auto simp: nth_eq_iff_index_eq)
    then have "?dst \<in> dirty_blocks t \<or> Suc (card (dirty_bufs t)) < NBUF"
      using w dirty dst wrote_room [OF w] by (auto simp: wrote_def)
    moreover have "?src < disksize t" "?dst < disksize t"
      using log_addr(2) [OF sz, of i] i lt bl(1) [OF dst] fr by (simp_all add: bio_frame_def)
    moreover have reg: "?src \<in> log_region (log_start s)" using i lt by simp
    then have "?src \<noteq> ?dst" using bl(1) [OF dst] by metis
    moreover have "card (dirty_bufs t) < NBUF" using wrote_room [OF w] room by simp
    ultimately obtain u where "bindk (bread 1 ?src) (\<lambda>c. bindk (bread 1 ?dst) (\<lambda>b. bindk (get_data c) (\<lambda>d.
        thenk (set_data b (\<lambda>_. d)) (thenk (bwrite b) (thenk (brelse c) (brelse b)))))) t = Ok () u"
        and u: "wrote [(?dst, bview t ?src)] t u"
      using copy_src_first [OF ti] by blast
    moreover have "lh_block s ! i = ?dst" using n i by (auto simp: log_blocks_def)
    ultimately have "install_one i t = Ok () u"
      using f dev by (simp add: install_one_def bindk_def getk_def)
    moreover have "?src \<notin> fst ` set (W i)"
    proof
      assume "?src \<in> fst ` set (W i)"
      then obtain j where "j < i" "?src = bl ! j" by (auto simp: fw)
      then show False using bl(1) [of "bl ! j"] reg i by (metis less_trans nth_mem)
    qed
    then have "bview t ?src = bview s ?src" using w by (simp add: wrote_def apply_writes_other)
    then have "wrote (W (Suc i)) s u" using wrote_trans [OF w u] by (simp add: W_def)
    ultimately show "\<exists>u. install_one i t = Ok () u \<and> wrote (W (Suc i)) s u" by blast
  qed
  then show ?thesis using n(2) by (simp add: install_trans_def bindk_def getk_def W_def)
qed

lemma log_okD:
  assumes "log_ok s"
  shows "bio_inv {} s" and "log_dev s = 1" and "length (lh_block s) = LOGSIZE" and "0 \<le> lh_n s"
    and "lh_n s < int LOGSIZE" and "distinct (log_blocks s)" and "dirty_blocks s = set (log_blocks s)"
    and "k \<in> set (log_blocks s) \<Longrightarrow> k \<notin> log_region (log_start s) \<and> k < disksize s"
    and "unat (log_start s) + LOGSIZE < unat (disksize s)" and "get32 (disk s (log_start s)) 0 = 0"
    and "length (log_blocks s) = nat (lh_n s)" and "length (log_blocks s) < LOGSIZE"
    and "card (dirty_bufs s) < NBUF"
proof -
  have s: "log_ok s" using assms .
  show "bio_inv {} s" "log_dev s = 1" "length (lh_block s) = LOGSIZE" "0 \<le> lh_n s"
    "lh_n s < int LOGSIZE" "distinct (log_blocks s)" "dirty_blocks s = set (log_blocks s)"
    "k \<in> set (log_blocks s) \<Longrightarrow> k \<notin> log_region (log_start s) \<and> k < disksize s"
    "unat (log_start s) + LOGSIZE < unat (disksize s)" "get32 (disk s (log_start s)) 0 = 0"
    using assms unfolding log_ok_def by blast+
  then show l: "length (log_blocks s) = nat (lh_n s)" "length (log_blocks s) < LOGSIZE"
    by (auto simp: log_blocks_def)
  have "card (dirty_bufs s) = card (set (log_blocks s))"
    using card_dirty [OF \<open>bio_inv {} s\<close>] \<open>dirty_blocks s = set (log_blocks s)\<close> by simp
  also have "\<dots> \<le> length (log_blocks s)" by (rule card_length)
  finally show "card (dirty_bufs s) < NBUF" using l(2) by simp
qed

lemma log_copies_apply:
  assumes "unat (log_start s) + LOGSIZE < unat (disksize s)" and "length (log_blocks s) \<le> LOGSIZE"
    and "i < length (log_blocks s)"
  shows "apply_writes (log_copies s) d (log_start s + of_nat i + 1) = bview s (log_blocks s ! i)"
proof -
  have "distinct (map fst (log_copies s))"
    using assms log_addr_inj [OF assms(1)] by (auto simp: log_copies_def distinct_map comp_def intro!: inj_onI)
  then show ?thesis using apply_writes_nth [of "log_copies s" i d] assms(3) by (simp add: log_copies_def)
qed

lemma log_copies_out:
  assumes "length (log_blocks s) < LOGSIZE"
  shows "fst ` set (log_copies s) \<subseteq> log_region (log_start s)"
  using assms by (auto simp: log_copies_def)

lemma log_copies_start:
  assumes "unat (log_start s) + LOGSIZE < unat (disksize s)" and "length (log_blocks s) < LOGSIZE"
  shows "log_start s \<notin> fst ` set (log_copies s)"
  using log_addr(4) [OF assms(1)] assms(2) by (force simp: log_copies_def)

lemma home_copies_apply:
  "distinct (log_blocks s) \<Longrightarrow> k \<in> set (log_blocks s) \<Longrightarrow> apply_writes (home_copies s) d k = bview s k"
  using apply_writes_nth [of "home_copies s" _ d]
  by (auto simp: home_copies_def comp_def in_set_conv_nth map_nth)

lemma home_copies_out: "fst ` set (home_copies s) = set (log_blocks s)"
  by (force simp: home_copies_def in_set_conv_nth)

lemma log_phase:
  assumes ok: "log_ok s"
  shows "\<exists>t u. write_log s = Ok () t \<and> write_head t = Ok () u \<and>
    wrote (log_copies s @ [(log_start s, log_header s)]) s u"
proof -
  note o = log_okD [OF ok]
  obtain t where t: "write_log s = Ok () t" "wrote (log_copies s) s t"
    using write_log_wrote [OF o(1,2) refl o(11,12,9,7,8,13)] by (auto simp: log_copies_def)
  have f: "bio_frame s t" "bio_inv {} t" using t(2) by (simp_all add: wrote_def)
  note l = log_frame [OF f(1)]
  have "log_start s < disksize s" using log_addr(3) [OF o(9), of 0] by simp
  moreover have "bview t (log_start s) = bview s (log_start s)"
    using t(2) log_copies_start [OF o(9,12)] by (simp add: wrote_def apply_writes_other)
  ultimately obtain u where "write_head t = Ok () u" "wrote [(log_start s, log_header s)] t u"
    using write_head_wrote [OF f(2)] o wrote_room [OF t(2)] l f(1)
    by (auto simp: log_header_def bio_frame_def)
  then show ?thesis using t wrote_trans by blast
qed

lemma commit_run:
  assumes ok: "log_ok s" and n: "0 < lh_n s"
  shows "\<exists>t. commit s = Ok () t \<and> bio_inv {} t \<and> disk t = apply_writes (commit_writes s) (disk s) \<and>
    disk_writes t = disk_writes s @ commit_writes s"
proof -
  note o = log_okD [OF ok]
  obtain s1 s2 where s2: "write_log s = Ok () s1" "write_head s1 = Ok () s2"
      "wrote (log_copies s @ [(log_start s, log_header s)]) s s2"
    using log_phase [OF ok] by blast
  have f2: "bio_frame s s2" "bio_inv {} s2" "card (dirty_bufs s2) < NBUF"
    using s2(3) wrote_room [OF s2(3)] o(13) by (simp_all add: wrote_def)
  note l2 = log_frame [OF f2(1)]
  have "dirty_blocks s2 = set (log_blocks s)"
    using s2(3) o(7) o(8) [of "log_start s"] o(8) log_copies_out [OF o(12)] by (auto simp: wrote_def)
  moreover have "log_blocks s2 = log_blocks s" using l2 by (simp add: log_blocks_def)
  ultimately obtain s3 where s3: "install_trans s2 = Ok () s3"
      "wrote (map (\<lambda>i. (log_blocks s ! i, bview s2 (log_start s2 + of_nat i + 1))) [0..<length (log_blocks s)]) s2 s3"
    using install_trans_wrote [OF f2(2), of "log_blocks s"] l2 o f2 by (auto simp: bio_frame_def)
  have "bview s2 (log_start s + of_nat i + 1) = bview s (log_blocks s ! i)"
    if "i < length (log_blocks s)" for i
    using s2(3) log_copies_apply [OF o(9) _ that] log_addr(4) [OF o(9), of i] that o(12)
    by (simp add: wrote_def)
  then have "map (\<lambda>i. (log_blocks s ! i, bview s2 (log_start s2 + of_nat i + 1))) [0..<length (log_blocks s)] = home_copies s"
    using l2 by (simp add: home_copies_def)
  then have w3: "wrote (home_copies s) s2 s3" using s3(2) by simp
  have f3: "bio_frame s2 s3" "bio_inv {} s3" using w3 by (simp_all add: wrote_def)
  note l3 = log_frame [OF f3(1)]
  have "log_start s \<notin> fst ` set (home_copies s)" unfolding home_copies_out using o(8) log_region_simps(1) by blast
  then have "bview s3 (log_start s) = log_header s"
    using w3 s2(3) by (simp add: wrote_def apply_writes_other)
  moreover have "log_start s < disksize s" using log_addr(3) [OF o(9), of 0] by simp
  ultimately obtain s4 where s4: "write_head (s3\<lparr>lh_n := 0\<rparr>) = Ok () s4"
      "wrote [(log_start s, enc_head 0 (lh_block s) (log_header s))] (s3\<lparr>lh_n := 0\<rparr>) s4"
    using write_head_wrote [OF lh_n_upd.bio_inv_upd [OF f3(2)], of "\<lambda>_. 0"] l2 l3 o(2)
      f2 f3(1) wrote_room [OF w3] by (auto simp: bio_frame_def)
  have "disk s4 = apply_writes (commit_writes s) (disk s)" "disk_writes s4 = disk_writes s @ commit_writes s"
    using s4(2) w3 s2(3) by (simp_all add: wrote_def commit_writes_def)
  moreover have "commit s = Ok () s4"
    using n s2(1,2) s3(1) s4(1) by (simp add: commit_def kop_defs)
  ultimately show ?thesis using s4(2) by (auto simp: wrote_def)
qed

section \<open>Recovery\<close>

lemma read_head_run:
  assumes inv: "bio_inv {} r" and clean: "dirty_bufs r = {}" and dev: "log_dev r = 1"
    and lt: "log_start r < disksize r" and n: "sint (get32 (disk r (log_start r)) 0) \<le> int LOGSIZE"
  shows "\<exists>t. read_head r = Ok () t \<and> bio_inv {} t \<and> disk t = disk r \<and> disksize t = disksize r \<and>
    dirty_bufs t = {} \<and> log_dev t = 1 \<and> log_start t = log_start r \<and>
    lh_n t = sint (get32 (disk r (log_start r)) 0) \<and>
    lh_block t = dec_words (disk r (log_start r)) 4 (nat (lh_n t)) @ drop (nat (lh_n t)) (lh_block r)"
proof -
  have v: "bview r = disk r" using bview_clean [OF inv] clean by (auto simp: dirty_blocks_def)
  obtain b t where b: "bread 1 (log_start r) r = Ok b t" "bio_inv {b} t" "b_blockno (bufs t b) = log_start r"
      "b_data (bufs t b) = disk r (log_start r)" "disk t = disk r" "bio_frame r t" "dirty_bufs t = {}"
    using bread_spec [OF inv lt] clean v by auto
  note l = log_frame [OF b(6)]
  let ?n = "sint (get32 (disk r (log_start r)) 0)"
  let ?t = "t\<lparr>lh_n := ?n, lh_block := dec_words (disk r (log_start r)) 4 (nat ?n) @ drop (nat ?n) (lh_block t)\<rparr>"
  have "bio_inv {b} ?t" by (intro lh_block_upd.bio_inv_upd lh_n_upd.bio_inv_upd b(2))
  then obtain u where u: "brelse b ?t = Ok () u" "bio_inv {} u" "disk u = disk r" "bio_frame ?t u"
      "dirty_bufs u = {}"
    using brelse_spec [of "{b}" ?t b] b by auto
  have "read_head r = Ok () u"
    using b u(1) dev n by (simp add: read_head_def kop_defs get_data_def Let_def)
  then show ?thesis
    using u b(6) l dev log_frame [OF u(4)] by (auto simp: bio_frame_def)
qed

lemma recover_run:
  assumes inv: "bio_inv {} r" and clean: "dirty_bufs r = {}" and dev: "log_dev r = 1"
    and len: "length (lh_block r) = LOGSIZE" and sz: "unat (log_start r) + LOGSIZE < unat (disksize r)"
    and n: "sint (get32 (disk r (log_start r)) 0) = int n" "n < LOGSIZE"
    and bl: "dec_words (disk r (log_start r)) 4 n = bl" "distinct bl"
      "\<And>k. k \<in> set bl \<Longrightarrow> k \<notin> log_region (log_start r) \<and> k < disksize r"
  shows "\<exists>u z. recover_from_log r = Ok () u \<and> log_ok u \<and> log_start u = log_start r \<and>
    disk u = (apply_writes (map (\<lambda>i. (bl ! i, disk r (log_start r + of_nat i + 1))) [0..<n]) (disk r))(log_start r := z)"
proof -
  have start: "log_start r < disksize r" using log_addr(3) [OF sz, of 0] by simp
  have lbl: "length bl = n" using bl(1) by (auto simp: dec_words_def)
  obtain t where t: "read_head r = Ok () t" "bio_inv {} t" "disk t = disk r" "disksize t = disksize r"
      "dirty_bufs t = {}" "log_dev t = 1" "log_start t = log_start r" "lh_n t = int n"
      "lh_block t = bl @ drop n (lh_block r)"
    using read_head_run [OF inv clean dev start] n bl(1) by auto
  have v: "bview t = disk r" using bview_clean [OF t(2)] t(3,5) by (auto simp: dirty_blocks_def)
  have "log_blocks t = bl" using t(8,9) lbl by (simp add: log_blocks_def)
  then obtain u where u: "install_trans t = Ok () u"
      "wrote (map (\<lambda>i. (bl ! i, disk r (log_start r + of_nat i + 1))) [0..<n]) t u"
    using install_trans_wrote [OF t(2,6), of bl] lbl n(2) sz bl(2,3) t v by auto
  have f: "bio_frame t u" "bio_inv {} u" "dirty_blocks u = {}"
    using u(2) t(5) by (auto simp: wrote_def dirty_blocks_def)
  note l = log_frame [OF f(1)]
  have du: "dirty_bufs u = {}" using f(3) by (simp add: dirty_blocks_def)
  let ?z = "enc_head 0 (lh_block u) (bview u (log_start r))"
  obtain w where w: "write_head (u\<lparr>lh_n := 0\<rparr>) = Ok () w" "wrote [(log_start r, ?z)] (u\<lparr>lh_n := 0\<rparr>) w"
    using write_head_wrote [OF lh_n_upd.bio_inv_upd [OF f(2)], of "\<lambda>_. 0"] l t start f(1) du
    by (auto simp: bio_frame_def)
  have fw: "bio_frame (u\<lparr>lh_n := 0\<rparr>) w" using w(2) by (simp add: wrote_def)
  note lw = log_frame [OF fw]
  have "get32 ?z 0 = 0"
    using bview_length [OF f(2)] by (simp add: enc_head_def put_bytes_def get32_append_le32 [of "[]", simplified])
  then have "log_ok w"
    using w(2) lw l t f(1) fw len lbl sz du n(2)
    by (auto simp: log_ok_def wrote_def log_blocks_def bio_frame_def dirty_blocks_def)
  moreover have "recover_from_log r = Ok () w"
    using t(1) u(1) w(1) by (simp add: recover_from_log_def kop_defs)
  ultimately show ?thesis
    using w(2) u(2) t(3,7) lw l by (auto simp: wrote_def)
qed

lemma readsb_run:
  assumes inv: "bio_inv {} r" and clean: "dirty_bufs r = {}" and one: "1 < disksize r"
  shows "\<exists>t. readsb 1 r = Ok (dec_superblock (disk r 1)) t \<and> bio_inv {} t \<and> disk t = disk r \<and>
    bio_frame r t \<and> dirty_bufs t = {}"
proof -
  have v: "bview r = disk r" using bview_clean [OF inv] clean by (auto simp: dirty_blocks_def)
  obtain b t where b: "bread 1 1 r = Ok b t" "bio_inv {b} t" "b_blockno (bufs t b) = 1"
      "b_data (bufs t b) = disk r 1" "disk t = disk r" "bio_frame r t" "dirty_bufs t = {}"
    using bread_spec [OF inv one] clean v by auto
  then obtain u where "brelse b t = Ok () u" "bio_inv {} u" "disk u = disk r" "bio_frame t u" "dirty_bufs u = {}"
    using brelse_spec [OF b(2), of b] by auto
  then show ?thesis using b by (auto simp: readsb_def kop_defs get_data_def bio_frame_def)
qed

lemma initlog_run:
  assumes boot: "booted d n r" and one: "1 < n" and start: "sb_logstart (dec_superblock (d 1)) = start"
    and sz: "unat start + LOGSIZE < unat n" and c: "sint (get32 (d start) 0) = int m" "m < LOGSIZE"
    and bl: "dec_words (d start) 4 m = bl" "distinct bl" "\<And>k. k \<in> set bl \<Longrightarrow> k \<notin> log_region start \<and> k < n"
  shows "\<exists>u z. initlog 1 r = Ok () u \<and> log_ok u \<and> log_start u = start \<and>
    disk u = (apply_writes (map (\<lambda>i. (bl ! i, d (start + of_nat i + 1))) [0..<m]) d)(start := z)"
proof -
  let ?r = "upd_lock LogLock (\<lambda>_. \<lparr>lk_locked = 0, lk_name = ''log'', lk_cpu = None\<rparr>) r"
  have b: "bio_inv {} ?r" "dirty_bufs ?r = {}" "disk ?r = d" "disksize ?r = n" "length (lh_block ?r) = LOGSIZE"
    using boot bio_inv_initlock by (auto simp: booted_def dirty_bufs_def upd_lock_def)
  obtain t where t: "readsb 1 ?r = Ok (dec_superblock (d 1)) t" "bio_inv {} t" "disk t = d"
      "bio_frame ?r t" "dirty_bufs t = {}"
    using readsb_run [OF b(1,2)] b(3,4) one by auto
  let ?t = "t\<lparr>log_start := start, log_size := sint (sb_nlog (dec_superblock (d 1))), log_dev := 1\<rparr>"
  have "bio_inv {} ?t"
    by (intro log_dev_upd.bio_inv_upd log_size_upd.bio_inv_upd log_start_upd.bio_inv_upd t(2))
  then have "\<exists>u z. recover_from_log ?t = Ok () u \<and> log_ok u \<and> log_start u = start \<and>
      disk u = (apply_writes (map (\<lambda>i. (bl ! i, d (start + of_nat i + 1))) [0..<m]) d)(start := z)"
    using recover_run [of ?t m bl] t b log_frame(5) [OF t(4)] sz c bl by (simp add: bio_frame_def)
  moreover have "initlog 1 r = recover_from_log ?t"
    using t(1) start by (simp add: initlog_def kop_defs initlock_def)
  ultimately show ?thesis by simp
qed

section \<open>A crash during commit\<close>

lemma same_outside_refl: "same_outside R d d" by (simp add: same_outside_def)

lemma apply_outside: "fst ` set ws \<subseteq> R \<Longrightarrow> same_outside R (apply_writes ws d) d"
  by (auto simp: same_outside_def intro!: apply_writes_other)

text \<open>The disk when the machine stops after the first \<open>k\<close> writes, by how far the commit got.\<close>

lemma crash_before:
  assumes ok: "log_ok s" and k: "k \<le> length (log_copies s)" and d: "d = apply_writes (take k (commit_writes s)) (disk s)"
  shows "get32 (d (log_start s)) 0 = 0" and "same_outside (log_region (log_start s)) d (disk s)"
proof -
  note o = log_okD [OF ok]
  have d': "d = apply_writes (take k (log_copies s)) (disk s)" using k d by (simp add: commit_writes_def)
  have sub: "fst ` set (take k (log_copies s)) \<subseteq> fst ` set (log_copies s)"
    by (intro image_mono set_take_subset)
  then show "same_outside (log_region (log_start s)) d (disk s)"
    unfolding d' using log_copies_out [OF o(12)] by (intro apply_outside) blast
  show "get32 (d (log_start s)) 0 = 0"
    unfolding d' using sub log_copies_start [OF o(9,12)] o(10) by (subst apply_writes_other) auto
qed

lemma crash_during:
  assumes ok: "log_ok s" and m: "m \<le> length (home_copies s)"
    and d: "d = apply_writes (take (length (log_copies s) + 1 + m) (commit_writes s)) (disk s)"
  shows "d (log_start s) = log_header s"
    and "i < length (log_blocks s) \<Longrightarrow> d (log_start s + of_nat i + 1) = bview s (log_blocks s ! i)"
    and "k \<notin> log_region (log_start s) \<Longrightarrow> k \<notin> set (log_blocks s) \<Longrightarrow> d k = disk s k"
proof -
  note o = log_okD [OF ok]
  let ?h = "take m (home_copies s)"
  have d': "d = apply_writes ?h ((apply_writes (log_copies s) (disk s))(log_start s := log_header s))"
    using m d by (simp add: commit_writes_def)
  have sub: "fst ` set ?h \<subseteq> set (log_blocks s)"
    unfolding home_copies_out [symmetric] by (intro image_mono set_take_subset)
  have out: "j \<notin> fst ` set ?h" if "j \<in> log_region (log_start s)" for j
    using sub o(8) that by blast
  show "d (log_start s) = log_header s"
    unfolding d' using out by (subst apply_writes_other) simp_all
  show "d (log_start s + of_nat i + 1) = bview s (log_blocks s ! i)" if i: "i < length (log_blocks s)"
    unfolding d' using out [of "log_start s + of_nat i + 1"] i o(12) log_addr(4) [OF o(9), of i]
      log_copies_apply [OF o(9) _ i] by (subst apply_writes_other) simp_all
  show "d k = disk s k" if k: "k \<notin> log_region (log_start s)" "k \<notin> set (log_blocks s)"
  proof -
    have "k \<noteq> log_start s" using k(1) by auto
    moreover have "k \<notin> fst ` set ?h" "k \<notin> fst ` set (log_copies s)"
      using k sub log_copies_out [OF o(12)] by blast+
    ultimately show ?thesis unfolding d' by (simp add: apply_writes_other)
  qed
qed

lemma crash_after:
  assumes ok: "log_ok s" and d: "d = apply_writes (commit_writes s) (disk s)"
  shows "get32 (d (log_start s)) 0 = 0" and "same_outside (log_region (log_start s)) d (bview s)"
proof -
  note o = log_okD [OF ok]
  have len: "length (log_header s) = BSIZE"
    using length_enc_head [OF bview_length [OF o(1)]] o(5) by (simp add: log_header_def)
  show "get32 (d (log_start s)) 0 = 0"
    using len by (simp add: d commit_writes_def enc_head_def put_bytes_def get32_append_le32 [of "[]", simplified])
  have "d k = bview s k" if k: "k \<notin> log_region (log_start s)" for k
  proof -
    have ne: "k \<noteq> log_start s" using k by auto
    show ?thesis
    proof (cases "k \<in> set (log_blocks s)")
      case True
      then show ?thesis using ne home_copies_apply [OF o(6)] by (simp add: d commit_writes_def)
    next
      case False
      then have "k \<notin> fst ` set (home_copies s)" "k \<notin> fst ` set (log_copies s)"
        using k log_copies_out [OF o(12)] by (auto simp: home_copies_out)
      then have "d k = disk s k" using ne by (simp add: d commit_writes_def apply_writes_other)
      then show ?thesis using bview_clean [OF o(1)] False o(7) by simp
    qed
  qed
  then show "same_outside (log_region (log_start s)) d (bview s)" by (simp add: same_outside_def)
qed

lemma commit_point_cases:
  assumes "k \<le> length (commit_writes s)"
  shows "k \<le> length (log_copies s) \<or>
    (\<exists>m \<le> length (home_copies s). k = length (log_copies s) + 1 + m) \<or> k = length (commit_writes s)"
proof -
  have "length (commit_writes s) = length (log_copies s) + length (home_copies s) + 2"
    by (simp add: commit_writes_def)
  then show ?thesis using assms by presburger
qed

lemma recover_empty:
  assumes boot: "booted d n r" and "1 < n" and "sb_logstart (dec_superblock (d 1)) = start"
    and "unat start + LOGSIZE < unat n" and z: "get32 (d start) 0 = 0"
  shows "\<exists>u. initlog 1 r = Ok () u \<and> log_ok u \<and> same_outside (log_region start) (disk u) d"
  using initlog_run [OF assms(1-4), of 0 "[]"] z by (auto simp: dec_words_def same_outside_def)

lemma recover_full:
  assumes ok: "log_ok s" and boot: "booted d (disksize s) r" and one: "1 < disksize s"
    and sb: "sb_logstart (dec_superblock (d 1)) = log_start s" and h: "d (log_start s) = log_header s"
    and logged: "\<And>i. i < length (log_blocks s) \<Longrightarrow> d (log_start s + of_nat i + 1) = bview s (log_blocks s ! i)"
    and rest: "\<And>k. k \<notin> log_region (log_start s) \<Longrightarrow> k \<notin> set (log_blocks s) \<Longrightarrow> d k = disk s k"
  shows "\<exists>u. initlog 1 r = Ok () u \<and> log_ok u \<and> same_outside (log_region (log_start s)) (disk u) (bview s)"
proof -
  note o = log_okD [OF ok]
  let ?bl = "log_blocks s"
  have "sint (get32 (d (log_start s)) 0) = int (length ?bl)" "dec_words (d (log_start s)) 4 (length ?bl) = ?bl"
    using enc_head_decode [OF bview_length [OF o(1)] o(4) _ o(3)] o(4,5,11)
    by (simp_all add: h log_header_def log_blocks_def)
  from initlog_run [OF boot one sb o(9) this(1) o(12) this(2) o(6,8)] obtain u z where
    u: "initlog 1 r = Ok () u" "log_ok u"
      "disk u = (apply_writes (map (\<lambda>i. (?bl ! i, d (log_start s + of_nat i + 1))) [0..<length ?bl]) d)(log_start s := z)"
    by blast
  have "map (\<lambda>i. (?bl ! i, d (log_start s + of_nat i + 1))) [0..<length ?bl] = home_copies s"
    using logged by (simp add: home_copies_def)
  then have d: "disk u = (apply_writes (home_copies s) d)(log_start s := z)" using u(3) by simp
  have "disk u k = bview s k" if k: "k \<notin> log_region (log_start s)" for k
  proof (cases "k \<in> set ?bl")
    case True
    then show ?thesis using home_copies_apply [OF o(6)] k d by auto
  next
    case False
    then have "disk u k = disk s k" using rest [OF k] d k by (auto simp: apply_writes_other home_copies_out)
    then show ?thesis using bview_clean [OF o(1)] False o(7) by simp
  qed
  then show ?thesis using u by (auto simp: same_outside_def)
qed

section \<open>A transaction\<close>

interpretation lh_n: machine_field lh_n by unfold_locales simp_all
interpretation lh_block: machine_field lh_block by unfold_locales simp_all
interpretation outstanding: machine_field outstanding by unfold_locales simp_all
interpretation committing: machine_field committing by unfold_locales simp_all

lemma log_regionD: "k \<in> log_region start \<Longrightarrow> unat (k - start) \<le> LOGSIZE"
proof -
  assume "k \<in> log_region start"
  then obtain i where i: "k = start + of_nat i" "i \<le> LOGSIZE" by (auto simp: log_region_def)
  then have "unat (k - start) = i mod 2 ^ 32" by (simp add: unat_of_nat)
  then show ?thesis using i(2) mod_less_eq_dividend [of i "2 ^ 32"] by linarith
qed

lemma absorb_cases:
  assumes "n \<le> length bl"
  shows "absorb k n bl = n \<and> k \<notin> set (take n bl) \<or> absorb k n bl < n \<and> bl ! absorb k n bl = k \<and> k \<in> set (take n bl)"
proof (cases "find (\<lambda>i. bl ! i = k) [0..<n]")
  case None
  then have "absorb k n bl = n" by (simp add: absorb_def)
  moreover have "k \<notin> set (take n bl)" using None assms by (auto simp: find_None_iff in_set_conv_nth)
  ultimately show ?thesis by simp
next
  case (Some i)
  then have "i < n" "bl ! i = k" by (auto dest: find_SomeD)
  then show ?thesis using Some assms by (auto simp: absorb_def in_set_conv_nth)
qed

lemma log_write_run:
  assumes "calm s" and "0 \<le> lh_n s" "lh_n s < int LOGSIZE" "lh_n s < log_size s - 1" and "1 \<le> outstanding s"
    and "length (lh_block s) = LOGSIZE" and k: "b_blockno (bufs s b) = k"
  shows "\<exists>f g. log_write b s = Ok () (upd_buf b (\<lambda>x. x\<lparr>b_dirty := True\<rparr>) (s\<lparr>lh_block := f, lh_n := g\<rparr>)) \<and>
    0 \<le> g \<and> g \<le> lh_n s + 1 \<and> length f = LOGSIZE \<and>
    take (nat g) f = (if k \<in> set (log_blocks s) then log_blocks s else log_blocks s @ [k])"
proof -
  let ?n = "nat (lh_n s)" and ?bl = "lh_block s"
  let ?i = "absorb k ?n ?bl"
  let ?f = "?bl[?i := k]" and ?g = "if int ?i = lh_n s then lh_n s + 1 else lh_n s"
  have n: "?n < LOGSIZE" "int ?n = lh_n s" "?n \<le> length ?bl" using assms by auto
  have "take (nat ?g) ?f = (if k \<in> set (take ?n ?bl) then take ?n ?bl else take ?n ?bl @ [k])"
    using absorb_cases [OF n(3), of k]
  proof
    assume a: "?i = ?n \<and> k \<notin> set (take ?n ?bl)"
    then show ?thesis
      using n assms(2,6) by (simp add: nat_add_distrib take_Suc_conv_app_nth)
  next
    assume a: "?i < ?n \<and> ?bl ! ?i = k \<and> k \<in> set (take ?n ?bl)"
    then have "?f = ?bl" by (metis list_update_id)
    moreover have "int ?i \<noteq> lh_n s" using a n(2) by linarith
    ultimately show ?thesis using a by simp
  qed
  moreover have "log_write b s = Ok () (upd_buf b (\<lambda>x. x\<lparr>b_dirty := True\<rparr>) (s\<lparr>lh_block := ?f, lh_n := ?g\<rparr>))"
    using assms n calmD [OF assms(1)]
    by (simp add: log_write_def kop_defs)
  ultimately show ?thesis using assms by (intro exI [of _ ?f] exI [of _ ?g]) (simp add: log_blocks_def)
qed

section \<open>Properties\<close>

lemma sample_log_fields [simp]:
  "log_start (sample_log m) = 2" "log_size (sample_log m) = 30" "outstanding (sample_log m) = 1"
  "log_dev (sample_log m) = 1" "lh_n (sample_log m) = 1" "lh_block (sample_log m) = 50 # replicate 29 0"
  "log_blocks (sample_log m) = [50]" "disksize (sample_log m) = 1000"
  "bufs (sample_log m) b = \<lparr>b_valid = (b = 0), b_dirty = (b = 0), b_dev = (if b = 0 then 1 else 0),
     b_blockno = 50, b_refcnt = 0, b_data = replicate BSIZE 7\<rparr>"
  by (simp_all add: sample_log_def sample_bio_def sample_sl_def sample_pipes_def sample_proc_def
      sample_kmem_def sample_machine_def log_blocks_def)

lemma sample_boot_ok: "(\<And>k. length (d k) = BSIZE) \<Longrightarrow> booted d 1000 (sample_boot d m)"
proof -
  assume d: "\<And>k. length (d k) = BSIZE"
  have "\<not> b_valid (bufs (sample_bio m) b)" for b and m :: 'b by (simp add: sample_bio_fields)
  then have "bio_inv {} (sample_boot d m)"
    unfolding sample_boot_def using d by (intro bio_inv_disk) (simp_all add: sample_bio_fields)
  then show ?thesis
    by (simp add: booted_def dirty_bufs_def sample_boot_def sample_bio_fields)
       (simp add: sample_bio_def sample_sl_def sample_pipes_def sample_proc_def sample_kmem_def sample_machine_def)
qed

lemma sample_log_ok: "log_ok (sample_log m)"
proof -
  let ?s = "sample_log m"
  have f: "calm ?s" "procs ?s = sample_procs" "me ?s = Some 0" "lru ?s = [0..<NBUF]"
      "sl_locked (sleeplocks ?s lk) = 0" "length (disk ?s k) = BSIZE" for lk k
    by (simp_all add: sample_log_def sample_bio_fields enc_superblock_def)
       (simp_all add: sample_bio_def)
  then have "bio_inv {} ?s"
    by (simp add: bio_inv_def buf_ok_def sample_procs_def lessThan_atLeast0 del: upt_rec_numeral)
  moreover have "dirty_blocks ?s = {50}" by (auto simp: dirty_blocks_def dirty_bufs_def)
  moreover have "get32 (disk ?s 2) 0 = 0" by (simp add: sample_log_def get32_def un32_def)
  moreover have "50 \<notin> log_region 2" using log_regionD [of 50 2] by auto
  ultimately show ?thesis by (simp add: log_ok_def)
qed

lemma commit_writes_blocks:
  "fst ` set (commit_writes s) = fst ` set (log_copies s) \<union> {log_start s} \<union> set (log_blocks s)"
  unfolding home_copies_out [of s, symmetric] by (auto simp: commit_writes_def)

text \<open>
  C1: a transaction is atomic under a crash. \<open>commit\<close> writes the blocks \<open>commit_writes s\<close>
  one after the other. If the machine stops after any number \<open>k\<close> of these writes and boots again,
  \<open>initlog\<close> recovers a disk that, outside the log, is either the one before the transaction or the
  one with all its updates; after the commit it is the latter.
\<close>

theorem log_crash_atomic:
  assumes ok: "log_ok s" and n: "0 < lh_n s" and one: "1 < disksize s"
    and sb: "sb_logstart (dec_superblock (disk s 1)) = log_start s"
    and home: "1 \<notin> log_region (log_start s)" "1 \<notin> set (log_blocks s)"
  shows "\<exists>t. commit s = Ok () t \<and> disk t = apply_writes (commit_writes s) (disk s) \<and>
    disk_writes t = disk_writes s @ commit_writes s \<and>
    same_outside (log_region (log_start s)) (disk t) (bview s) \<and>
    (\<forall>k \<le> length (commit_writes s). \<forall>r.
       booted (apply_writes (take k (commit_writes s)) (disk s)) (disksize s) r \<longrightarrow>
       (\<exists>u. initlog 1 r = Ok () u \<and> log_ok u \<and>
         (same_outside (log_region (log_start s)) (disk u) (disk s) \<or>
          same_outside (log_region (log_start s)) (disk u) (bview s))))"
proof -
  note o = log_okD [OF ok]
  let ?R = "log_region (log_start s)"
  have "\<exists>u. initlog 1 r = Ok () u \<and> log_ok u \<and>
      (same_outside ?R (disk u) (disk s) \<or> same_outside ?R (disk u) (bview s))"
    if k: "k \<le> length (commit_writes s)" and d: "d = apply_writes (take k (commit_writes s)) (disk s)"
      and r: "booted d (disksize s) r" for k r d
  proof -
    have "log_start s \<noteq> 1" using home(1) log_region_simps(1) by metis
    moreover have "1 \<notin> fst ` set (log_copies s)"
      using log_copies_out [OF o(12)] home(1) by (rule contra_subsetD)
    ultimately have "1 \<notin> fst ` set (commit_writes s)"
      unfolding commit_writes_blocks Un_iff singleton_iff using home(2) by metis
    then have "1 \<notin> fst ` set (take k (commit_writes s))" using set_take_subset by fastforce
    then have "d 1 = disk s 1" unfolding d by (rule apply_writes_other)
    then have sb': "sb_logstart (dec_superblock (d 1)) = log_start s" using sb by simp
    show ?thesis
      using commit_point_cases [OF k]
    proof (elim disjE exE conjE)
      assume "k \<le> length (log_copies s)"
      note b = crash_before [OF ok this d]
      show ?thesis using recover_empty [OF r one sb' o(9) b(1)] b(2) by (auto simp: same_outside_def)
    next
      fix m
      assume m: "m \<le> length (home_copies s)" "k = length (log_copies s) + 1 + m"
      show ?thesis
        using recover_full [OF ok r one sb'] crash_during [OF ok m(1)] d m(2) by blast
    next
      assume "k = length (commit_writes s)"
      then have "d = apply_writes (commit_writes s) (disk s)" using d by simp
      note b = crash_after [OF ok this]
      show ?thesis using recover_empty [OF r one sb' o(9) b(1)] b(2) by (auto simp: same_outside_def)
    qed
  qed
  then show ?thesis using commit_run [OF ok n] crash_after(2) [OF ok] by blast
qed

theorem log_crash_atomic_witness:
  "\<exists>t u. commit (sample_log ()) = Ok () t \<and>
     initlog 1 (sample_boot (apply_writes (take 2 (commit_writes (sample_log ()))) (disk (sample_log ()))) ()) = Ok () u \<and>
     log_ok u"
proof -
  let ?s = "sample_log ()" and ?d = "apply_writes (take 2 (commit_writes (sample_log ()))) (disk (sample_log ()))"
  note o = log_okD [OF sample_log_ok [of "()"]]
  have "length (log_header ?s) = BSIZE"
    using length_enc_head [OF bview_length [OF o(1)]] by (simp add: log_header_def)
  then have "length (?d k) = BSIZE" for k
    using bview_length [OF o(1)] bio_invD(6) [OF o(1)]
    by (simp add: commit_writes_def log_copies_def upt_conv_Cons take_Cons')
  then have r: "booted ?d (disksize ?s) (sample_boot ?d ())" using sample_boot_ok [of ?d "()"] by simp
  have "sb_logstart (dec_superblock (disk ?s 1)) = 2" by (simp add: sample_log_def dec_enc_superblock)
  moreover have "1 \<notin> log_region 2" using log_regionD [of 1 2]
    by (auto simp: unsigned_minus_1_eq_mask mask_eq_exp_minus_1)
  ultimately have a: "sb_logstart (dec_superblock (disk ?s 1)) = log_start ?s" "1 \<notin> log_region (log_start ?s)"
      "1 \<notin> set (log_blocks ?s)" "0 < lh_n ?s" "1 < disksize ?s"
    by simp_all
  have "2 \<le> length (commit_writes ?s)" by (simp add: commit_writes_def log_copies_def)
  then show ?thesis
    using log_crash_atomic [OF sample_log_ok a(4,5,1,2,3)] r by blast
qed

text \<open>
  C10: an update inside a transaction. A caller that reads a block, changes it, passes it to
  \<open>log_write\<close> and releases it leaves the disk as it was; the kernel sees the new content, the block
  is in the log exactly once, however often it was written, and the state is again one from which
  a commit is atomic.
\<close>

theorem log_write_update:
  assumes ok: "log_ok s" and out: "1 \<le> outstanding s"
    and sz: "lh_n s < log_size s - 1" "lh_n s + 1 < int LOGSIZE"
    and k: "k < disksize s" "k \<notin> log_region (log_start s)" and v: "length v = BSIZE"
  shows "\<exists>b t u w. bread 1 k s = Ok b t \<and> b_data (bufs t b) = bview s k \<and>
    log_write b (upd_buf b (\<lambda>x. x\<lparr>b_data := v\<rparr>) t) = Ok () u \<and> brelse b u = Ok () w \<and>
    log_ok w \<and> bview w = (bview s)(k := v) \<and> disk w = disk s \<and> disk_writes w = disk_writes s \<and>
    set (log_blocks w) = insert k (set (log_blocks s))"
proof -
  note o = log_okD [OF ok]
  obtain b t where b: "bread 1 k s = Ok b t" "bio_inv {b} t" "b_blockno (bufs t b) = k"
      "b_data (bufs t b) = bview s k" "bview t = bview s" "disk t = disk s" "disk_writes t = disk_writes s"
      "bio_frame s t" "dirty_blocks t = dirty_blocks s"
    using bread_spec [OF o(1) k(1)] o(13) by auto
  note l = log_frame [OF b(8)]
  let ?t = "upd_buf b (\<lambda>x. x\<lparr>b_data := v\<rparr>) t"
  have m: "bio_inv {b} ?t" "bview ?t = (bview s)(k := v)" "bio_frame t ?t" "dirty_blocks ?t = dirty_blocks s"
    using set_data_spec [OF b(2) _ b(3) v refl] b(5,9) by simp_all
  note lt = log_frame [OF m(3)]
  have lb: "log_blocks ?t = log_blocks s" using l lt by (simp add: log_blocks_def)
  have "0 \<le> lh_n ?t" "lh_n ?t < int LOGSIZE" "lh_n ?t < log_size ?t - 1" "1 \<le> outstanding ?t"
      "length (lh_block ?t) = LOGSIZE" "b_blockno (bufs ?t b) = k"
    using o(3,4,5) sz out b(3) by (simp_all add: l lt)
  from log_write_run [OF bio_invD(1) [OF m(1)] this] obtain f g where
    x1: "log_write b ?t = Ok () (upd_buf b (\<lambda>x. x\<lparr>b_dirty := True\<rparr>) (?t\<lparr>lh_block := f, lh_n := g\<rparr>))"
      and g: "0 \<le> g" "g \<le> lh_n s + 1" and f: "length f = LOGSIZE"
      and fg: "take (nat g) f = (if k \<in> set (log_blocks s) then log_blocks s else log_blocks s @ [k])"
    unfolding lb l lt by blast
  define x where "x = ?t\<lparr>lh_block := f, lh_n := g\<rparr>"
  have xi: "bio_inv {b} x" unfolding x_def by (intro lh_n_upd.bio_inv_upd lh_block_upd.bio_inv_upd m(1))
  let ?u = "upd_buf b (\<lambda>x. x\<lparr>b_dirty := True\<rparr>) x"
  have u: "bio_inv {b} ?u" "bview ?u = (bview s)(k := v)" "bio_frame x ?u" "dirty_blocks ?u = insert k (dirty_blocks s)"
    using mark_dirty_spec [OF xi _ _ refl, of b k] b(3) m(2,4) by (simp_all add: x_def)
  obtain w where w: "brelse b ?u = Ok () w" "bio_inv {} w" "bview w = bview ?u" "disk w = disk ?u"
      "disk_writes w = disk_writes ?u" "bio_frame ?u w" "dirty_blocks w = dirty_blocks ?u"
    using brelse_spec [OF u(1), of b] by auto
  have d: "disk w = disk s" "disk_writes w = disk_writes s" "disksize w = disksize s"
    using w u(3) b m by (simp_all add: x_def bio_frame_def)
  note lw = log_frame [OF w(6)] log_frame [OF u(3)]
  have lbw: "log_blocks w = (if k \<in> set (log_blocks s) then log_blocks s else log_blocks s @ [k])"
    using lw fg by (simp add: log_blocks_def x_def)
  have lf: "log_dev w = 1" "log_start w = log_start s" "lh_n w = g" "lh_block w = f"
    using lw l lt o(2) by (simp_all add: x_def)
  have set: "set (log_blocks w) = insert k (set (log_blocks s))" using lbw by auto
  moreover have "log_ok w"
    unfolding log_ok_def lf d set using w(2,7) u(4) o(6,7,9,10) f g sz(2) k lbw o(8) by auto
  ultimately show ?thesis
    using b(1,4) x1 w(1,3) u(2) d(1,2)
    by (intro exI [of _ b] exI [of _ t] exI [of _ ?u] exI [of _ w]) (simp add: x_def)
qed

theorem log_write_update_witness:
  "\<exists>b t u. bread 1 60 (sample_log ()) = Ok b t \<and>
     log_write b (upd_buf b (\<lambda>x. x\<lparr>b_data := replicate BSIZE 9\<rparr>) t) = Ok () u"
proof -
  have "60 \<notin> log_region 2" using log_regionD [of 60 2] by auto
  then show ?thesis
    using log_write_update [OF sample_log_ok, of "()" 60 "replicate BSIZE 9"] by auto
qed

end
