(* ===== verification/FsBlock.thy ===== *)
theory FsBlock
  imports Log
begin

text \<open>
  The block layer of \<open>src/fs.c\<close>: zeroing, allocating and freeing disk blocks in the
  free bitmap. The global superblock copy \<open>sb\<close> and the inode cache (used from the next
  theory on) are the state of the file system.
\<close>

section \<open>State\<close>

abbreviation (input) NINODE :: nat where "NINODE \<equiv> 50"
abbreviation (input) ROOTDEV :: uint where "ROOTDEV \<equiv> 1"
abbreviation (input) ROOTINO :: uint where "ROOTINO \<equiv> 1"

record inode =
  i_dev :: uint
  i_inum :: uint
  i_ref :: int
  i_valid :: bool
  i_type :: ushort
  i_major :: ushort
  i_minor :: ushort
  i_nlink :: ushort
  i_size :: uint
  i_addrs :: "uint list"

record fs_state = log_state +
  sb :: superblock
  inodes :: "nat \<Rightarrow> inode"

section \<open>Operations\<close>

definition bzero :: "uint \<Rightarrow> uint \<Rightarrow> ('a fs_state_scheme, unit) kop" where
  "bzero dev bno =
     bindk (bread dev bno) (\<lambda>bp.
     thenk (set_data bp (\<lambda>d. replicate BSIZE 0)) (
     thenk (log_write bp) (
     brelse bp)))"

text \<open>The bit of block \<open>bi\<close> in the bytes of a bitmap block, its test, setting and clearing.\<close>

definition bmask :: "nat \<Rightarrow> uchar" where
  "bmask bi = push_bit (bi mod 8) 1"

definition bit_free :: "uchar list \<Rightarrow> nat \<Rightarrow> bool" where
  "bit_free d bi \<longleftrightarrow> d ! (bi div 8) AND bmask bi = 0"

definition mark_used :: "nat \<Rightarrow> uchar list \<Rightarrow> uchar list" where
  "mark_used bi d = d[bi div 8 := d ! (bi div 8) OR bmask bi]"

definition mark_free :: "nat \<Rightarrow> uchar list \<Rightarrow> uchar list" where
  "mark_free bi d = d[bi div 8 := d ! (bi div 8) AND NOT (bmask bi)]"

text \<open>
  The two nested loops of \<open>balloc\<close>: the outer one over the bitmap blocks (\<open>k\<close> is
  \<open>b / BPB\<close>), the inner one over the bits of a block below \<open>sb.size\<close>.
\<close>

definition first_free :: "nat \<Rightarrow> nat \<Rightarrow> uchar list \<Rightarrow> nat option" where
  "first_free b n d = find (\<lambda>bi. bit_free d bi) (filter (\<lambda>bi. b + bi < n) [0..<4096])"

primrec balloc_loop :: "uint \<Rightarrow> nat list \<Rightarrow> ('a fs_state_scheme, uint) kop" where
  "balloc_loop dev [] = panick ''balloc: out of blocks''"
| "balloc_loop dev (k # ks) =
     bindk (getk sb) (\<lambda>sbk.
     bindk (bread dev (BBLOCK (of_nat (4096 * k)) sbk)) (\<lambda>bp.
     bindk (get_data bp) (\<lambda>d.
     case first_free (4096 * k) (unat (sb_size sbk)) d of
       Some bi \<Rightarrow>
         thenk (set_data bp (mark_used bi)) (
         thenk (log_write bp) (
         thenk (brelse bp) (
         thenk (bzero dev (of_nat (4096 * k + bi))) (
         returnk (of_nat (4096 * k + bi))))))
     | None \<Rightarrow> thenk (brelse bp) (balloc_loop dev ks))))"

definition balloc :: "uint \<Rightarrow> ('a fs_state_scheme, uint) kop" where
  "balloc dev =
     bindk (getk sb) (\<lambda>sbk.
     balloc_loop dev [0..<(unat (sb_size sbk) + 4095) div 4096])"

definition bfree :: "uint \<Rightarrow> uint \<Rightarrow> ('a fs_state_scheme, unit) kop" where
  "bfree dev b =
     bindk (readsb dev) (\<lambda>sb'.
     thenk (modk (\<lambda>s. s\<lparr>sb := sb'\<rparr>)) (
     bindk (bread dev (BBLOCK b sb')) (\<lambda>bp.
     bindk (get_data bp) (\<lambda>d.
     (let bi = unat (b mod BPB) in
     if bit_free d bi then panick ''freeing free block''
     else
     thenk (set_data bp (mark_free bi)) (
     thenk (log_write bp) (
     brelse bp)))))))"

end
