(* ===== verification/FsInode.thy ===== *)
theory FsInode
  imports FsBlock
begin

text \<open>
  The inode layer of \<open>src/fs.c\<close> up to the content of an inode: the inode cache with its
  reference counts and sleep locks, inode allocation, and the block map. An in-memory
  inode is the index of its slot in \<open>icache.inode\<close>.
\<close>

section \<open>The inode cache\<close>

definition upd_inode :: "nat \<Rightarrow> (inode \<Rightarrow> inode) \<Rightarrow> 'a fs_state_scheme \<Rightarrow> 'a fs_state_scheme" where
  "upd_inode i f s = s\<lparr>inodes := (inodes s)(i := f (inodes s i))\<rparr>"

definition iinit :: "uint \<Rightarrow> ('a fs_state_scheme, unit) kop" where
  "iinit dev =
     thenk (initlock IcacheLock ''icache'') (
     thenk (foreachk [0..<NINODE] (\<lambda>i. initsleeplock (InodeLock i) ''inode'')) (
     bindk (readsb dev) (\<lambda>sb'.
     modk (\<lambda>s. s\<lparr>sb := sb'\<rparr>))))"

definition find_inode :: "uint \<Rightarrow> uint \<Rightarrow> 'a fs_state_scheme \<Rightarrow> nat option" where
  "find_inode dev inum s =
     find (\<lambda>i. i_ref (inodes s i) > 0 \<and> i_dev (inodes s i) = dev \<and> i_inum (inodes s i) = inum)
       [0..<NINODE]"

definition find_empty :: "'a fs_state_scheme \<Rightarrow> nat option" where
  "find_empty s = find (\<lambda>i. i_ref (inodes s i) = 0) [0..<NINODE]"

definition iget :: "uint \<Rightarrow> uint \<Rightarrow> ('a fs_state_scheme, nat) kop" where
  "iget dev inum =
     thenk (acquire IcacheLock) (
     bindk (getk (find_inode dev inum)) (\<lambda>hit.
     case hit of
       Some ip \<Rightarrow>
         thenk (modk (upd_inode ip (\<lambda>x. x\<lparr>i_ref := i_ref x + 1\<rparr>))) (
         thenk (release IcacheLock) (
         returnk ip))
     | None \<Rightarrow>
         bindk (getk find_empty) (\<lambda>empty.
         case empty of
           None \<Rightarrow> panick ''iget: no inodes''
         | Some ip \<Rightarrow>
             thenk (modk (upd_inode ip (\<lambda>x. x\<lparr>i_dev := dev, i_inum := inum, i_ref := 1,
               i_valid := False\<rparr>))) (
             thenk (release IcacheLock) (
             returnk ip)))))"

definition idup :: "nat \<Rightarrow> ('a fs_state_scheme, nat) kop" where
  "idup ip =
     thenk (acquire IcacheLock) (
     thenk (modk (upd_inode ip (\<lambda>x. x\<lparr>i_ref := i_ref x + 1\<rparr>))) (
     thenk (release IcacheLock) (
     returnk ip)))"

definition dinode_off :: "uint \<Rightarrow> nat" where
  "dinode_off inum = unat (inum mod 8) * sizeof_dinode"

primrec ialloc_loop :: "uint \<Rightarrow> ushort \<Rightarrow> nat list \<Rightarrow> ('a fs_state_scheme, nat) kop" where
  "ialloc_loop dev type [] = panick ''ialloc: no inodes''"
| "ialloc_loop dev type (inum # inums) =
     bindk (getk (\<lambda>s. IBLOCK (of_nat inum) (sb s))) (\<lambda>blk.
     bindk (bread dev blk) (\<lambda>bp.
     bindk (get_data bp) (\<lambda>d.
     let off = dinode_off (of_nat inum) in
     if di_type (dec_dinode d off) = 0 then
       thenk (set_data bp (\<lambda>d. put_bytes d off (enc_dinode
         \<lparr>di_type = type, di_major = 0, di_minor = 0, di_nlink = 0, di_size = 0,
          di_addrs = replicate (NDIRECT + 1) 0\<rparr>))) (
       thenk (log_write bp) (
       thenk (brelse bp) (
       iget dev (of_nat inum))))
     else thenk (brelse bp) (ialloc_loop dev type inums))))"

definition ialloc :: "uint \<Rightarrow> ushort \<Rightarrow> ('a fs_state_scheme, nat) kop" where
  "ialloc dev type =
     bindk (getk (\<lambda>s. unat (sb_ninodes (sb s)))) (\<lambda>n.
     ialloc_loop dev type [1..<n])"

definition to_dinode :: "inode \<Rightarrow> dinode" where
  "to_dinode x = \<lparr>di_type = i_type x, di_major = i_major x, di_minor = i_minor x,
     di_nlink = i_nlink x, di_size = i_size x, di_addrs = i_addrs x\<rparr>"

definition of_dinode :: "dinode \<Rightarrow> inode \<Rightarrow> inode" where
  "of_dinode y x = x\<lparr>i_type := di_type y, i_major := di_major y, i_minor := di_minor y,
     i_nlink := di_nlink y, i_size := di_size y, i_addrs := di_addrs y\<rparr>"

definition iupdate :: "nat \<Rightarrow> ('a fs_state_scheme, unit) kop" where
  "iupdate ip =
     bindk (getk (\<lambda>s. (inodes s ip, sb s))) (\<lambda>(x, sbk).
     bindk (bread (i_dev x) (IBLOCK (i_inum x) sbk)) (\<lambda>bp.
     thenk (set_data bp (\<lambda>d. put_bytes d (dinode_off (i_inum x)) (enc_dinode (to_dinode x)))) (
     thenk (log_write bp) (
     brelse bp))))"

text \<open>A null inode pointer is \<open>None\<close>.\<close>

definition ilock :: "nat option \<Rightarrow> ('a fs_state_scheme, unit) kop" where
  "ilock ipo =
     bindk (getk (\<lambda>s. case ipo of None \<Rightarrow> True | Some ip \<Rightarrow> i_ref (inodes s ip) < 1)) (\<lambda>bad.
     if bad then panick ''ilock''
     else
     (let ip = the ipo in
     thenk (acquiresleep (InodeLock ip)) (
     bindk (getk (\<lambda>s. (inodes s ip, sb s))) (\<lambda>(x, sbk).
     if i_valid x then returnk ()
     else
     bindk (bread (i_dev x) (IBLOCK (i_inum x) sbk)) (\<lambda>bp.
     bindk (get_data bp) (\<lambda>d.
     thenk (modk (upd_inode ip (of_dinode (dec_dinode d (dinode_off (i_inum x)))))) (
     thenk (brelse bp) (
     thenk (modk (upd_inode ip (\<lambda>x. x\<lparr>i_valid := True\<rparr>))) (
     bindk (getk (\<lambda>s. i_type (inodes s ip))) (\<lambda>ty.
     whenk (ty = 0) (panick ''ilock: no type''))))))))))) "

definition iunlock :: "nat option \<Rightarrow> ('a fs_state_scheme, unit) kop" where
  "iunlock ipo =
     (case ipo of
        None \<Rightarrow> panick ''iunlock''
      | Some ip \<Rightarrow>
          bindk (holdingsleep (InodeLock ip)) (\<lambda>h.
          bindk (getk (\<lambda>s. i_ref (inodes s ip))) (\<lambda>r.
          if \<not> h \<or> r < 1 then panick ''iunlock''
          else releasesleep (InodeLock ip))))"

section \<open>Content blocks\<close>

definition bmap :: "nat \<Rightarrow> uint \<Rightarrow> ('a fs_state_scheme, uint) kop" where
  "bmap ip bn =
     bindk (getk (\<lambda>s. inodes s ip)) (\<lambda>x.
     if bn < 12 then
       (let addr = i_addrs x ! unat bn in
        if addr = 0 then
          bindk (balloc (i_dev x)) (\<lambda>addr.
          thenk (modk (upd_inode ip (\<lambda>x. x\<lparr>i_addrs := (i_addrs x)[unat bn := addr]\<rparr>))) (
          returnk addr))
        else returnk addr)
     else
     (let bn = bn - 12 in
     if bn < 128 then
       bindk (if i_addrs x ! NDIRECT = 0 then
                bindk (balloc (i_dev x)) (\<lambda>addr.
                thenk (modk (upd_inode ip (\<lambda>x. x\<lparr>i_addrs := (i_addrs x)[NDIRECT := addr]\<rparr>))) (
                returnk addr))
              else returnk (i_addrs x ! NDIRECT)) (\<lambda>addr.
       bindk (bread (i_dev x) addr) (\<lambda>bp.
       bindk (get_data bp) (\<lambda>d.
       (let addr = get32 d (4 * unat bn) in
       bindk (if addr = 0 then
                bindk (balloc (i_dev x)) (\<lambda>addr.
                thenk (set_data bp (\<lambda>d. put32 d (4 * unat bn) addr)) (
                thenk (log_write bp) (
                returnk addr)))
              else returnk addr) (\<lambda>addr.
       thenk (brelse bp) (
       returnk addr))))))
     else panick ''bmap: out of range''))"

definition itrunc :: "nat \<Rightarrow> ('a fs_state_scheme, unit) kop" where
  "itrunc ip =
     thenk (foreachk [0..<NDIRECT] (\<lambda>i.
       bindk (getk (\<lambda>s. inodes s ip)) (\<lambda>x.
       whenk (i_addrs x ! i \<noteq> 0) (
         thenk (bfree (i_dev x) (i_addrs x ! i)) (
         modk (upd_inode ip (\<lambda>x. x\<lparr>i_addrs := (i_addrs x)[i := 0]\<rparr>))))))) (
     bindk (getk (\<lambda>s. inodes s ip)) (\<lambda>x.
     thenk (whenk (i_addrs x ! NDIRECT \<noteq> 0) (
       bindk (bread (i_dev x) (i_addrs x ! NDIRECT)) (\<lambda>bp.
       thenk (foreachk [0..<NINDIRECT] (\<lambda>j.
         bindk (get_data bp) (\<lambda>d.
         whenk (get32 d (4 * j) \<noteq> 0) (bfree (i_dev x) (get32 d (4 * j)))))) (
       thenk (brelse bp) (
       thenk (bfree (i_dev x) (i_addrs x ! NDIRECT)) (
       modk (upd_inode ip (\<lambda>x. x\<lparr>i_addrs := (i_addrs x)[NDIRECT := 0]\<rparr>)))))))) (
     thenk (modk (upd_inode ip (\<lambda>x. x\<lparr>i_size := 0\<rparr>))) (
     iupdate ip))))"

definition iput :: "nat \<Rightarrow> ('a fs_state_scheme, unit) kop" where
  "iput ip =
     thenk (acquiresleep (InodeLock ip)) (
     bindk (getk (\<lambda>s. inodes s ip)) (\<lambda>x.
     thenk (whenk (i_valid x \<and> i_nlink x = 0) (
       thenk (acquire IcacheLock) (
       bindk (getk (\<lambda>s. i_ref (inodes s ip))) (\<lambda>r.
       thenk (release IcacheLock) (
       whenk (r = 1) (
         thenk (itrunc ip) (
         thenk (modk (upd_inode ip (\<lambda>x. x\<lparr>i_type := 0\<rparr>))) (
         thenk (iupdate ip) (
         modk (upd_inode ip (\<lambda>x. x\<lparr>i_valid := False\<rparr>))))))))))) (
     thenk (releasesleep (InodeLock ip)) (
     thenk (acquire IcacheLock) (
     thenk (modk (upd_inode ip (\<lambda>x. x\<lparr>i_ref := i_ref x - 1\<rparr>))) (
     release IcacheLock))))))"

definition iunlockput :: "nat \<Rightarrow> ('a fs_state_scheme, unit) kop" where
  "iunlockput ip = thenk (iunlock (Some ip)) (iput ip)"

end
