(* ===== verification/Console.thy ===== *)
theory Console
  imports FsInode
begin

text \<open>
  The console (\<open>src/console.c\<close>): formatted output, the CGA screen, the line editor of
  the keyboard interrupt and the device's read and write functions. The bytes sent to the
  serial port are kept in \<open>uart_out\<close>, the CGA memory in \<open>crt\<close>, the cursor registers
  in \<open>cga_pos\<close>. \<open>panic\<close> itself is the outcome \<open>Panic\<close> of the model; what it prints is
  not followed.
\<close>

section \<open>State\<close>

abbreviation (input) INPUT_BUF :: uint where "INPUT_BUF \<equiv> 128"
abbreviation (input) BACKSPACE :: int where "BACKSPACE \<equiv> 256"
abbreviation (input) CONSOLE :: int where "CONSOLE \<equiv> 1"
abbreviation (input) NDEV :: int where "NDEV \<equiv> 10"

record cons_state = fs_state +
  panicked :: bool
  cons_locking :: bool
  uart_present :: bool
  uart_out :: "uchar list"
  cga_pos :: nat
  crt :: "nat \<Rightarrow> ushort"
  input_buf :: "uchar list"
  input_r :: uint
  input_w :: uint
  input_e :: uint
  devsw_console :: bool

section \<open>Output\<close>

definition uartputc :: "uchar \<Rightarrow> ('a cons_state_scheme, unit) kop" where
  "uartputc c = modk (\<lambda>s. if uart_present s then s\<lparr>uart_out := uart_out s @ [c]\<rparr> else s)"

definition cga_scroll :: "nat \<Rightarrow> (nat \<Rightarrow> ushort) \<Rightarrow> nat \<Rightarrow> ushort" where
  "cga_scroll pos m i =
     (if pos \<le> i \<and> i < 24 * 80 then 0 else if i < 23 * 80 then m (i + 80) else m i)"

definition cga_advance :: "int \<Rightarrow> nat \<Rightarrow> nat" where
  "cga_advance c pos =
     (if c = 10 then pos + (80 - pos mod 80)
      else if c = BACKSPACE then pos - 1
      else pos + 1)"

definition cgaputc :: "int \<Rightarrow> ('a cons_state_scheme, unit) kop" where
  "cgaputc c =
    bindk (getk cga_pos) (\<lambda>pos.
    thenk (whenk (c \<noteq> 10 \<and> c \<noteq> BACKSPACE)
       (modk (\<lambda>s. s\<lparr>crt := (crt s)(pos := (of_int c AND 0xff) OR 0x0700)\<rparr>))) (
    (let pos = cga_advance c pos in
    if pos > 25 * 80 then panick ''pos under/overflow''
     else
       (let pos' = (if pos div 80 \<ge> 24 then pos - 80 else pos) in
       thenk (whenk (pos div 80 \<ge> 24) (modk (\<lambda>s. s\<lparr>crt := cga_scroll pos' (crt s)\<rparr>))) (
       modk (\<lambda>s. s\<lparr>cga_pos := pos', crt := (crt s)(pos' := 0x0720)\<rparr>))))))"

definition consputc :: "int \<Rightarrow> ('a cons_state_scheme, unit) kop" where
  "consputc c =
    bindk (getk panicked) (\<lambda>p.
    if p then stopk Diverge
     else
       thenk ((if c = BACKSPACE then
         thenk (uartputc 8) (
         thenk (uartputc 32) (
         uartputc 8)) else uartputc (of_int c))) (
       cgaputc c))"

text \<open>
  The digits \<open>printint\<close> stores in its buffer, least significant first. The base is 10 or 16
  in every call; below 2 the loop of the code would divide by zero or not end.
\<close>

fun printint_digits :: "nat \<Rightarrow> nat \<Rightarrow> nat list" where
  "printint_digits b x =
     (if b < 2 \<or> x < b then [x mod b] else (x mod b) # printint_digits b (x div b))"

definition digit_char :: "nat \<Rightarrow> uchar" where
  "digit_char d = (if d < 10 then of_nat (48 + d) else of_nat (87 + d))"

definition printint_chars :: "uint \<Rightarrow> nat \<Rightarrow> bool \<Rightarrow> uchar list" where
  "printint_chars xx base sign =
     (let neg = sign \<and> sint xx < 0;
          x = (if neg then - xx else xx)
      in (if neg then [45] else []) @ rev (map digit_char (printint_digits base (unat x))))"

definition cons_puts :: "uchar list \<Rightarrow> ('a cons_state_scheme, unit) kop" where
  "cons_puts cs = foreachk cs (\<lambda>c. consputc (uint c))"

definition printint :: "uint \<Rightarrow> nat \<Rightarrow> bool \<Rightarrow> ('a cons_state_scheme, unit) kop" where
  "printint xx base sign = cons_puts (printint_chars xx base sign)"

text \<open>
  An argument of \<open>cprintf\<close> is a word or the string its address points to (\<open>None\<close> for the
  null pointer). An argument of the wrong kind or a missing one is undefined behaviour.
\<close>

datatype farg = FInt uint | FStr "uchar list option"

fun cprintf_loop :: "uchar list \<Rightarrow> farg list \<Rightarrow> ('a cons_state_scheme, unit) kop" where
  "cprintf_loop [] args = returnk ()"
| "cprintf_loop (c # fmt) args =
     (if c \<noteq> 37 then
       thenk (consputc (uint c)) (
       cprintf_loop fmt args)
      else
      (case fmt of
         [] \<Rightarrow> returnk ()
       | d # fmt' \<Rightarrow>
           if d = 100 then
             (case args of FInt x # args' \<Rightarrow>
               thenk (printint x 10 True) (
               cprintf_loop fmt' args')
              | _ \<Rightarrow> stopk (Undef ''cprintf argument''))
           else if d = 120 \<or> d = 112 then
             (case args of FInt x # args' \<Rightarrow>
               thenk (printint x 16 False) (
               cprintf_loop fmt' args')
              | _ \<Rightarrow> stopk (Undef ''cprintf argument''))
           else if d = 115 then
             (case args of
                FStr (Some cs) # args' \<Rightarrow>
                  thenk (cons_puts cs) (
                  cprintf_loop fmt' args')
              | FStr None # args' \<Rightarrow>
                  thenk (cons_puts [40, 110, 117, 108, 108, 41]) (
                  cprintf_loop fmt' args')
              | _ \<Rightarrow> stopk (Undef ''cprintf argument''))
           else if d = 37 then
             thenk (consputc 37) (
             cprintf_loop fmt' args)
           else
             thenk (consputc 37) (
             thenk (consputc (uint d)) (
             cprintf_loop fmt' args))))"

definition cprintf :: "uchar list option \<Rightarrow> farg list \<Rightarrow> ('a cons_state_scheme, unit) kop" where
  "cprintf fmt args =
    bindk (getk cons_locking) (\<lambda>locking.
    thenk (whenk locking (acquire ConsLock)) (
    thenk ((case fmt of None \<Rightarrow> panick ''null fmt'' | Some cs \<Rightarrow> cprintf_loop cs args)) (
    whenk locking (release ConsLock))))"

section \<open>Input\<close>

definition put_input :: "uchar \<Rightarrow> 'a cons_state_scheme \<Rightarrow> 'a cons_state_scheme" where
  "put_input c s = s\<lparr>input_buf := (input_buf s)[unat (input_e s mod INPUT_BUF) := c],
     input_e := input_e s + 1\<rparr>"

text \<open>Ctrl-U: the fuel is the length of the edited line, so the loop never runs out of it.\<close>

primrec kill_line :: "nat \<Rightarrow> ('a cons_state_scheme, unit) kop" where
  "kill_line 0 = returnk ()"
| "kill_line (Suc k) =
  bindk (getk (\<lambda>s. input_e s \<noteq> input_w s \<and>
       input_buf s ! unat ((input_e s - 1) mod INPUT_BUF) \<noteq> 10)) (\<lambda>go.
  whenk go (
    thenk (modk (\<lambda>s. s\<lparr>input_e := input_e s - 1\<rparr>)) (
    thenk (consputc BACKSPACE) (
    kill_line k))))"

definition consoleintr_key :: "int \<Rightarrow> ('a cons_state_scheme, unit) kop" where
  "consoleintr_key c =
     (if c = 16 then returnk ()
      else if c = 21 then
        bindk (getk (\<lambda>s. unat (input_e s - input_w s))) (\<lambda>k.
        kill_line k)
      else if c = 8 \<or> c = 127 then
        bindk (getk (\<lambda>s. input_e s \<noteq> input_w s)) (\<lambda>go.
        whenk go (
          thenk (modk (\<lambda>s. s\<lparr>input_e := input_e s - 1\<rparr>)) (
          consputc BACKSPACE)))
      else
        bindk (getk (\<lambda>s. input_e s - input_r s < INPUT_BUF)) (\<lambda>room.
        whenk (c \<noteq> 0 \<and> room) (
          (let c = (if c = 13 then 10 else c) in
          thenk (modk (put_input (of_int c))) (
          thenk (consputc c) (
          bindk (getk (\<lambda>s. input_e s = input_r s + INPUT_BUF)) (\<lambda>full.
          whenk (c = 10 \<or> c = 4 \<or> full) (
            thenk (modk (\<lambda>s. s\<lparr>input_w := input_e s\<rparr>)) (
            wakeup ChanInput)))))))))"

text \<open>
  The characters are the successive results of \<open>getc\<close> up to the first negative one. The
  value says whether the process listing was asked for, which is printed at the end.
\<close>

definition consoleintr :: "int list \<Rightarrow> ('a cons_state_scheme, bool) kop" where
  "consoleintr cs =
    thenk (acquire ConsLock) (
    thenk (foreachk (takeWhile (\<lambda>c. c \<ge> 0) cs) consoleintr_key) (
    thenk (release ConsLock) (
    returnk (16 \<in> set (takeWhile (\<lambda>c. c \<ge> 0) cs)))))"

text \<open>
  \<open>n\<close> bytes are still wanted of \<open>target\<close>, \<open>acc\<close> are the bytes stored so far. A read that
  sleeps continues in \<open>consoleread_resume\<close>.
\<close>

primrec consoleread_loop ::
  "nat \<Rightarrow> nat \<Rightarrow> int \<Rightarrow> uchar list \<Rightarrow> ('a cons_state_scheme, int \<times> uchar list) kop" where
  "consoleread_loop ip 0 target acc =
    thenk (release ConsLock) (
    thenk (ilock (Some ip)) (
    returnk (target, acc)))"
| "consoleread_loop ip (Suc n) target acc =
  bindk (getk (\<lambda>s. input_r s = input_w s)) (\<lambda>empty.
  if empty then
    bindk (curproc) (\<lambda>p.
    bindk (getk (\<lambda>s. killed (procs s ! p))) (\<lambda>k.
    if k then
      thenk (release ConsLock) (
      thenk (ilock (Some ip)) (
      returnk (-1, acc)))
       else
         thenk (sleep ChanInput ConsLock) (
         stopk (Undef ''sleep returned''))))
     else
       bindk (getk (\<lambda>s. input_buf s ! unat (input_r s mod INPUT_BUF))) (\<lambda>c.
       thenk (modk (\<lambda>s. s\<lparr>input_r := input_r s + 1\<rparr>)) (
       if c = 4 then
         thenk (whenk (int (Suc n) < target) (modk (\<lambda>s. s\<lparr>input_r := input_r s - 1\<rparr>))) (
         thenk (release ConsLock) (
         thenk (ilock (Some ip)) (
         returnk (target - int (Suc n), acc))))
       else if c = 10 then
         thenk (release ConsLock) (
         thenk (ilock (Some ip)) (
         returnk (target - int n, acc @ [c])))
       else consoleread_loop ip n target (acc @ [c]))))"

definition consoleread :: "nat \<Rightarrow> int \<Rightarrow> ('a cons_state_scheme, int \<times> uchar list) kop" where
  "consoleread ip n =
    thenk (iunlock (Some ip)) (
    thenk (acquire ConsLock) (
    if n > 0 then consoleread_loop ip (nat n) n []
     else
       thenk (release ConsLock) (
       thenk (ilock (Some ip)) (
       returnk (0, [])))))"

definition consoleread_resume ::
  "nat \<times> nat \<Rightarrow> bool \<Rightarrow> nat \<Rightarrow> nat \<Rightarrow> int \<Rightarrow> uchar list \<Rightarrow>
   ('a cons_state_scheme, int \<times> uchar list) kop" where
  "consoleread_resume t i ip n target acc =
     thenk (sleep_resume t i ConsLock) (
     consoleread_loop ip n target acc)"

definition consolewrite :: "nat \<Rightarrow> uchar list \<Rightarrow> ('a cons_state_scheme, int) kop" where
  "consolewrite ip cs =
    thenk (iunlock (Some ip)) (
    thenk (acquire ConsLock) (
    thenk (cons_puts cs) (
    thenk (release ConsLock) (
    thenk (ilock (Some ip)) (
    returnk (int (length cs)))))))"

definition consoleinit :: "('a cons_state_scheme, unit) kop" where
  "consoleinit =
    thenk (initlock ConsLock ''console'') (
    thenk (modk (\<lambda>s. s\<lparr>devsw_console := True\<rparr>)) (
    modk (\<lambda>s. s\<lparr>cons_locking := True\<rparr>)))"

end
