(* ===== verification/FsDir.thy ===== *)
theory FsDir
  imports Console
begin

text \<open>
  The upper half of \<open>src/fs.c\<close>: reading and writing the content of an inode, directories
  and path names. Data read is returned as a list of bytes, data written is given as one.
  A path is the list of its characters up to the terminating NUL.
\<close>

section \<open>Inode content\<close>

record stat =
  st_type :: ushort
  st_dev :: uint
  st_ino :: uint
  st_nlink :: ushort
  st_size :: uint

definition stati :: "nat \<Rightarrow> 'a fs_state_scheme \<Rightarrow> stat" where
  "stati ip s =
     \<lparr>st_type = i_type (inodes s ip), st_dev = i_dev (inodes s ip),
      st_ino = i_inum (inodes s ip), st_nlink = i_nlink (inodes s ip),
      st_size = i_size (inodes s ip)\<rparr>"

definition dev_ok :: "ushort \<Rightarrow> 'a cons_state_scheme \<Rightarrow> bool" where
  "dev_ok major s \<longleftrightarrow>
     \<not> (sint major < 0 \<or> sint major \<ge> NDEV \<or> \<not> (sint major = CONSOLE \<and> devsw_console s))"

text \<open>
  One iteration copies \<open>m\<close> bytes, at least one, so fuel \<open>n\<close> suffices for \<open>n\<close> bytes. The
  iteration consumes \<open>tot\<close> and \<open>off\<close> of the code.
\<close>

definition chunk :: "uint \<Rightarrow> uint \<Rightarrow> uint" where
  "chunk off n = min n (512 - off mod 512)"

primrec readi_loop ::
  "nat \<Rightarrow> nat \<Rightarrow> uint \<Rightarrow> uint \<Rightarrow> ('a cons_state_scheme, uchar list) kop" where
  "readi_loop 0 ip off n = (if n = 0 then returnk [] else stopk Diverge)"
| "readi_loop (Suc k) ip off n =
     (if n = 0 then returnk []
      else
        bindk (bmap ip (off div 512)) (\<lambda>blk.
        bindk (getk (\<lambda>s. i_dev (inodes s ip))) (\<lambda>dev.
        bindk (bread dev blk) (\<lambda>bp.
        bindk (get_data bp) (\<lambda>d.
        (let m = chunk off n in
        thenk (brelse bp) (
        bindk (readi_loop k ip (off + m) (n - m)) (\<lambda>rest.
        returnk (take (unat m) (drop (unat (off mod 512)) d) @ rest)))))))))"

definition readi ::
  "nat \<Rightarrow> uint \<Rightarrow> uint \<Rightarrow> ('a cons_state_scheme, int \<times> uchar list) kop" where
  "readi ip off n =
    bindk (getk (\<lambda>s. inodes s ip)) (\<lambda>x.
    if i_type x = T_DEV then
      bindk (getk (dev_ok (i_major x))) (\<lambda>ok.
      if ok then consoleread ip (sint n) else returnk (-1, []))
     else if off > i_size x \<or> off + n < off then returnk (-1, [])
     else
       (let n = (if off + n > i_size x then i_size x - off else n) in
       bindk (readi_loop (unat n) ip off n) (\<lambda>d.
       returnk (sint n, d))))"

primrec writei_loop ::
  "nat \<Rightarrow> nat \<Rightarrow> uint \<Rightarrow> uchar list \<Rightarrow> ('a cons_state_scheme, uint) kop" where
  "writei_loop 0 ip off src = (if src = [] then returnk off else stopk Diverge)"
| "writei_loop (Suc k) ip off src =
     (if src = [] then returnk off
      else
        bindk (bmap ip (off div 512)) (\<lambda>blk.
        bindk (getk (\<lambda>s. i_dev (inodes s ip))) (\<lambda>dev.
        bindk (bread dev blk) (\<lambda>bp.
        (let m = chunk off (of_nat (length src)) in
        thenk (set_data bp (\<lambda>d. put_bytes d (unat (off mod 512)) (take (unat m) src))) (
        thenk (log_write bp) (
        thenk (brelse bp) (
        writei_loop k ip (off + m) (drop (unat m) src)))))))))"

definition writei :: "nat \<Rightarrow> uchar list \<Rightarrow> uint \<Rightarrow> ('a cons_state_scheme, int) kop" where
  "writei ip src off =
    (let n = of_nat (length src) in
    bindk (getk (\<lambda>s. inodes s ip)) (\<lambda>x.
    if i_type x = T_DEV then
      bindk (getk (dev_ok (i_major x))) (\<lambda>ok.
      if ok then consolewrite ip src else returnk (-1))
     else if off > i_size x \<or> off + n < off then returnk (-1)
     else if off + n > of_nat (MAXFILE * BSIZE) then returnk (-1)
     else
       bindk (writei_loop (length src) ip off src) (\<lambda>off'.
       bindk (getk (\<lambda>s. i_size (inodes s ip))) (\<lambda>sz.
       thenk (whenk (n > 0 \<and> off' > sz) (
         thenk (modk (upd_inode ip (\<lambda>x. x\<lparr>i_size := off'\<rparr>))) (
         iupdate ip))) (
       returnk (sint n))))))"

section \<open>Directories\<close>

definition namecmp :: "uchar list \<Rightarrow> uchar list \<Rightarrow> int" where
  "namecmp s t = strncmp (rd s) (rd t) DIRSIZ"

text \<open>
  A directory is scanned entry by entry. \<open>off\<close> grows by 16 below \<open>dp->size\<close>, so
  \<open>size / 16 + 1\<close> iterations are enough unless it wraps around \<open>2 ^ 32\<close>.
\<close>

definition dir_fuel :: "uint \<Rightarrow> nat" where
  "dir_fuel sz = unat sz div sizeof_dirent + 1"

primrec dirlookup_loop ::
  "nat \<Rightarrow> nat \<Rightarrow> uchar list \<Rightarrow> uint \<Rightarrow> ('a cons_state_scheme, (nat \<times> uint) option) kop" where
  "dirlookup_loop 0 dp nm off = stopk Diverge"
| "dirlookup_loop (Suc k) dp nm off =
  bindk (getk (\<lambda>s. off < i_size (inodes s dp))) (\<lambda>more.
  if \<not> more then returnk None
     else
       bindk (readi dp off (of_nat sizeof_dirent)) (\<lambda>(r, d).
       if r \<noteq> int sizeof_dirent then panick ''dirlookup read''
       else
         (let de = dec_dirent d in
         if de_inum de = 0 then dirlookup_loop k dp nm (off + of_nat sizeof_dirent)
         else if namecmp nm (de_name de) = 0 then
           bindk (getk (\<lambda>s. i_dev (inodes s dp))) (\<lambda>dev.
           bindk (iget dev (ucast (de_inum de))) (\<lambda>ip.
           returnk (Some (ip, off))))
         else dirlookup_loop k dp nm (off + of_nat sizeof_dirent))))"

definition dirlookup ::
  "nat \<Rightarrow> uchar list \<Rightarrow> ('a cons_state_scheme, (nat \<times> uint) option) kop" where
  "dirlookup dp nm =
    bindk (getk (\<lambda>s. inodes s dp)) (\<lambda>x.
    if i_type x \<noteq> T_DIR then panick ''dirlookup not DIR''
     else dirlookup_loop (dir_fuel (i_size x)) dp nm 0)"

primrec dirlink_loop :: "nat \<Rightarrow> nat \<Rightarrow> uint \<Rightarrow> ('a cons_state_scheme, uint) kop" where
  "dirlink_loop 0 dp off = stopk Diverge"
| "dirlink_loop (Suc k) dp off =
  bindk (getk (\<lambda>s. off < i_size (inodes s dp))) (\<lambda>more.
  if \<not> more then returnk off
     else
       bindk (readi dp off (of_nat sizeof_dirent)) (\<lambda>(r, d).
       if r \<noteq> int sizeof_dirent then panick ''dirlink read''
       else if de_inum (dec_dirent d) = 0 then returnk off
       else dirlink_loop k dp (off + of_nat sizeof_dirent)))"

definition dirlink :: "nat \<Rightarrow> uchar list \<Rightarrow> uint \<Rightarrow> ('a cons_state_scheme, int) kop" where
  "dirlink dp nm inum =
    bindk (dirlookup dp nm) (\<lambda>found.
    (case found of
        Some (ip, off) \<Rightarrow>
          thenk (iput ip) (
          returnk (-1))
      | None \<Rightarrow>
        bindk (getk (\<lambda>s. inodes s dp)) (\<lambda>x.
        bindk (dirlink_loop (dir_fuel (i_size x)) dp 0) (\<lambda>off.
        (let de = \<lparr>de_inum = ucast inum, de_name = strncpy (rd nm) DIRSIZ\<rparr> in
        bindk (writei dp (enc_dirent de) off) (\<lambda>r.
        if r \<noteq> int sizeof_dirent then panick ''dirlink'' else returnk 0))))))"

section \<open>Paths\<close>

abbreviation (input) SLASH :: uchar where "SLASH \<equiv> 47"

text \<open>
  The name copied out is cut at \<open>DIRSIZ\<close> bytes. The result is \<open>None\<close> for the null pointer.
\<close>

definition skipelem :: "uchar list \<Rightarrow> (uchar list \<times> uchar list) option" where
  "skipelem path =
     (let s = dropWhile (\<lambda>c. c = SLASH) path in
      if s = [] then None
      else Some (take DIRSIZ (takeWhile (\<lambda>c. c \<noteq> SLASH) s),
                 dropWhile (\<lambda>c. c = SLASH) (dropWhile (\<lambda>c. c \<noteq> SLASH) s)))"

primrec namex_loop ::
  "nat \<Rightarrow> uchar list \<Rightarrow> bool \<Rightarrow> nat \<Rightarrow> uchar list \<Rightarrow>
   ('a cons_state_scheme, (nat \<times> uchar list) option) kop" where
  "namex_loop 0 path par ip nm = stopk Diverge"
| "namex_loop (Suc k) path par ip nm =
     (case skipelem path of
        Some (nm, path) \<Rightarrow>
          thenk (ilock (Some ip)) (
          bindk (getk (\<lambda>s. i_type (inodes s ip))) (\<lambda>ty.
          if ty \<noteq> T_DIR then
            thenk (iunlockput ip) (
            returnk None)
          else if par \<and> path = [] then
            thenk (iunlock (Some ip)) (
            returnk (Some (ip, nm)))
          else
            bindk (dirlookup ip nm) (\<lambda>next.
            (case next of
               None \<Rightarrow>
                 thenk (iunlockput ip) (
                 returnk None)
             | Some (ip', off) \<Rightarrow>
               thenk (iunlockput ip) (
               namex_loop k path par ip' nm)))))
      | None \<Rightarrow>
          if par then
            thenk (iput ip) (
            returnk None)
          else returnk (Some (ip, nm)))"

definition namex ::
  "uchar list \<Rightarrow> bool \<Rightarrow> ('a cons_state_scheme, (nat \<times> uchar list) option) kop" where
  "namex path par =
    bindk ((if take 1 path = [SLASH] then iget ROOTDEV ROOTINO
            else
              bindk (curproc) (\<lambda>p.
              bindk (getk (\<lambda>s. cwd (procs s ! p))) (\<lambda>c.
              bindk (derefk ''cwd is null'' c) (\<lambda>c.
              idup c))))) (\<lambda>ip.
    namex_loop (length path + 1) path par ip [])"

definition namei :: "uchar list \<Rightarrow> ('a cons_state_scheme, nat option) kop" where
  "namei path =
    bindk (namex path False) (\<lambda>r.
    returnk (case r of None \<Rightarrow> None | Some (ip, nm) \<Rightarrow> Some ip))"

definition nameiparent ::
  "uchar list \<Rightarrow> ('a cons_state_scheme, (nat \<times> uchar list) option) kop" where
  "nameiparent path = namex path True"

end
