(* ===== verification/File.thy ===== *)
theory File
  imports FsDir
begin

text \<open>
  The table of open files (\<open>src/file.c\<close>) and \<open>pipealloc\<close> of \<open>src/pipe.c\<close>. A file is the
  index of its slot in \<open>ftable.file\<close>. A read returns the count of the C function and the
  bytes it stored.
\<close>

section \<open>State\<close>

abbreviation (input) NFILE :: nat where "NFILE \<equiv> 100"

datatype ftype = FD_NONE | FD_PIPE | FD_INODE

record file_rec =
  f_type :: ftype
  f_ref :: int
  f_readable :: bool
  f_writable :: bool
  f_pipe :: uint
  f_ip :: nat
  f_off :: uint

record file_state = cons_state +
  files :: "nat \<Rightarrow> file_rec"

definition upd_file :: "nat \<Rightarrow> (file_rec \<Rightarrow> file_rec) \<Rightarrow> 'a file_state_scheme \<Rightarrow> 'a file_state_scheme" where
  "upd_file f g s = s\<lparr>files := (files s)(f := g (files s f))\<rparr>"

section \<open>Operations\<close>

definition fileinit :: "('a file_state_scheme, unit) kop" where
  "fileinit = initlock FtableLock ''ftable''"

definition find_file :: "'a file_state_scheme \<Rightarrow> nat option" where
  "find_file s = find (\<lambda>f. f_ref (files s f) = 0) [0..<NFILE]"

definition filealloc :: "('a file_state_scheme, nat option) kop" where
  "filealloc =
    thenk (acquire FtableLock) (
    bindk (getk find_file) (\<lambda>found.
    (case found of
        Some f \<Rightarrow>
          thenk (modk (upd_file f (\<lambda>x. x\<lparr>f_ref := 1\<rparr>))) (
          thenk (release FtableLock) (
          returnk (Some f)))
      | None \<Rightarrow>
        thenk (release FtableLock) (
        returnk None))))"

definition filedup :: "nat \<Rightarrow> ('a file_state_scheme, nat) kop" where
  "filedup f =
    thenk (acquire FtableLock) (
    bindk (getk (\<lambda>s. f_ref (files s f))) (\<lambda>r.
    if r < 1 then panick ''filedup''
     else
       thenk (modk (upd_file f (\<lambda>x. x\<lparr>f_ref := f_ref x + 1\<rparr>))) (
       thenk (release FtableLock) (
       returnk f))))"

definition fileclose :: "nat \<Rightarrow> ('a file_state_scheme, unit) kop" where
  "fileclose f =
    thenk (acquire FtableLock) (
    bindk (getk (\<lambda>s. f_ref (files s f))) (\<lambda>r.
    if r < 1 then panick ''fileclose''
     else
       thenk (modk (upd_file f (\<lambda>x. x\<lparr>f_ref := f_ref x - 1\<rparr>))) (
       if r - 1 > 0 then release FtableLock
       else
         bindk (getk (\<lambda>s. files s f)) (\<lambda>ff.
         thenk (modk (upd_file f (\<lambda>x. x\<lparr>f_ref := 0, f_type := FD_NONE\<rparr>))) (
         thenk (release FtableLock) (
         if f_type ff = FD_PIPE then pipeclose (f_pipe ff) (f_writable ff)
         else if f_type ff = FD_INODE then
           thenk (begin_op) (
           thenk (iput (f_ip ff)) (
           end_op))
         else returnk ()))))))"

definition filestat :: "nat \<Rightarrow> ('a file_state_scheme, stat option) kop" where
  "filestat f =
    bindk (getk (\<lambda>s. files s f)) (\<lambda>x.
    if f_type x = FD_INODE then
      thenk (ilock (Some (f_ip x))) (
      bindk (getk (stati (f_ip x))) (\<lambda>st.
      thenk (iunlock (Some (f_ip x))) (
      returnk (Some st))))
     else returnk None)"

definition fileread :: "nat \<Rightarrow> int \<Rightarrow> ('a file_state_scheme, int \<times> uchar list) kop" where
  "fileread f n =
    bindk (getk (\<lambda>s. files s f)) (\<lambda>x.
    if \<not> f_readable x then returnk (-1, [])
     else if f_type x = FD_PIPE then piperead (f_pipe x) n
     else if f_type x = FD_INODE then
       thenk (ilock (Some (f_ip x))) (
       bindk (readi (f_ip x) (f_off x) (of_int n)) (\<lambda>(r, d).
       thenk (whenk (r > 0) (modk (upd_file f (\<lambda>x. x\<lparr>f_off := f_off x + of_int r\<rparr>)))) (
       thenk (iunlock (Some (f_ip x))) (
       returnk (r, d)))))
     else panick ''fileread'')"

text \<open>
  The largest write of one transaction: \<open>((MAXOPBLOCKS-1-1-2) / 2) * 512\<close>. One iteration of
  the loop writes at least one byte, so the number of bytes is enough fuel.
\<close>

definition max_write :: nat where
  "max_write = ((10 - 1 - 1 - 2) div 2) * 512"

primrec filewrite_loop :: "nat \<Rightarrow> nat \<Rightarrow> uchar list \<Rightarrow> int \<Rightarrow> ('a file_state_scheme, int) kop" where
  "filewrite_loop 0 f src n = (if src = [] then returnk n else stopk Diverge)"
| "filewrite_loop (Suc k) f src n =
     (if src = [] then returnk n
      else
        (let n1 = min (length src) max_write in
        thenk (begin_op) (
        bindk (getk (\<lambda>s. files s f)) (\<lambda>x.
        thenk (ilock (Some (f_ip x))) (
        bindk (writei (f_ip x) (take n1 src) (f_off x)) (\<lambda>r.
        thenk (whenk (r > 0) (modk (upd_file f (\<lambda>x. x\<lparr>f_off := f_off x + of_int r\<rparr>)))) (
        thenk (iunlock (Some (f_ip x))) (
        thenk (end_op) (
        if r < 0 then returnk (-1)
        else if r \<noteq> int n1 then panick ''short filewrite''
        else filewrite_loop k f (drop n1 src) n)))))))))"

definition filewrite :: "nat \<Rightarrow> uchar list \<Rightarrow> ('a file_state_scheme, int) kop" where
  "filewrite f src =
    bindk (getk (\<lambda>s. files s f)) (\<lambda>x.
    if \<not> f_writable x then returnk (-1)
     else if f_type x = FD_PIPE then pipewrite (f_pipe x) src
     else if f_type x = FD_INODE then filewrite_loop (length src) f src (int (length src))
     else panick ''filewrite'')"

text \<open>The clean-up at the label \<open>bad\<close> of \<open>pipealloc\<close>.\<close>

definition pipealloc_bad ::
  "uint \<Rightarrow> nat option \<Rightarrow> nat option \<Rightarrow> ('a file_state_scheme, (nat \<times> nat) option) kop" where
  "pipealloc_bad p f0 f1 =
    thenk (whenk (p \<noteq> 0) (kfree p)) (
    thenk ((case f0 of Some f \<Rightarrow> fileclose f | None \<Rightarrow> returnk ())) (
    thenk ((case f1 of Some f \<Rightarrow> fileclose f | None \<Rightarrow> returnk ())) (
    returnk None)))"

definition pipealloc :: "('a file_state_scheme, (nat \<times> nat) option) kop" where
  "pipealloc =
    bindk (filealloc) (\<lambda>f0.
    (case f0 of None \<Rightarrow> pipealloc_bad 0 None None | Some a \<Rightarrow>
      bindk (filealloc) (\<lambda>f1.
      (case f1 of None \<Rightarrow> pipealloc_bad 0 f0 None | Some b \<Rightarrow>
        bindk (kalloc) (\<lambda>p.
        if p = 0 then pipealloc_bad 0 f0 f1
         else
           thenk (pipe_init p) (
           thenk (modk (upd_file a (\<lambda>x. x\<lparr>f_type := FD_PIPE, f_readable := True, f_writable := False,
             f_pipe := p\<rparr>))) (
           thenk (modk (upd_file b (\<lambda>x. x\<lparr>f_type := FD_PIPE, f_readable := False, f_writable := True,
             f_pipe := p\<rparr>))) (
           returnk (Some (a, b))))))))))"

end
