(* ===== verification/ProcOps.thy ===== *)
theory ProcOps
  imports File
begin

text \<open>
  The life cycle of a process (\<open>src/proc.c\<close>): the first process, \<open>fork\<close>, exit of a thread
  and of a process, \<open>wait\<close>, the first return of a forked thread and the process listing.
  The image of \<open>initcode.S\<close>, which the build generates, is an argument of \<open>userinit\<close>.
\<close>

section \<open>State\<close>

record procops_state = file_state +
  forkret_first :: bool

section \<open>Creation\<close>

text \<open>Structure assignment of a trap frame.\<close>

definition copy_tf :: "uint \<Rightarrow> uint \<Rightarrow> 'a kmem_state_scheme \<Rightarrow> 'a kmem_state_scheme" where
  "copy_tf dst src s = s\<lparr>mem := memmove (mem s) dst src sizeof_trapframe\<rparr>"

definition set_tf :: "uint \<Rightarrow> uint \<Rightarrow> uint \<Rightarrow> 'a kmem_state_scheme \<Rightarrow> 'a kmem_state_scheme" where
  "set_tf t off v s = s\<lparr>mem := store32 (mem s) (t + off) v\<rparr>"

text \<open>
  The segment fields are 16 bits wide; the frame was cleared just before, so storing 32 bits
  leaves the same bytes.
\<close>

definition userinit :: "uchar list \<Rightarrow> ('a procops_state_scheme, unit) kop" where
  "userinit initcode =
    bindk (allocproc) (\<lambda>po.
    bindk (derefk ''userinit: no process'' po) (\<lambda>p.
    thenk (acquire PtableLock) (
    thenk (modk (\<lambda>s. s\<lparr>initproc := Some p\<rparr>)) (
    bindk (setupkvm) (\<lambda>d.
    thenk (modk (upd_proc p (\<lambda>x. x\<lparr>pgdir := d\<rparr>))) (
    if d = 0 then panick ''userinit: out of memory?''
     else
       thenk (inituvm d initcode) (
       thenk (modk (upd_proc p (\<lambda>x. x\<lparr>psz := PGSIZE\<rparr>))) (
       bindk (getk (\<lambda>s. tf (thr p 0 s))) (\<lambda>t.
       thenk (modk (\<lambda>s. s\<lparr>mem := memset (mem s) t 0 sizeof_trapframe\<rparr>)) (
       thenk (modk (set_tf t 60 27)) (
       thenk (modk (set_tf t 44 35)) (
       thenk (modk (set_tf t 40 35)) (
       thenk (modk (set_tf t 72 35)) (
       thenk (modk (set_tf t 64 0x200)) (
       thenk (modk (set_tf t tf_esp PGSIZE)) (
       thenk (modk (set_tf t tf_eip 0)) (
       thenk (modk (upd_proc p (\<lambda>x. x\<lparr>pname := safestrcpy (rd [105,110,105,116,99,111,100,101]) 16\<rparr>))) (
       bindk (namei [SLASH]) (\<lambda>c.
       thenk (modk (upd_proc p (\<lambda>x. x\<lparr>cwd := c\<rparr>))) (
       thenk (modk (upd_proc p (\<lambda>x. x\<lparr>pstate := USED\<rparr>))) (
       thenk (modk (upd_thread p 0 (\<lambda>t. t\<lparr>tstate := RUNNABLE\<rparr>))) (
       release PtableLock))))))))))))))))))))))"

definition dup_files :: "nat \<Rightarrow> nat \<Rightarrow> ('a file_state_scheme, unit) kop" where
  "dup_files p np = foreachk [0..<NOFILE] (\<lambda>i.
    bindk (getk (\<lambda>s. ofile (procs s ! p) ! i)) (\<lambda>fo.
    (case fo of
        None \<Rightarrow> returnk ()
      | Some f \<Rightarrow>
        bindk (filedup f) (\<lambda>f'.
        modk (upd_proc np (\<lambda>x. x\<lparr>ofile := (ofile x)[i := Some f']\<rparr>))))))"

definition fork :: "('a file_state_scheme, int) kop" where
  "fork =
    bindk (curproc) (\<lambda>p.
    bindk (mythread) (\<lambda>ct.
    bindk (allocproc) (\<lambda>npo.
    (case npo of
        None \<Rightarrow> returnk (-1)
      | Some np \<Rightarrow>
        thenk (acquire PtableLock) (
        bindk (getk (\<lambda>s. procs s ! p)) (\<lambda>x.
        bindk (copyuvm (pgdir x) (psz x)) (\<lambda>d.
        thenk (modk (upd_proc np (\<lambda>y. y\<lparr>pgdir := d\<rparr>))) (
        if d = 0 then
          bindk (getk (\<lambda>s. kstack (thr np 0 s))) (\<lambda>k.
          thenk (kfree k) (
          thenk (modk (upd_thread np 0 (\<lambda>t. t\<lparr>kstack := 0\<rparr>))) (
          thenk (modk (upd_proc np (\<lambda>y. y\<lparr>pstate := UNUSED\<rparr>))) (
          thenk (modk (upd_thread np 0 (\<lambda>t. t\<lparr>tstate := UNUSED_T\<rparr>))) (
          returnk (-1))))))
          else
            thenk (modk (upd_proc np (\<lambda>y. y\<lparr>psz := psz x, parent := Some p\<rparr>))) (
            bindk (derefk ''mythread() is null'' ct) (\<lambda>(q, i).
            thenk (modk (\<lambda>s. copy_tf (tf (thr np 0 s)) (tf (thr q i s)) s)) (
            thenk (modk (\<lambda>s. set_tf (tf (thr np 0 s)) tf_eax 0 s)) (
            thenk (dup_files p np) (
            bindk (derefk ''cwd is null'' (cwd x)) (\<lambda>c.
            bindk (idup c) (\<lambda>c'.
            thenk (modk (upd_proc np (\<lambda>y. y\<lparr>cwd := Some c'\<rparr>))) (
            thenk (modk (upd_proc np (\<lambda>y. y\<lparr>pname := safestrcpy (rd (pname x)) 16\<rparr>))) (
            bindk (getk (\<lambda>s. pid (procs s ! np))) (\<lambda>n.
            thenk (modk (upd_thread np 0 (\<lambda>t. t\<lparr>tstate := RUNNABLE\<rparr>))) (
            thenk (release PtableLock) (
            returnk n))))))))))))))))))))"

definition forkret :: "('a procops_state_scheme, unit) kop" where
  "forkret =
    thenk (release PtableLock) (
    bindk (getk forkret_first) (\<lambda>first.
    whenk first (
      thenk (modk (\<lambda>s. s\<lparr>forkret_first := False\<rparr>)) (
      thenk (iinit ROOTDEV) (
      initlog ROOTDEV)))))"

section \<open>Exit\<close>

definition close_files :: "nat \<Rightarrow> ('a file_state_scheme, unit) kop" where
  "close_files p = foreachk [0..<NOFILE] (\<lambda>fd.
    bindk (getk (\<lambda>s. ofile (procs s ! p) ! fd)) (\<lambda>fo.
    (case fo of
        None \<Rightarrow> returnk ()
      | Some f \<Rightarrow>
        thenk (fileclose f) (
        modk (upd_proc p (\<lambda>x. x\<lparr>ofile := (ofile x)[fd := None]\<rparr>))))))"

definition reparent :: "nat \<Rightarrow> ('a proc_state_scheme, unit) kop" where
  "reparent p = foreachk [0..<NPROC] (\<lambda>q.
    bindk (getk (\<lambda>s. procs s ! q)) (\<lambda>x.
    whenk (parent x = Some p) (
      bindk (getk initproc) (\<lambda>ip.
      thenk (modk (upd_proc q (\<lambda>x. x\<lparr>parent := ip\<rparr>))) (
      whenk (pstate x = ZOMBIE) (wakeup1 (map_option ChanProc ip)))))))"

definition exit_process :: "('a file_state_scheme, unit) kop" where
  "exit_process =
    bindk (myproc) (\<lambda>po.
    bindk (getk initproc) (\<lambda>ip.
    if po = ip then panick ''init exiting''
     else
       bindk (derefk ''myproc() is null'' po) (\<lambda>p.
       thenk (close_files p) (
       thenk (begin_op) (
       bindk (getk (\<lambda>s. cwd (procs s ! p))) (\<lambda>c.
       bindk (derefk ''cwd is null'' c) (\<lambda>c.
       thenk (iput c) (
       thenk (end_op) (
       thenk (modk (upd_proc p (\<lambda>x. x\<lparr>cwd := None\<rparr>))) (
       thenk (acquire PtableLock) (
       bindk (getk (\<lambda>s. parent (procs s ! p))) (\<lambda>par.
       thenk (wakeup1 (map_option ChanProc par)) (
       thenk (reparent p) (
       thenk (modk (upd_proc p (\<lambda>x. x\<lparr>killed := True\<rparr>))) (
       thenk (modk (upd_proc p (\<lambda>x. x\<lparr>pstate := ZOMBIE\<rparr>))) (
       bindk (curthread) (\<lambda>(q, i).
       thenk (modk (upd_thread q i (\<lambda>t. t\<lparr>tstate := ZOMBIE_T\<rparr>))) (
       thenk (sched) (
       panick ''zombie exit'')))))))))))))))))))"

definition live_thread :: "thread \<Rightarrow> bool" where
  "live_thread t \<longleftrightarrow> tstate t \<noteq> ZOMBIE_T \<and> tstate t \<noteq> UNUSED_T"

definition running_threads :: "proc \<Rightarrow> nat" where
  "running_threads x = length (filter live_thread (take (t_num x) (threads x)))"

definition exit_thread :: "('a file_state_scheme, unit) kop" where
  "exit_thread =
    bindk (curproc) (\<lambda>p.
    bindk (getk (\<lambda>s. running_threads (procs s ! p))) (\<lambda>running_t.
    if running_t = 0 then panick ''No running thread!''
     else
       thenk (whenk (running_t = 2) (wakeup1 (Some (ChanProc p)))) (
       if running_t = 1 then
         thenk (release PtableLock) (
         exit_process)
       else
         bindk (curthread) (\<lambda>(q, i).
         thenk (wakeup1 (Some (ChanThread q i))) (
         thenk (modk (upd_thread q i (\<lambda>t. t\<lparr>tstate := ZOMBIE_T\<rparr>))) (
         sched))))))"

definition exit :: "('a file_state_scheme, unit) kop" where
  "exit =
    bindk (curproc) (\<lambda>p.
    thenk (acquire PtableLock) (
    bindk (curthread) (\<lambda>(q, i).
    bindk (getk (\<lambda>s. tkilled (thr q i s))) (\<lambda>k.
    if k then exit_thread
     else
       thenk (modk (upd_proc p kill_threads)) (
       release PtableLock)))))"

section \<open>Waiting for a child\<close>

definition reap_thread :: "nat \<Rightarrow> nat \<Rightarrow> ('a proc_state_scheme, unit) kop" where
  "reap_thread p i =
    bindk (getk (thr p i)) (\<lambda>t.
    whenk (tstate t = ZOMBIE_T) (
      thenk (kfree (kstack t)) (
      modk (upd_thread p i (\<lambda>t. t\<lparr>kstack := 0, tid := 0, p_parent := None, tkilled := False,
         tstate := UNUSED_T\<rparr>)))))"

definition zombie_child :: "nat \<Rightarrow> 'a proc_state_scheme \<Rightarrow> nat option" where
  "zombie_child p s =
     find (\<lambda>q. parent (procs s ! q) = Some p \<and> pstate (procs s ! q) = ZOMBIE) [0..<NPROC]"

definition havekids :: "nat \<Rightarrow> 'a proc_state_scheme \<Rightarrow> bool" where
  "havekids p s \<longleftrightarrow> (\<exists>q \<in> set [0..<NPROC]. parent (procs s ! q) = Some p)"

definition wait_loop :: "('a proc_state_scheme, int) kop" where
  "wait_loop =
    bindk (curproc) (\<lambda>p.
    bindk (getk (zombie_child p)) (\<lambda>found.
    (case found of
        Some q \<Rightarrow>
          bindk (getk (\<lambda>s. procs s ! q)) (\<lambda>x.
          thenk (modk (upd_proc q (\<lambda>x. x\<lparr>pid := 0\<rparr>))) (
          thenk (freevm (pgdir x)) (
          thenk (modk (upd_proc q (\<lambda>x. x\<lparr>parent := None, pname := (pname x)[0 := 0], pstate := UNUSED\<rparr>))) (
          thenk (foreachk [0..<t_num x] (reap_thread q)) (
          thenk (release PtableLock) (
          returnk (pid x)))))))
      | None \<Rightarrow>
        bindk (getk (havekids p)) (\<lambda>kids.
        bindk (curthread) (\<lambda>(q, i).
        bindk (getk (\<lambda>s. tkilled (thr q i s))) (\<lambda>k.
        if \<not> kids \<or> k then
          thenk (release PtableLock) (
          returnk (-1))
          else
            thenk (sleep (ChanProc p) PtableLock) (
            stopk (Undef ''sleep returned''))))))))"

definition wait :: "('a proc_state_scheme, int) kop" where
  "wait =
    thenk (acquire PtableLock) (
    wait_loop)"

definition wait_resume :: "nat \<times> nat \<Rightarrow> bool \<Rightarrow> ('a proc_state_scheme, int) kop" where
  "wait_resume t i =
    thenk (sleep_resume t i PtableLock) (
    wait_loop)"

section \<open>Process listing\<close>

primrec callerpcs :: "nat \<Rightarrow> memory \<Rightarrow> uint \<Rightarrow> uint list" where
  "callerpcs 0 m ebp = []"
| "callerpcs (Suc k) m ebp =
     (if ebp = 0 \<or> ebp < KERNBASE \<or> ebp = 0xffffffff then replicate (Suc k) 0
      else load32 m (ebp + 4) # callerpcs k m (load32 m ebp))"

definition getcallerpcs :: "memory \<Rightarrow> uint \<Rightarrow> uint list" where
  "getcallerpcs m v = callerpcs 10 m (v - 8)"

text \<open>
  The names the table \<open>states\<close> gives. Its last entry is indexed by the process state
  \<open>ZOMBIE\<close>, whose value 1 is that of the thread state \<open>EMBRYO\<close>, and so replaces the name of
  the latter; the table ends at \<open>RUNNING\<close>.
\<close>

definition state_name :: "threadstate \<Rightarrow> string" where
  "state_name st =
     (case st of
        UNUSED_T \<Rightarrow> ''unused'' | EMBRYO \<Rightarrow> ''zombie'' | SLEEPING \<Rightarrow> ''sleep ''
      | RUNNABLE \<Rightarrow> ''runble'' | RUNNING \<Rightarrow> ''run   '' | ZOMBIE_T \<Rightarrow> ''???'' | BLOCKED \<Rightarrow> ''???'')"

definition bytes_of :: "string \<Rightarrow> uchar list" where
  "bytes_of = map (\<lambda>c. of_nat (of_char c))"

definition procdump_thread :: "nat \<Rightarrow> nat \<Rightarrow> ('a cons_state_scheme, unit) kop" where
  "procdump_thread p j =
    bindk (getk (\<lambda>s. procs s ! p)) (\<lambda>x.
    bindk (getk (thr p j)) (\<lambda>t.
    thenk (cprintf (Some (bytes_of ''pid:%d tid:%d %s %s''))
       [FInt (of_int (pid x)), FInt (of_int (tid t)), FStr (Some (bytes_of (state_name (tstate t)))),
        FStr (Some (takeWhile (\<lambda>c. c \<noteq> 0) (pname x)))]) (
    thenk (whenk (tstate t = SLEEPING) (
      bindk (getk (\<lambda>s. getcallerpcs (mem s) (load32 (mem s) (tcontext t + 12) + 8))) (\<lambda>pcs.
      foreachk (takeWhile (\<lambda>pc. pc \<noteq> 0) pcs) (\<lambda>pc. cprintf (Some (bytes_of '' %p'')) [FInt pc])))) (
    cprintf (Some [10]) []))))"

definition procdump :: "('a cons_state_scheme, unit) kop" where
  "procdump = foreachk [0..<NPROC] (\<lambda>p.
    bindk (getk (\<lambda>s. procs s ! p)) (\<lambda>x.
    whenk (pstate x \<noteq> UNUSED) (foreachk [0..<t_num x] (procdump_thread p))))"

end
