(* ===== verification/Kthread.thy ===== *)
theory Kthread
  imports ProcOps
begin

text \<open>
  Kernel threads and their mutexes (end of \<open>src/proc.c\<close>, \<open>src/kthread.h\<close>) and the tournament
  tree built from the mutexes (\<open>src/tournament_tree.c\<close>). The lock, unlock and deallocation
  of a mutex work on a copy of its structure on the kernel stack of the caller: the copy of
  the spin lock is \<open>LocalMutexLock\<close> of the calling thread, the copied \<open>locked\<close> word is a
  value of the definition. An index outside \<open>mutexes\<close> is \<open>Undef\<close>.
\<close>

section \<open>State\<close>

abbreviation (input) MAX_MUTEXES :: int where "MAX_MUTEXES \<equiv> 64"

record kmutex =
  km_locked :: uint
  km_id :: int

record kt_state = procops_state +
  mutexes :: "kmutex list"
  mutex_num :: int

definition upd_mutex :: "nat \<Rightarrow> (kmutex \<Rightarrow> kmutex) \<Rightarrow> 'a kt_state_scheme \<Rightarrow> 'a kt_state_scheme" where
  "upd_mutex k f s = s\<lparr>mutexes := (mutexes s)[k := f (mutexes s ! k)]\<rparr>"

section \<open>Threads\<close>

definition kthread_create :: "uint \<Rightarrow> uint \<Rightarrow> ('a proc_state_scheme, int) kop" where
  "kthread_create start_func stack =
    thenk (acquire PtableLock) (
    bindk (curproc) (\<lambda>p.
    bindk (allocthread p False) (\<lambda>ok.
    if \<not> ok then returnk 0
     else
       bindk (curproc) (\<lambda>p.
       bindk (getk (\<lambda>s. t_num (procs s ! p) - 1)) (\<lambda>i.
       bindk (curthread) (\<lambda>(q, j).
       thenk (modk (\<lambda>s. copy_tf (tf (thr p i s)) (tf (thr q j s)) s)) (
       thenk (modk (\<lambda>s. set_tf (tf (thr p i s)) tf_eip start_func s)) (
       thenk (modk (\<lambda>s. set_tf (tf (thr p i s)) tf_esp stack s)) (
       thenk (release PtableLock) (
       getk (\<lambda>s. tid (thr p i s))))))))))))"

definition kthread_exit :: "('a file_state_scheme, unit) kop" where
  "kthread_exit =
    thenk (acquire PtableLock) (
    exit_thread)"

definition find_tid :: "proc \<Rightarrow> int \<Rightarrow> nat option" where
  "find_tid x n = find (\<lambda>i. tid (threads x ! i) = n) (rev [0..<t_num x])"

text \<open>
  The loop of \<open>kthread_join\<close>. A thread in state \<open>UNUSED_T\<close> makes it go round without ever
  giving up the lock.
\<close>

definition kthread_join_loop :: "nat \<Rightarrow> nat \<Rightarrow> ('a proc_state_scheme, int) kop" where
  "kthread_join_loop p i =
    bindk (getk (\<lambda>s. tstate (thr p i s))) (\<lambda>st.
    if st = ZOMBIE_T then
      thenk (release PtableLock) (
      returnk 0)
     else if st \<noteq> UNUSED_T then
       thenk (sleep (ChanThread p i) PtableLock) (
       stopk (Undef ''sleep returned''))
     else stopk Diverge)"

definition kthread_join :: "int \<Rightarrow> ('a cons_state_scheme, int) kop" where
  "kthread_join n =
    thenk (acquire PtableLock) (
    bindk (curproc) (\<lambda>p.
    bindk (getk (\<lambda>s. find_tid (procs s ! p) n)) (\<lambda>found.
    (case found of
        None \<Rightarrow>
          thenk (cprintf (Some (bytes_of ''kthread_join: no thread matches the id'')) []) (
          returnk (-1))
      | Some i \<Rightarrow> kthread_join_loop p i))))"

definition kthread_join_resume ::
  "nat \<times> nat \<Rightarrow> bool \<Rightarrow> nat \<Rightarrow> nat \<Rightarrow> ('a proc_state_scheme, int) kop" where
  "kthread_join_resume t e p i =
    thenk (sleep_resume t e PtableLock) (
    kthread_join_loop p i)"

section \<open>Mutexes\<close>

definition mutex_index :: "int \<Rightarrow> ('a kt_state_scheme, nat) kop" where
  "mutex_index k =
     (if 0 \<le> k \<and> k < MAX_MUTEXES then returnk (nat k) else stopk (Undef ''mutexes out of bounds''))"

definition kthread_mutex_alloc :: "('a kt_state_scheme, int) kop" where
  "kthread_mutex_alloc =
    bindk (getk mutex_num) (\<lambda>n.
    thenk (whenk (n = 0) (initlock MutexesLock ''mutex lock'')) (
    if n = MAX_MUTEXES then returnk (-1)
     else
       thenk (acquire MutexesLock) (
       thenk (modk (\<lambda>s. s\<lparr>mutex_num := mutex_num s + 1\<rparr>)) (
       thenk (release MutexesLock) (
       bindk (getk mutex_num) (\<lambda>n.
       bindk (mutex_index (n - 1)) (\<lambda>k.
       thenk (initlock (MutexLock k) ''mutex lock'') (
       thenk (acquire (MutexLock k)) (
       thenk (modk (upd_mutex k (\<lambda>m. m\<lparr>km_locked := 0\<rparr>))) (
       thenk (modk (\<lambda>s. upd_mutex k (\<lambda>m. m\<lparr>km_id := mutex_num s\<rparr>) s)) (
       thenk (release (MutexLock k)) (
       thenk (acquire MutexesLock) (
       bindk (getk mutex_num) (\<lambda>n.
       bindk (mutex_index (n - 1)) (\<lambda>j.
       thenk (modk (\<lambda>s. upd_lock (MutexLock j) (\<lambda>_. locks s (MutexLock k))
                   (upd_mutex j (\<lambda>_. mutexes s ! k) s))) (
       thenk (release MutexesLock) (
       getk (\<lambda>s. km_id (mutexes s ! k)))))))))))))))))))"

text \<open>\<open>mutex = mutexes[mutex_id - 1]\<close>: the copy on the stack of the calling thread.\<close>

definition copy_mutex :: "int \<Rightarrow> ('a kt_state_scheme, spinlock_id \<times> chan \<times> kmutex) kop" where
  "copy_mutex mutex_id =
    bindk (mutex_index (mutex_id - 1)) (\<lambda>k.
    bindk (curthread) (\<lambda>(q, i).
    thenk (modk (\<lambda>s. upd_lock (LocalMutexLock q i) (\<lambda>_. locks s (MutexLock k)) s)) (
    bindk (getk (\<lambda>s. mutexes s ! k)) (\<lambda>m.
    returnk (LocalMutexLock q i, ChanMutexCopy q i, m)))))"

definition kthread_mutex_dealloc :: "int \<Rightarrow> ('a kt_state_scheme, int) kop" where
  "kthread_mutex_dealloc mutex_id =
     (if 0 > mutex_id \<or> mutex_id > MAX_MUTEXES then returnk (-1)
      else
        bindk (copy_mutex mutex_id) (\<lambda>(lk, ch, m).
        if km_locked m \<noteq> 0 then returnk (-1)
        else
          thenk (acquire lk) (
          thenk (wakeup ch) (
          thenk (release lk) (
          thenk (acquire MutexesLock) (
          thenk (modk (\<lambda>s. s\<lparr>mutex_num := mutex_num s - 1\<rparr>)) (
          thenk (release MutexesLock) (
          returnk 0))))))))"

text \<open>The copied word \<open>locked\<close> never changes while the caller sleeps: nobody else has it.\<close>

definition kthread_mutex_lock_loop ::
  "spinlock_id \<Rightarrow> chan \<Rightarrow> kmutex \<Rightarrow> ('a kt_state_scheme, int) kop" where
  "kthread_mutex_lock_loop lk ch m =
     (if km_locked m \<noteq> 0 then
       thenk (sleep ch lk) (
       stopk (Undef ''sleep returned''))
      else
        thenk (release lk) (
        returnk 0))"

definition kthread_mutex_lock :: "int \<Rightarrow> ('a kt_state_scheme, int) kop" where
  "kthread_mutex_lock mutex_id =
     (if 0 > mutex_id \<or> mutex_id > MAX_MUTEXES then returnk (-1)
      else
        bindk (copy_mutex mutex_id) (\<lambda>(lk, ch, m).
        thenk (acquire lk) (
        kthread_mutex_lock_loop lk ch m)))"

definition kthread_mutex_lock_resume ::
  "nat \<times> nat \<Rightarrow> bool \<Rightarrow> spinlock_id \<Rightarrow> chan \<Rightarrow> kmutex \<Rightarrow> ('a kt_state_scheme, int) kop" where
  "kthread_mutex_lock_resume t e lk ch m =
     thenk (sleep_resume t e lk) (
     kthread_mutex_lock_loop lk ch m)"

definition kthread_mutex_unlock :: "int \<Rightarrow> ('a kt_state_scheme, int) kop" where
  "kthread_mutex_unlock mutex_id =
     (if 0 > mutex_id \<or> mutex_id > MAX_MUTEXES then returnk (-1)
      else
        bindk (copy_mutex mutex_id) (\<lambda>(lk, ch, m).
        thenk (acquire lk) (
        thenk (wakeup ch) (
        thenk (release lk) (
        returnk 0)))))"

section \<open>Tournament trees\<close>

text \<open>
  The tree is a user-level structure; its calls of the mutex functions are system calls and
  run the kernel operations. The results of its two calls of \<open>malloc\<close> are arguments. The
  nodes are those the code stores one by one in the array.
\<close>

record trnmnt_tree =
  nodes :: "int list"
  tdepth :: int
  nodes_num :: int

primrec power_loop :: "nat \<Rightarrow> int \<Rightarrow> int \<Rightarrow> int" where
  "power_loop 0 b acc = acc"
| "power_loop (Suc k) b acc = power_loop k b (acc * b)"

definition power_c :: "int \<Rightarrow> int \<Rightarrow> int" where
  "power_c b pwr = power_loop (nat pwr) b 1"

primrec alloc_nodes :: "nat \<Rightarrow> int list \<Rightarrow> ('a kt_state_scheme, int list option) kop" where
  "alloc_nodes 0 ns = returnk (Some ns)"
| "alloc_nodes (Suc k) ns =
  bindk (kthread_mutex_alloc) (\<lambda>mutex_id.
  if mutex_id < 0 then returnk None else alloc_nodes k (ns @ [mutex_id]))"

definition trnmnt_tree_alloc ::
  "uint \<Rightarrow> uint \<Rightarrow> int \<Rightarrow> ('a kt_state_scheme, trnmnt_tree option) kop" where
  "trnmnt_tree_alloc tree_mem nodes_mem dep =
     (if dep < 1 then returnk None
      else if tree_mem = 0 \<or> nodes_mem = 0 then stopk (Undef ''malloc failed'')
      else
        bindk (alloc_nodes (nat (power_c 2 dep)) []) (\<lambda>ns.
        returnk (map_option (\<lambda>ns. \<lparr>nodes = ns, tdepth = dep, nodes_num = power_c 2 dep\<rparr>) ns)))"

definition tree_node :: "trnmnt_tree \<Rightarrow> int \<Rightarrow> ('s, int) kop" where
  "tree_node tree i =
     (if 0 \<le> i \<and> nat i < length (nodes tree) then returnk (nodes tree ! nat i)
      else stopk (Undef ''nodes out of bounds''))"

primrec dealloc_nodes :: "int list \<Rightarrow> ('a kt_state_scheme, int) kop" where
  "dealloc_nodes [] = returnk 0"
| "dealloc_nodes (n # ns) =
  bindk (kthread_mutex_dealloc (if n < 0 then 1 else 0)) (\<lambda>r.
  if r \<noteq> 0 then returnk (-1) else dealloc_nodes ns)"

definition trnmnt_tree_dealloc :: "trnmnt_tree \<Rightarrow> ('a kt_state_scheme, int) kop" where
  "trnmnt_tree_dealloc tree = dealloc_nodes (take (nat (nodes_num tree)) (nodes tree))"

text \<open>
  C division truncates towards zero. From a non-negative node the father is a smaller one, so
  \<open>current\<close> bounds the number of rounds; a negative index is out of bounds at once.
\<close>

definition father :: "int \<Rightarrow> int" where
  "father current = (if current - 1 < 0 then - ((1 - current) div 2) else (current - 1) div 2)"

primrec acquire_path :: "nat \<Rightarrow> trnmnt_tree \<Rightarrow> int \<Rightarrow> ('a kt_state_scheme, int) kop" where
  "acquire_path 0 tree current = (if current = 0 then returnk 0 else stopk Diverge)"
| "acquire_path (Suc k) tree current =
     (if current = 0 then returnk 0
      else
        bindk (tree_node tree (father current)) (\<lambda>n.
        bindk (kthread_mutex_lock n) (\<lambda>r.
        if r < 0 then returnk (-1) else acquire_path k tree (father current))))"

definition trnmnt_tree_acquire :: "trnmnt_tree \<Rightarrow> int \<Rightarrow> ('a kt_state_scheme, int) kop" where
  "trnmnt_tree_acquire tree ID =
     (if ID > 0 \<or> ID > nodes_num tree then returnk (-1)
      else (let current = nodes_num tree - 1 + ID in
            acquire_path (nat \<bar>current\<bar>) tree current))"

primrec rec_trnmnt_tree_release ::
  "nat \<Rightarrow> trnmnt_tree \<Rightarrow> int \<Rightarrow> ('a kt_state_scheme, int) kop" where
  "rec_trnmnt_tree_release 0 tree ID = stopk Diverge"
| "rec_trnmnt_tree_release (Suc k) tree ID =
     (if ID = 0 then
       bindk (tree_node tree ID) (\<lambda>n.
       bindk (kthread_mutex_unlock n) (\<lambda>r.
       returnk (if r < 0 then 1 else 0)))
      else
        bindk (rec_trnmnt_tree_release k tree (father ID)) (\<lambda>error.
        bindk (tree_node tree ID) (\<lambda>n.
        bindk (kthread_mutex_unlock n) (\<lambda>r.
        returnk (if r < 0 then 1 else error)))))"

definition trnmnt_tree_release :: "trnmnt_tree \<Rightarrow> int \<Rightarrow> ('a kt_state_scheme, int) kop" where
  "trnmnt_tree_release tree ID =
    bindk (rec_trnmnt_tree_release (nat \<bar>ID\<bar> + 1) tree ID) (\<lambda>error.
    returnk (if error > 0 then -1 else 0))"

end
