(* ===== verification/Syscall.thy ===== *)
theory Syscall
  imports Kthread
begin

text \<open>
  Access to the arguments of a system call (\<open>src/syscall.c\<close>). The kernel reads and writes
  user memory through the page table the hardware is using; the walk the hardware does is
  \<open>translate\<close>. An access to a page that is not mapped, or not writable, traps in kernel mode
  and ends in \<open>panic("trap")\<close>.
\<close>

section \<open>User memory\<close>

definition translate :: "bool \<Rightarrow> memory \<Rightarrow> uint \<Rightarrow> uint \<Rightarrow> uint option" where
  "translate w m root va =
     (let pde = load32 m (P2V root + 4 * PDX va) in
      if pde AND PTE_P = 0 \<or> w \<and> pde AND PTE_W = 0 then None
      else
      (let pte = load32 m (P2V (PTE_ADDR pde) + 4 * PTX va) in
       if pte AND PTE_P = 0 \<or> w \<and> pte AND PTE_W = 0 then None
       else Some (P2V (PTE_ADDR pte) + (va AND 0xFFF))))"

definition user_load :: "uint \<Rightarrow> ('a kmem_state_scheme, uchar) kop" where
  "user_load va =
    bindk (getk (\<lambda>s. translate False (mem s) (cr3 s (lapicid s)) va)) (\<lambda>a.
    (case a of None \<Rightarrow> panick ''trap'' | Some ka \<Rightarrow> getk (\<lambda>s. mem s ka)))"

definition user_store :: "uint \<Rightarrow> uchar \<Rightarrow> ('a kmem_state_scheme, unit) kop" where
  "user_store va b =
    bindk (getk (\<lambda>s. translate True (mem s) (cr3 s (lapicid s)) va)) (\<lambda>a.
    (case a of None \<Rightarrow> panick ''trap'' | Some ka \<Rightarrow> modk (\<lambda>s. s\<lparr>mem := (mem s)(ka := b)\<rparr>)))"

primrec user_read :: "nat \<Rightarrow> uint \<Rightarrow> ('a kmem_state_scheme, uchar list) kop" where
  "user_read 0 va = returnk []"
| "user_read (Suc n) va =
  bindk (user_load va) (\<lambda>b.
  bindk (user_read n (va + 1)) (\<lambda>bs.
  returnk (b # bs)))"

primrec user_write :: "uint \<Rightarrow> uchar list \<Rightarrow> ('a kmem_state_scheme, unit) kop" where
  "user_write va [] = returnk ()"
| "user_write va (b # bs) =
  thenk (user_store va b) (
  user_write (va + 1) bs)"

section \<open>Arguments\<close>

definition fetchint :: "uint \<Rightarrow> ('a proc_state_scheme, uint option) kop" where
  "fetchint addr =
    bindk (curproc) (\<lambda>p.
    bindk (getk (\<lambda>s. psz (procs s ! p))) (\<lambda>sz.
    if addr \<ge> sz \<or> addr + 4 > sz then returnk None
     else
       bindk (user_read 4 addr) (\<lambda>bs.
       returnk (Some (un32 (bs ! 0) (bs ! 1) (bs ! 2) (bs ! 3))))))"

text \<open>The scan of \<open>fetchstr\<close>, at most to the end of the process.\<close>

primrec scan_str :: "nat \<Rightarrow> uint \<Rightarrow> ('a kmem_state_scheme, uchar list option) kop" where
  "scan_str 0 va = returnk None"
| "scan_str (Suc n) va =
  bindk (user_load va) (\<lambda>b.
  if b = 0 then returnk (Some [])
     else
       bindk (scan_str n (va + 1)) (\<lambda>r.
       returnk (map_option ((#) b) r)))"

definition fetchstr :: "uint \<Rightarrow> ('a proc_state_scheme, uchar list option) kop" where
  "fetchstr addr =
    bindk (curproc) (\<lambda>p.
    bindk (getk (\<lambda>s. psz (procs s ! p))) (\<lambda>sz.
    if addr \<ge> sz then returnk None else scan_str (unat (sz - addr)) addr))"

definition argint :: "nat \<Rightarrow> ('a proc_state_scheme, uint option) kop" where
  "argint n =
    bindk (curthread) (\<lambda>(q, i).
    bindk (getk (\<lambda>s. load32 (mem s) (tf (thr q i s) + tf_esp))) (\<lambda>esp.
    fetchint (esp + 4 + 4 * of_nat n)))"

definition argptr :: "nat \<Rightarrow> int \<Rightarrow> ('a proc_state_scheme, uint option) kop" where
  "argptr n size' =
    bindk (curproc) (\<lambda>p.
    bindk (argint n) (\<lambda>a.
    (case a of
        None \<Rightarrow> returnk None
      | Some i \<Rightarrow>
        bindk (getk (\<lambda>s. psz (procs s ! p))) (\<lambda>sz.
        returnk (if size' < 0 \<or> i \<ge> sz \<or> i + of_int size' > sz then None else Some i)))))"

definition argstr :: "nat \<Rightarrow> ('a proc_state_scheme, uchar list option) kop" where
  "argstr n =
    bindk (argint n) (\<lambda>a.
    (case a of None \<Rightarrow> returnk None | Some addr \<Rightarrow> fetchstr addr))"

end
