(* ===== verification/Exec.thy ===== *)
theory Exec
  imports Syscall
begin

text \<open>
  Loading a program: \<open>loaduvm\<close> of \<open>src/vm.c\<close> and \<open>src/exec.c\<close>. The path and the argument
  strings are the byte lists that \<open>sys_exec\<close> fetched from user memory. The ELF structures of
  \<open>src/elf.h\<close> are read from their little-endian layout.
\<close>

section \<open>ELF structures\<close>

record elfhdr =
  e_magic :: uint
  e_entry :: uint
  e_phoff :: uint
  e_phnum :: ushort

record proghdr =
  ph_type :: uint
  ph_off :: uint
  ph_vaddr :: uint
  ph_filesz :: uint
  ph_memsz :: uint

definition dec_elfhdr :: "uchar list \<Rightarrow> elfhdr" where
  "dec_elfhdr d = \<lparr>e_magic = get32 d 0, e_entry = get32 d 24, e_phoff = get32 d 28,
     e_phnum = get16 d 44\<rparr>"

definition dec_proghdr :: "uchar list \<Rightarrow> proghdr" where
  "dec_proghdr d = \<lparr>ph_type = get32 d 0, ph_off = get32 d 4, ph_vaddr = get32 d 8,
     ph_filesz = get32 d 16, ph_memsz = get32 d 20\<rparr>"

abbreviation (input) ELF_MAGIC :: uint where "ELF_MAGIC \<equiv> 0x464C457F"
abbreviation (input) ELF_PROG_LOAD :: uint where "ELF_PROG_LOAD \<equiv> 1"
abbreviation (input) sizeof_elfhdr :: nat where "sizeof_elfhdr \<equiv> 52"
abbreviation (input) sizeof_proghdr :: nat where "sizeof_proghdr \<equiv> 32"
abbreviation (input) MAXARG :: nat where "MAXARG \<equiv> 32"

section \<open>Loading a segment\<close>

primrec loaduvm_loop ::
  "nat \<Rightarrow> uint \<Rightarrow> uint \<Rightarrow> nat \<Rightarrow> uint \<Rightarrow> uint \<Rightarrow> uint \<Rightarrow> ('a cons_state_scheme, int) kop" where
  "loaduvm_loop 0 d addr ip offset sz i = stopk Diverge"
| "loaduvm_loop (Suc fuel) d addr ip offset sz i =
     (if \<not> i < sz then returnk 0
      else
        bindk (walkpgdir d (addr + i) False) (\<lambda>pte.
        if pte = 0 then panick ''loaduvm: address should exist''
        else
          bindk (getword pte) (\<lambda>e.
          (let pa = PTE_ADDR e in
          (let n = (if sz - i < PGSIZE then sz - i else PGSIZE) in
          bindk (readi ip (offset + i) n) (\<lambda>(r, bs).
          thenk (modk (\<lambda>s. s\<lparr>mem := mem_write (mem s) (P2V pa) bs\<rparr>)) (
          if of_int r \<noteq> n then returnk (-1)
          else loaduvm_loop fuel d addr ip offset sz (i + PGSIZE))))))))"

definition loaduvm ::
  "uint \<Rightarrow> uint \<Rightarrow> nat \<Rightarrow> uint \<Rightarrow> uint \<Rightarrow> ('a cons_state_scheme, int) kop" where
  "loaduvm d addr ip offset sz =
     (if addr mod PGSIZE \<noteq> 0 then panick ''loaduvm: addr must be page aligned''
      else loaduvm_loop vm_fuel d addr ip offset sz 0)"

section \<open>Stopping the other threads\<close>

definition exec_kill :: "nat \<Rightarrow> proc \<Rightarrow> proc" where
  "exec_kill j x = x\<lparr>threads := map (\<lambda>(i, t).
     if i < t_num x \<and> i \<noteq> j \<and> tstate t \<noteq> UNUSED_T then t\<lparr>tkilled := True\<rparr> else t)
       (enumerate 0 (threads x))\<rparr>"

definition exec_wake :: "nat \<Rightarrow> proc \<Rightarrow> proc" where
  "exec_wake j x = x\<lparr>threads := map (\<lambda>(i, t).
     if i < t_num x \<and> i \<noteq> j \<and> tstate t = SLEEPING then t\<lparr>tstate := RUNNABLE\<rparr> else t)
       (enumerate 0 (threads x))\<rparr>"

definition others_live :: "nat \<Rightarrow> proc \<Rightarrow> bool" where
  "others_live j x \<longleftrightarrow> (\<exists>i \<in> set [0..<t_num x]. i \<noteq> j \<and> live_thread (threads x ! i))"

text \<open>
  One round of the waiting loop. While another thread of the process is alive the loop goes
  round again and only another CPU can end it; the model stops there with \<open>Spin\<close>.
\<close>

definition exec_wait :: "nat \<Rightarrow> nat \<Rightarrow> ('a proc_state_scheme, unit) kop" where
  "exec_wait p j =
    thenk (acquire PtableLock) (
    thenk (modk (upd_proc p (exec_wake j))) (
    thenk (release PtableLock) (
    bindk (getk (\<lambda>s. others_live j (procs s ! p))) (\<lambda>live.
    whenk live (stopk Spin)))))"

definition exec_alone :: "nat \<Rightarrow> ('a file_state_scheme, unit) kop" where
  "exec_alone p =
    bindk (curthread) (\<lambda>(q, j).
    bindk (getk (\<lambda>s. tkilled (thr q j s))) (\<lambda>k.
    if k then exit_thread
     else
       thenk (modk (upd_proc p (exec_kill j))) (
       exec_wait p j)))"

section \<open>The new image\<close>

text \<open>
  The label \<open>bad\<close>: \<open>d\<close> is the new page directory or 0, \<open>ipo\<close> the inode still held.
\<close>

definition exec_bad :: "uint \<Rightarrow> nat option \<Rightarrow> ('a file_state_scheme, int) kop" where
  "exec_bad d ipo =
    thenk (whenk (d \<noteq> 0) (freevm d)) (
    thenk ((case ipo of None \<Rightarrow> returnk () | Some ip \<Rightarrow>
      thenk (iunlockput ip) (
      end_op))) (
    returnk (-1)))"

text \<open>The loop over the program headers; \<open>None\<close> is a jump to \<open>bad\<close>.\<close>

primrec load_segments ::
  "nat \<Rightarrow> uint \<Rightarrow> nat \<Rightarrow> uint \<Rightarrow> uint \<Rightarrow> ('a cons_state_scheme, uint option) kop" where
  "load_segments 0 d ip off sz = returnk (Some sz)"
| "load_segments (Suc k) d ip off sz =
  bindk (readi ip off (of_nat sizeof_proghdr)) (\<lambda>(r, bs).
  if r \<noteq> int sizeof_proghdr then returnk None
     else
       (let ph = dec_proghdr bs in
       if ph_type ph \<noteq> ELF_PROG_LOAD then load_segments k d ip (off + of_nat sizeof_proghdr) sz
       else if ph_memsz ph < ph_filesz ph then returnk None
       else if ph_vaddr ph + ph_memsz ph < ph_vaddr ph then returnk None
       else
         bindk (allocuvm d sz (ph_vaddr ph + ph_memsz ph)) (\<lambda>sz.
         if sz = 0 then returnk None
         else if ph_vaddr ph mod PGSIZE \<noteq> 0 then returnk None
         else
           bindk (loaduvm d (ph_vaddr ph) ip (ph_off ph) (ph_filesz ph)) (\<lambda>r.
           if r < 0 then returnk None
           else load_segments k d ip (off + of_nat sizeof_proghdr) sz))))"

text \<open>
  The loop that pushes the argument strings: their addresses in order and the stack pointer.
\<close>

primrec push_args ::
  "uchar list list \<Rightarrow> uint \<Rightarrow> uint \<Rightarrow> uint list \<Rightarrow>
   ('a kmem_state_scheme, (uint list \<times> uint) option) kop" where
  "push_args [] d sp acc = returnk (Some (acc, sp))"
| "push_args (a # args) d sp acc =
     (if length acc \<ge> MAXARG then returnk None
      else
        (let sp = (sp - of_nat (length a + 1)) AND NOT 3 in
        bindk (copyout d sp (a @ [0])) (\<lambda>r.
        if r < 0 then returnk None else push_args args d sp (acc @ [sp]))))"

definition ustack :: "uint list \<Rightarrow> uint \<Rightarrow> uint list" where
  "ustack ptrs sp =
     [0xffffffff, of_nat (length ptrs), sp - of_nat ((length ptrs + 1) * 4)] @ ptrs @ [0]"

text \<open>The last element of the path, the name of the process.\<close>

definition base_name :: "uchar list \<Rightarrow> uchar list" where
  "base_name path = rev (takeWhile (\<lambda>c. c \<noteq> SLASH) (rev path))"

definition exec_stack ::
  "uchar list \<Rightarrow> uchar list list \<Rightarrow> uint \<Rightarrow> uint \<Rightarrow> uint \<Rightarrow> ('a file_state_scheme, int) kop" where
  "exec_stack path argv d entry sz =
    (let sz = PGROUNDUP sz in
    bindk (allocuvm d sz (sz + 2 * PGSIZE)) (\<lambda>sz.
    if sz = 0 then exec_bad d None
     else
       thenk (clearpteu d (sz - 2 * PGSIZE)) (
       bindk (push_args argv d sz []) (\<lambda>args.
       (case args of
          None \<Rightarrow> exec_bad d None
        | Some (ptrs, sp) \<Rightarrow>
          (let us = ustack ptrs sp in
          (let sp = sp - of_nat ((3 + length ptrs + 1) * 4) in
          bindk (copyout d sp (enc_words us)) (\<lambda>r.
          if r < 0 then exec_bad d None
            else
              bindk (curproc) (\<lambda>p.
              thenk (modk (upd_proc p (\<lambda>x. x\<lparr>pname := safestrcpy (rd (base_name path)) 16\<rparr>))) (
              bindk (getk (\<lambda>s. pgdir (procs s ! p))) (\<lambda>oldpgdir.
              thenk (modk (upd_proc p (\<lambda>x. x\<lparr>pgdir := d, psz := sz\<rparr>))) (
              bindk (curthread) (\<lambda>(q, i).
              thenk (modk (\<lambda>s. set_tf (tf (thr q i s)) tf_eip entry s)) (
              thenk (modk (\<lambda>s. set_tf (tf (thr q i s)) tf_esp sp s)) (
              thenk (switchuvm (Some p) (Some (q, i))) (
              thenk (freevm oldpgdir) (
              returnk 0)))))))))))))))))"

definition exec_load :: "uchar list \<Rightarrow> uchar list list \<Rightarrow> ('a file_state_scheme, int) kop" where
  "exec_load path argv =
    thenk (begin_op) (
    bindk (namei path) (\<lambda>ipo.
    (case ipo of
        None \<Rightarrow>
          thenk (end_op) (
          thenk (cprintf (Some (bytes_of ''exec: fail'' @ [10])) []) (
          returnk (-1)))
      | Some ip \<Rightarrow>
        thenk (ilock (Some ip)) (
        bindk (readi ip 0 (of_nat sizeof_elfhdr)) (\<lambda>(r, bs).
        if r \<noteq> int sizeof_elfhdr then exec_bad 0 (Some ip)
          else if e_magic (dec_elfhdr bs) \<noteq> ELF_MAGIC then exec_bad 0 (Some ip)
          else
            bindk (setupkvm) (\<lambda>d.
            if d = 0 then exec_bad 0 (Some ip)
            else
              (let elf = dec_elfhdr bs in
              bindk (load_segments (unat (e_phnum elf)) d ip (e_phoff elf) 0) (\<lambda>szo.
              (case szo of
                 None \<Rightarrow> exec_bad d (Some ip)
               | Some sz \<Rightarrow>
                 thenk (iunlockput ip) (
                 thenk (end_op) (
                 exec_stack path argv d (e_entry elf) sz)))))))))))"

definition exec :: "uchar list \<Rightarrow> uchar list list \<Rightarrow> ('a file_state_scheme, int) kop" where
  "exec path argv =
    bindk (curproc) (\<lambda>p.
    thenk (exec_alone p) (
    exec_load path argv))"

end
