(* ===== verification/SysFile.thy ===== *)
theory SysFile
  imports Exec
begin

text \<open>
  The system calls on files (\<open>src/sysfile.c\<close>). Each returns the value the C function
  returns. The data of a read is stored in user memory after the file layer has delivered it.
\<close>

section \<open>File descriptors\<close>

definition argfd :: "nat \<Rightarrow> ('a proc_state_scheme, (nat \<times> nat) option) kop" where
  "argfd n =
    bindk (argint n) (\<lambda>a.
    (case a of
        None \<Rightarrow> returnk None
      | Some w \<Rightarrow>
          if sint w < 0 \<or> sint w \<ge> int NOFILE then returnk None
          else
            bindk (curproc) (\<lambda>p.
            bindk (getk (\<lambda>s. ofile (procs s ! p) ! unat w)) (\<lambda>fo.
            returnk (map_option (Pair (unat w)) fo)))))"

definition fdalloc :: "nat \<Rightarrow> ('a proc_state_scheme, nat option) kop" where
  "fdalloc f =
    bindk (curproc) (\<lambda>p.
    bindk (getk (\<lambda>s. find (\<lambda>fd. ofile (procs s ! p) ! fd = None) [0..<NOFILE])) (\<lambda>fdo.
    (case fdo of
        None \<Rightarrow> returnk None
      | Some fd \<Rightarrow>
        thenk (modk (upd_proc p (\<lambda>x. x\<lparr>ofile := (ofile x)[fd := Some f]\<rparr>))) (
        returnk (Some fd)))))"

definition sys_dup :: "('a file_state_scheme, int) kop" where
  "sys_dup =
    bindk (argfd 0) (\<lambda>a.
    (case a of
        None \<Rightarrow> returnk (-1)
      | Some (fd0, f) \<Rightarrow>
        bindk (fdalloc f) (\<lambda>r.
        (case r of
             None \<Rightarrow> returnk (-1)
           | Some fd \<Rightarrow>
             thenk (filedup f) (
             returnk (int fd))))))"

text \<open>The three arguments of \<open>sys_read\<close> and \<open>sys_write\<close>, in the order they are fetched.\<close>

definition arg_rw :: "('a proc_state_scheme, (nat \<times> uint \<times> int) option) kop" where
  "arg_rw =
    bindk (argfd 0) (\<lambda>a.
    (case a of
        None \<Rightarrow> returnk None
      | Some (fd, f) \<Rightarrow>
        bindk (argint 2) (\<lambda>n.
        (case n of
             None \<Rightarrow> returnk None
           | Some n \<Rightarrow>
             bindk (argptr 1 (sint n)) (\<lambda>ptr.
             returnk (map_option (\<lambda>ptr. (f, ptr, sint n)) ptr))))))"

definition sys_read :: "('a file_state_scheme, int) kop" where
  "sys_read =
    bindk (arg_rw) (\<lambda>a.
    (case a of
        None \<Rightarrow> returnk (-1)
      | Some (f, ptr, n) \<Rightarrow>
        bindk (fileread f n) (\<lambda>(r, d).
        thenk (user_write ptr d) (
        returnk r))))"

definition sys_write :: "('a file_state_scheme, int) kop" where
  "sys_write =
    bindk (arg_rw) (\<lambda>a.
    (case a of
        None \<Rightarrow> returnk (-1)
      | Some (f, ptr, n) \<Rightarrow>
        bindk (user_read (nat n) ptr) (\<lambda>d.
        filewrite f d)))"

definition sys_close :: "('a file_state_scheme, int) kop" where
  "sys_close =
    bindk (argfd 0) (\<lambda>a.
    (case a of
        None \<Rightarrow> returnk (-1)
      | Some (fd, f) \<Rightarrow>
        bindk (curproc) (\<lambda>p.
        thenk (modk (upd_proc p (\<lambda>x. x\<lparr>ofile := (ofile x)[fd := None]\<rparr>))) (
        thenk (fileclose f) (
        returnk 0)))))"

definition store_stat :: "uint \<Rightarrow> stat \<Rightarrow> ('a kmem_state_scheme, unit) kop" where
  "store_stat a st =
    thenk (user_write (a + 4) (le32 (st_dev st))) (
    thenk (user_write (a + 8) (le32 (st_ino st))) (
    thenk (user_write a (le16 (st_type st))) (
    thenk (user_write (a + 12) (le16 (st_nlink st))) (
    user_write (a + 16) (le32 (st_size st))))))"

definition sys_fstat :: "('a file_state_scheme, int) kop" where
  "sys_fstat =
    bindk (argfd 0) (\<lambda>a.
    (case a of
        None \<Rightarrow> returnk (-1)
      | Some (fd, f) \<Rightarrow>
        bindk (argptr 1 20) (\<lambda>ptr.
        (case ptr of
             None \<Rightarrow> returnk (-1)
           | Some ptr \<Rightarrow>
             bindk (filestat f) (\<lambda>r.
             (case r of
                  None \<Rightarrow> returnk (-1)
                | Some st \<Rightarrow>
                  thenk (store_stat ptr st) (
                  returnk 0)))))))"

section \<open>Links\<close>

text \<open>The label \<open>bad\<close> of \<open>sys_link\<close>.\<close>

definition link_bad :: "nat \<Rightarrow> ('a cons_state_scheme, int) kop" where
  "link_bad ip =
    thenk (ilock (Some ip)) (
    thenk (modk (upd_inode ip (\<lambda>x. x\<lparr>i_nlink := i_nlink x - 1\<rparr>))) (
    thenk (iupdate ip) (
    thenk (iunlockput ip) (
    thenk (end_op) (
    returnk (-1))))))"

definition link_at :: "uchar list \<Rightarrow> nat \<Rightarrow> ('a cons_state_scheme, int) kop" where
  "link_at new ip =
    bindk (nameiparent new) (\<lambda>r.
    (case r of
        None \<Rightarrow> link_bad ip
      | Some (dp, nm) \<Rightarrow>
        thenk (ilock (Some dp)) (
        bindk (getk (\<lambda>s. (inodes s dp, inodes s ip))) (\<lambda>(x, y).
        bindk ((if i_dev x \<noteq> i_dev y then returnk (-1) else dirlink dp nm (i_inum y))) (\<lambda>r.
        if r < 0 then
          thenk (iunlockput dp) (
          link_bad ip)
          else
            thenk (iunlockput dp) (
            thenk (iput ip) (
            thenk (end_op) (
            returnk 0))))))))"

definition sys_link :: "('a cons_state_scheme, int) kop" where
  "sys_link =
    bindk (argstr 0) (\<lambda>a.
    (case a of
        None \<Rightarrow> returnk (-1)
      | Some old \<Rightarrow>
        bindk (argstr 1) (\<lambda>b.
        (case b of
             None \<Rightarrow> returnk (-1)
           | Some new \<Rightarrow>
             thenk (begin_op) (
             bindk (namei old) (\<lambda>r.
             (case r of
                  None \<Rightarrow>
                    thenk (end_op) (
                    returnk (-1))
                | Some ip \<Rightarrow>
                  thenk (ilock (Some ip)) (
                  bindk (getk (\<lambda>s. i_type (inodes s ip))) (\<lambda>ty.
                  if ty = T_DIR then
                    thenk (iunlockput ip) (
                    thenk (end_op) (
                    returnk (-1)))
                    else
                      thenk (modk (upd_inode ip (\<lambda>x. x\<lparr>i_nlink := i_nlink x + 1\<rparr>))) (
                      thenk (iupdate ip) (
                      thenk (iunlock (Some ip)) (
                      link_at new ip))))))))))))"

primrec isdirempty_loop :: "nat \<Rightarrow> nat \<Rightarrow> uint \<Rightarrow> ('a cons_state_scheme, bool) kop" where
  "isdirempty_loop 0 dp off = stopk Diverge"
| "isdirempty_loop (Suc k) dp off =
  bindk (getk (\<lambda>s. off < i_size (inodes s dp))) (\<lambda>more.
  if \<not> more then returnk True
     else
       bindk (readi dp off (of_nat sizeof_dirent)) (\<lambda>(r, d).
       if r \<noteq> int sizeof_dirent then panick ''isdirempty: readi''
       else if de_inum (dec_dirent d) \<noteq> 0 then returnk False
       else isdirempty_loop k dp (off + of_nat sizeof_dirent)))"

definition isdirempty :: "nat \<Rightarrow> ('a cons_state_scheme, bool) kop" where
  "isdirempty dp =
    bindk (getk (\<lambda>s. i_size (inodes s dp))) (\<lambda>sz.
    isdirempty_loop (dir_fuel sz) dp (of_nat (2 * sizeof_dirent)))"

definition unlink_bad :: "nat \<Rightarrow> ('a cons_state_scheme, int) kop" where
  "unlink_bad dp =
    thenk (iunlockput dp) (
    thenk (end_op) (
    returnk (-1)))"

definition unlink_entry :: "nat \<Rightarrow> nat \<Rightarrow> uint \<Rightarrow> ('a cons_state_scheme, int) kop" where
  "unlink_entry dp ip off =
    thenk (ilock (Some ip)) (
    bindk (getk (\<lambda>s. inodes s ip)) (\<lambda>x.
    if sint (i_nlink x) < 1 then panick ''unlink: nlink < 1''
     else
       bindk ((if i_type x = T_DIR then isdirempty ip else returnk True)) (\<lambda>empty.
       if \<not> empty then
         thenk (iunlockput ip) (
         unlink_bad dp)
       else
         bindk (writei dp (replicate sizeof_dirent 0) off) (\<lambda>r.
         if r \<noteq> int sizeof_dirent then panick ''unlink: writei''
         else
           bindk (getk (\<lambda>s. i_type (inodes s ip))) (\<lambda>ty.
           thenk (whenk (ty = T_DIR) (
             thenk (modk (upd_inode dp (\<lambda>x. x\<lparr>i_nlink := i_nlink x - 1\<rparr>))) (
             iupdate dp))) (
           thenk (iunlockput dp) (
           thenk (modk (upd_inode ip (\<lambda>x. x\<lparr>i_nlink := i_nlink x - 1\<rparr>))) (
           thenk (iupdate ip) (
           thenk (iunlockput ip) (
           thenk (end_op) (
           returnk 0)))))))))))"

definition sys_unlink :: "('a cons_state_scheme, int) kop" where
  "sys_unlink =
    bindk (argstr 0) (\<lambda>a.
    (case a of
        None \<Rightarrow> returnk (-1)
      | Some path \<Rightarrow>
        thenk (begin_op) (
        bindk (nameiparent path) (\<lambda>r.
        (case r of
             None \<Rightarrow>
               thenk (end_op) (
               returnk (-1))
           | Some (dp, nm) \<Rightarrow>
             thenk (ilock (Some dp)) (
             if namecmp nm [46] = 0 \<or> namecmp nm [46, 46] = 0 then unlink_bad dp
               else
                 bindk (dirlookup dp nm) (\<lambda>r.
                 (case r of
                    None \<Rightarrow> unlink_bad dp
                  | Some (ip, off) \<Rightarrow> unlink_entry dp ip off))))))))"

section \<open>Creating and opening\<close>

definition create_new ::
  "nat \<Rightarrow> uchar list \<Rightarrow> ushort \<Rightarrow> ushort \<Rightarrow> ushort \<Rightarrow> ('a cons_state_scheme, nat option) kop" where
  "create_new dp nm type major minor =
    bindk (getk (\<lambda>s. i_dev (inodes s dp))) (\<lambda>dev.
    bindk (ialloc dev type) (\<lambda>ip.
    thenk (ilock (Some ip)) (
    thenk (modk (upd_inode ip (\<lambda>x. x\<lparr>i_major := major, i_minor := minor, i_nlink := 1\<rparr>))) (
    thenk (iupdate ip) (
    thenk (whenk (type = T_DIR) (
      thenk (modk (upd_inode dp (\<lambda>x. x\<lparr>i_nlink := i_nlink x + 1\<rparr>))) (
      thenk (iupdate dp) (
      bindk (getk (\<lambda>s. (i_inum (inodes s ip), i_inum (inodes s dp)))) (\<lambda>(inum, pinum).
      bindk (dirlink ip [46] inum) (\<lambda>r1.
      if r1 < 0 then panick ''create dots''
       else
         bindk (dirlink ip [46, 46] pinum) (\<lambda>r2.
         whenk (r2 < 0) (panick ''create dots'')))))))) (
    bindk (getk (\<lambda>s. i_inum (inodes s ip))) (\<lambda>inum.
    bindk (dirlink dp nm inum) (\<lambda>r.
    if r < 0 then panick ''create: dirlink''
     else
       thenk (iunlockput dp) (
       returnk (Some ip))))))))))"

definition create ::
  "uchar list \<Rightarrow> ushort \<Rightarrow> ushort \<Rightarrow> ushort \<Rightarrow> ('a cons_state_scheme, nat option) kop" where
  "create path type major minor =
    bindk (nameiparent path) (\<lambda>r.
    (case r of
        None \<Rightarrow> returnk None
      | Some (dp, nm) \<Rightarrow>
        thenk (ilock (Some dp)) (
        bindk (dirlookup dp nm) (\<lambda>e.
        (case e of
             Some (ip, off) \<Rightarrow>
               thenk (iunlockput dp) (
               thenk (ilock (Some ip)) (
               bindk (getk (\<lambda>s. i_type (inodes s ip))) (\<lambda>ty.
               if type = T_FILE \<and> ty = T_FILE then returnk (Some ip)
               else
                 thenk (iunlockput ip) (
                 returnk None))))
           | None \<Rightarrow> create_new dp nm type major minor)))))"

abbreviation (input) O_RDONLY :: uint where "O_RDONLY \<equiv> 0"
abbreviation (input) O_WRONLY :: uint where "O_WRONLY \<equiv> 1"
abbreviation (input) O_RDWR :: uint where "O_RDWR \<equiv> 2"
abbreviation (input) O_CREATE :: uint where "O_CREATE \<equiv> 0x200"

text \<open>The inode of an \<open>open\<close>, locked, or \<open>None\<close> after the transaction has been ended.\<close>

definition open_inode :: "uchar list \<Rightarrow> uint \<Rightarrow> ('a cons_state_scheme, nat option) kop" where
  "open_inode path omode =
     (if omode AND O_CREATE \<noteq> 0 then
       bindk (create path T_FILE 0 0) (\<lambda>r.
       (case r of None \<Rightarrow>
         thenk (end_op) (
         returnk None) | Some ip \<Rightarrow> returnk (Some ip)))
      else
        bindk (namei path) (\<lambda>r.
        (case r of
           None \<Rightarrow>
             thenk (end_op) (
             returnk None)
         | Some ip \<Rightarrow>
           thenk (ilock (Some ip)) (
           bindk (getk (\<lambda>s. i_type (inodes s ip))) (\<lambda>ty.
           if ty = T_DIR \<and> omode \<noteq> O_RDONLY then
             thenk (iunlockput ip) (
             thenk (end_op) (
             returnk None))
             else returnk (Some ip))))))"

definition open_file :: "nat \<Rightarrow> uint \<Rightarrow> ('a file_state_scheme, int) kop" where
  "open_file ip omode =
    bindk (filealloc) (\<lambda>fo.
    bindk ((case fo of None \<Rightarrow> returnk None | Some f \<Rightarrow> fdalloc f)) (\<lambda>fdo.
    (case (fo, fdo) of
        (Some f, Some fd) \<Rightarrow>
          thenk (iunlock (Some ip)) (
          thenk (end_op) (
          thenk (modk (upd_file f (\<lambda>x. x\<lparr>f_type := FD_INODE, f_ip := ip, f_off := 0,
            f_readable := omode AND O_WRONLY = 0,
            f_writable := omode AND O_WRONLY \<noteq> 0 \<or> omode AND O_RDWR \<noteq> 0\<rparr>))) (
          returnk (int fd))))
      | _ \<Rightarrow>
        thenk ((case fo of None \<Rightarrow> returnk () | Some f \<Rightarrow> fileclose f)) (
        thenk (iunlockput ip) (
        thenk (end_op) (
        returnk (-1)))))))"

definition sys_open :: "('a file_state_scheme, int) kop" where
  "sys_open =
    bindk (argstr 0) (\<lambda>a.
    (case a of
        None \<Rightarrow> returnk (-1)
      | Some path \<Rightarrow>
        bindk (argint 1) (\<lambda>m.
        (case m of
             None \<Rightarrow> returnk (-1)
           | Some omode \<Rightarrow>
             thenk (begin_op) (
             bindk (open_inode path omode) (\<lambda>r.
             (case r of None \<Rightarrow> returnk (-1) | Some ip \<Rightarrow> open_file ip omode)))))))"

text \<open>The common end of \<open>sys_mkdir\<close> and \<open>sys_mknod\<close>.\<close>

definition finish_create :: "nat option \<Rightarrow> ('a cons_state_scheme, int) kop" where
  "finish_create r =
     (case r of
        None \<Rightarrow>
          thenk (end_op) (
          returnk (-1))
      | Some ip \<Rightarrow>
        thenk (iunlockput ip) (
        thenk (end_op) (
        returnk 0)))"

definition sys_mkdir :: "('a cons_state_scheme, int) kop" where
  "sys_mkdir =
    thenk (begin_op) (
    bindk (argstr 0) (\<lambda>a.
    bindk ((case a of None \<Rightarrow> returnk None | Some path \<Rightarrow> create path T_DIR 0 0)) (\<lambda>r.
    finish_create r)))"

definition sys_mknod :: "('a cons_state_scheme, int) kop" where
  "sys_mknod =
    thenk (begin_op) (
    bindk (argstr 0) (\<lambda>a.
    bindk ((case a of None \<Rightarrow> returnk None | Some path \<Rightarrow>
      bindk (argint 1) (\<lambda>major.
      (case major of None \<Rightarrow> returnk None | Some major \<Rightarrow>
        bindk (argint 2) (\<lambda>minor.
        (case minor of
            None \<Rightarrow> returnk None
          | Some minor \<Rightarrow> create path T_DEV (ucast major) (ucast minor))))))) (\<lambda>r.
    finish_create r)))"

definition sys_chdir :: "('a cons_state_scheme, int) kop" where
  "sys_chdir =
    bindk (curproc) (\<lambda>p.
    thenk (begin_op) (
    bindk (argstr 0) (\<lambda>a.
    bindk ((case a of None \<Rightarrow> returnk None | Some path \<Rightarrow> namei path)) (\<lambda>r.
    (case r of
        None \<Rightarrow>
          thenk (end_op) (
          returnk (-1))
      | Some ip \<Rightarrow>
        thenk (ilock (Some ip)) (
        bindk (getk (\<lambda>s. i_type (inodes s ip))) (\<lambda>ty.
        if ty \<noteq> T_DIR then
          thenk (iunlockput ip) (
          thenk (end_op) (
          returnk (-1)))
          else
            thenk (iunlock (Some ip)) (
            bindk (getk (\<lambda>s. cwd (procs s ! p))) (\<lambda>c.
            bindk (derefk ''cwd is null'' c) (\<lambda>c.
            thenk (iput c) (
            thenk (end_op) (
            thenk (modk (upd_proc p (\<lambda>x. x\<lparr>cwd := Some ip\<rparr>))) (
            returnk 0)))))))))))))"

text \<open>The strings of \<open>argv\<close>: \<open>k\<close> slots of the array are left.\<close>

primrec fetch_argv :: "nat \<Rightarrow> uint \<Rightarrow> ('a proc_state_scheme, uchar list list option) kop" where
  "fetch_argv 0 a = returnk None"
| "fetch_argv (Suc k) a =
  bindk (fetchint a) (\<lambda>u.
  (case u of
        None \<Rightarrow> returnk None
      | Some uarg \<Rightarrow>
          if uarg = 0 then returnk (Some [])
          else
            bindk (fetchstr uarg) (\<lambda>str.
            (case str of
               None \<Rightarrow> returnk None
             | Some str \<Rightarrow>
               bindk (fetch_argv k (a + 4)) (\<lambda>rest.
               returnk (map_option ((#) str) rest))))))"

definition sys_exec :: "('a file_state_scheme, int) kop" where
  "sys_exec =
    bindk (argstr 0) (\<lambda>a.
    (case a of
        None \<Rightarrow> returnk (-1)
      | Some path \<Rightarrow>
        bindk (argint 1) (\<lambda>u.
        (case u of
             None \<Rightarrow> returnk (-1)
           | Some uargv \<Rightarrow>
             bindk (fetch_argv MAXARG uargv) (\<lambda>argv.
             (case argv of None \<Rightarrow> returnk (-1) | Some argv \<Rightarrow> exec path argv))))))"

definition sys_pipe :: "('a file_state_scheme, int) kop" where
  "sys_pipe =
    bindk (argptr 0 8) (\<lambda>ptr.
    (case ptr of
        None \<Rightarrow> returnk (-1)
      | Some ptr \<Rightarrow>
        bindk (pipealloc) (\<lambda>r.
        (case r of
             None \<Rightarrow> returnk (-1)
           | Some (rfile, wfile) \<Rightarrow>
             bindk (fdalloc rfile) (\<lambda>fd0.
             bindk ((case fd0 of None \<Rightarrow> returnk None | Some _ \<Rightarrow> fdalloc wfile)) (\<lambda>fd1.
             (case (fd0, fd1) of
                  (Some a, Some b) \<Rightarrow>
                    thenk (user_write ptr (le32 (of_nat a))) (
                    thenk (user_write (ptr + 4) (le32 (of_nat b))) (
                    returnk 0))
                | _ \<Rightarrow>
                  thenk ((case fd0 of
                       None \<Rightarrow> returnk ()
                     | Some a \<Rightarrow>
                       bindk (curproc) (\<lambda>p.
                       modk (upd_proc p (\<lambda>x. x\<lparr>ofile := (ofile x)[a := None]\<rparr>))))) (
                  thenk (fileclose rfile) (
                  thenk (fileclose wfile) (
                  returnk (-1)))))))))))"

end
