(* ===== verification/Trap.thy ===== *)
theory Trap
  imports SysFile
begin

text \<open>
  The system calls on processes (\<open>src/sysproc.c\<close>), the dispatch of system calls
  (\<open>src/syscall.c\<close>) and the trap handler (\<open>src/trap.c\<close>). The disk driver is the one of
  \<open>src/memide.c\<close>, whose interrupt handler does nothing. What the keyboard or the serial
  port deliver during an interrupt, and the faulting address in \<open>cr2\<close>, are arguments of
  \<open>trap\<close>.
\<close>

section \<open>State\<close>

record sys_state = kt_state +
  ticks :: uint

section \<open>System calls on processes\<close>

definition sys_fork :: "('a sys_state_scheme, int) kop" where
  "sys_fork = fork"

definition sys_exit :: "('a sys_state_scheme, int) kop" where
  "sys_exit =
    thenk (exit) (
    returnk 0)"

definition sys_wait :: "('a sys_state_scheme, int) kop" where
  "sys_wait = wait"

text \<open>A call with one integer argument: -1 when it cannot be fetched.\<close>

definition with_int :: "(int \<Rightarrow> ('a proc_state_scheme, int) kop) \<Rightarrow> ('a proc_state_scheme, int) kop" where
  "with_int f =
    bindk (argint 0) (\<lambda>a.
    (case a of None \<Rightarrow> returnk (-1) | Some w \<Rightarrow> f (sint w)))"

definition sys_kill :: "('a sys_state_scheme, int) kop" where
  "sys_kill = with_int kill"

definition sys_getpid :: "('a sys_state_scheme, int) kop" where
  "sys_getpid =
    bindk (curproc) (\<lambda>p.
    getk (\<lambda>s. pid (procs s ! p)))"

definition sys_sbrk :: "('a sys_state_scheme, int) kop" where
  "sys_sbrk = with_int (\<lambda>n.
    bindk (curproc) (\<lambda>p.
    bindk (getk (\<lambda>s. psz (procs s ! p))) (\<lambda>addr.
    bindk (growproc n) (\<lambda>r.
    returnk (if r < 0 then -1 else sint addr)))))"

text \<open>The comparison \<open>ticks - ticks0 < n\<close> is one of unsigned words.\<close>

definition sys_sleep_loop :: "uint \<Rightarrow> int \<Rightarrow> ('a sys_state_scheme, int) kop" where
  "sys_sleep_loop ticks0 n =
    bindk (getk (\<lambda>s. ticks s - ticks0 < of_int n)) (\<lambda>more.
    if \<not> more then
      thenk (release TicksLock) (
      returnk 0)
     else
       bindk (curproc) (\<lambda>p.
       bindk (getk (\<lambda>s. killed (procs s ! p))) (\<lambda>k.
       if k then
         thenk (release TicksLock) (
         returnk (-1))
       else
         thenk (sleep ChanTicks TicksLock) (
         stopk (Undef ''sleep returned'')))))"

definition sys_sleep :: "('a sys_state_scheme, int) kop" where
  "sys_sleep = with_int (\<lambda>n.
    thenk (acquire TicksLock) (
    bindk (getk ticks) (\<lambda>ticks0.
    sys_sleep_loop ticks0 n)))"

definition sys_sleep_resume ::
  "nat \<times> nat \<Rightarrow> bool \<Rightarrow> uint \<Rightarrow> int \<Rightarrow> ('a sys_state_scheme, int) kop" where
  "sys_sleep_resume t e ticks0 n =
    thenk (sleep_resume t e TicksLock) (
    sys_sleep_loop ticks0 n)"

definition sys_uptime :: "('a sys_state_scheme, int) kop" where
  "sys_uptime =
    thenk (acquire TicksLock) (
    bindk (getk ticks) (\<lambda>xticks.
    thenk (release TicksLock) (
    returnk (sint xticks))))"

definition sys_kthread_create :: "('a sys_state_scheme, int) kop" where
  "sys_kthread_create =
    bindk (argptr 0 4) (\<lambda>a.
    (case a of
        None \<Rightarrow> returnk (-1)
      | Some start_func \<Rightarrow>
        bindk (argptr 1 4) (\<lambda>b.
        (case b of None \<Rightarrow> returnk (-1) | Some stack \<Rightarrow> kthread_create start_func stack))))"

definition sys_kthread_id :: "('a sys_state_scheme, int) kop" where
  "sys_kthread_id =
    bindk (curthread) (\<lambda>(q, i).
    getk (\<lambda>s. tid (thr q i s)))"

definition sys_kthread_exit :: "('a sys_state_scheme, int) kop" where
  "sys_kthread_exit =
    thenk (kthread_exit) (
    returnk 0)"

definition sys_kthread_join :: "('a sys_state_scheme, int) kop" where
  "sys_kthread_join = with_int kthread_join"

definition sys_kthread_mutex_alloc :: "('a sys_state_scheme, int) kop" where
  "sys_kthread_mutex_alloc = kthread_mutex_alloc"

definition sys_kthread_mutex_dealloc :: "('a sys_state_scheme, int) kop" where
  "sys_kthread_mutex_dealloc = with_int kthread_mutex_dealloc"

definition sys_kthread_mutex_lock :: "('a sys_state_scheme, int) kop" where
  "sys_kthread_mutex_lock = with_int kthread_mutex_lock"

definition sys_kthread_mutex_unlock :: "('a sys_state_scheme, int) kop" where
  "sys_kthread_mutex_unlock = with_int kthread_mutex_unlock"

section \<open>Dispatch\<close>

definition syscalls :: "('a sys_state_scheme, int) kop list" where
  "syscalls =
     [sys_fork, sys_exit, sys_wait, sys_pipe, sys_read, sys_kill, sys_exec, sys_fstat, sys_chdir,
      sys_dup, sys_getpid, sys_sbrk, sys_sleep, sys_uptime, sys_open, sys_write, sys_mknod,
      sys_unlink, sys_link, sys_mkdir, sys_close, sys_kthread_create, sys_kthread_id,
      sys_kthread_exit, sys_kthread_join, sys_kthread_mutex_alloc, sys_kthread_mutex_dealloc,
      sys_kthread_mutex_lock, sys_kthread_mutex_unlock]"

definition set_eax :: "int \<Rightarrow> ('a proc_state_scheme, unit) kop" where
  "set_eax r =
    bindk (curthread) (\<lambda>(q, i).
    modk (\<lambda>s. set_tf (tf (thr q i s)) tf_eax (of_int r) s))"

definition syscall :: "('a sys_state_scheme, unit) kop" where
  "syscall =
    bindk (curproc) (\<lambda>p.
    bindk (curthread) (\<lambda>(q, i).
    bindk (getk (\<lambda>s. sint (load32 (mem s) (tf (thr q i s) + tf_eax)))) (\<lambda>num.
    if num > 0 \<and> num < 30 then
      bindk (syscalls ! nat (num - 1)) (\<lambda>r.
      set_eax r)
     else
       bindk (getk (\<lambda>s. procs s ! p)) (\<lambda>x.
       thenk (cprintf (Some (bytes_of ''%d %s: unknown sys call %d'' @ [10]))
         [FInt (of_int (pid x)), FStr (Some (takeWhile (\<lambda>c. c \<noteq> 0) (pname x))), FInt (of_int num)]) (
       set_eax (-1))))))"

section \<open>The trap handler\<close>

abbreviation (input) T_SYSCALL :: uint where "T_SYSCALL \<equiv> 64"
abbreviation (input) IRQ_TIMER_NO :: uint where "IRQ_TIMER_NO \<equiv> 32"

text \<open>\<open>if (mythread() && mythread()->killed && (tf->cs & 3) == DPL_USER) exit();\<close>\<close>

definition exit_if_killed :: "uint \<Rightarrow> ('a sys_state_scheme, unit) kop" where
  "exit_if_killed cs =
    bindk (mythread) (\<lambda>t.
    (case t of
        None \<Rightarrow> returnk ()
      | Some (q, i) \<Rightarrow>
        bindk (getk (\<lambda>s. tkilled (thr q i s))) (\<lambda>k.
        whenk (k \<and> cs AND 3 = 3) exit)))"

definition trap_syscall :: "uint \<Rightarrow> ('a sys_state_scheme, unit) kop" where
  "trap_syscall frame =
    bindk (curthread) (\<lambda>(q, i).
    bindk (getk (\<lambda>s. tkilled (thr q i s))) (\<lambda>k.
    thenk (whenk k exit) (
    bindk (curthread) (\<lambda>(q, i).
    thenk (modk (upd_thread q i (\<lambda>t. t\<lparr>tf := frame\<rparr>))) (
    thenk (syscall) (
    bindk (curthread) (\<lambda>(q, i).
    bindk (getk (\<lambda>s. tkilled (thr q i s))) (\<lambda>k.
    whenk k exit))))))))"

definition timer_tick :: "('a sys_state_scheme, unit) kop" where
  "timer_tick =
    bindk (cpuid) (\<lambda>c.
    whenk (c = 0) (
      thenk (acquire TicksLock) (
      thenk (modk (\<lambda>s. s\<lparr>ticks := ticks s + 1\<rparr>)) (
      thenk (wakeup ChanTicks) (
      release TicksLock)))))"

text \<open>A trap that is no known interrupt.\<close>

definition trap_default :: "uint \<Rightarrow> uint \<Rightarrow> uint \<Rightarrow> ('a sys_state_scheme, unit) kop" where
  "trap_default frame cs cr2 =
    bindk (getk (\<lambda>s. \<lambda>off. load32 (mem s) (frame + off))) (\<lambda>f.
    bindk (myproc) (\<lambda>po.
    if po = None \<or> cs AND 3 = 0 then
      bindk (cpuid) (\<lambda>c.
      thenk (cprintf (Some (bytes_of ''unexpected trap %d from cpu %d eip %x (cr2=0x%x)'' @ [10]))
         [FInt (f 48), FInt (of_nat c), FInt (f tf_eip), FInt cr2]) (
      panick ''trap''))
     else
       bindk (curproc) (\<lambda>p.
       bindk (getk (\<lambda>s. procs s ! p)) (\<lambda>x.
       bindk (cpuid) (\<lambda>c.
       thenk (cprintf (Some (bytes_of ''pid %d %s: trap %d err %d on cpu %d eip 0x%x addr 0x%x--kill proc'' @ [10]))
         [FInt (of_int (pid x)), FStr (Some (takeWhile (\<lambda>c. c \<noteq> 0) (pname x))), FInt (f 48),
          FInt (f 52), FInt (of_nat c), FInt (f tf_eip), FInt cr2]) (
       thenk (modk (upd_proc p (\<lambda>x. x\<lparr>threads :=
         map (\<lambda>t. t\<lparr>tkilled := True\<rparr>) (take (t_num x) (threads x)) @ drop (t_num x) (threads x)\<rparr>))) (
       modk (upd_proc p (\<lambda>x. x\<lparr>killed := True\<rparr>)))))))))"

definition console_intr :: "int list \<Rightarrow> ('a sys_state_scheme, unit) kop" where
  "console_intr cs =
    bindk (consoleintr cs) (\<lambda>dump.
    whenk dump procdump)"

definition yield_on_tick :: "uint \<Rightarrow> ('a sys_state_scheme, unit) kop" where
  "yield_on_tick trapno =
    bindk (mythread) (\<lambda>t.
    (case t of
        None \<Rightarrow> returnk ()
      | Some (q, i) \<Rightarrow>
        bindk (getk (\<lambda>s. tstate (thr q i s))) (\<lambda>st.
        whenk (st = RUNNING \<and> trapno = IRQ_TIMER_NO) yield)))"

text \<open>The switch over the interrupt numbers; the acknowledgement of the APIC is not modelled.\<close>

definition trap_irq :: "uint \<Rightarrow> uint \<Rightarrow> uint \<Rightarrow> int list \<Rightarrow> uint \<Rightarrow> ('a sys_state_scheme, unit) kop" where
  "trap_irq frame trapno cs keys cr2 =
     (if trapno = IRQ_TIMER_NO then timer_tick
      else if trapno = 46 then returnk ()
      else if trapno = 47 then returnk ()
      else if trapno = 33 \<or> trapno = 36 then console_intr keys
      else if trapno = 39 \<or> trapno = 63 then
        bindk (cpuid) (\<lambda>c.
        bindk (getk (\<lambda>s. load32 (mem s) (frame + tf_eip))) (\<lambda>eip.
        cprintf (Some (bytes_of ''cpu%d: spurious interrupt at %x:%x'' @ [10]))
          [FInt (of_nat c), FInt cs, FInt eip]))
      else trap_default frame cs cr2)"

definition trap :: "uint \<Rightarrow> int list \<Rightarrow> uint \<Rightarrow> ('a sys_state_scheme, unit) kop" where
  "trap frame keys cr2 =
    bindk (getk (\<lambda>s. load32 (mem s) (frame + 48))) (\<lambda>trapno.
    if trapno = T_SYSCALL then trap_syscall frame
     else
       bindk (getk (\<lambda>s. load32 (mem s) (frame + 60) AND 0xFFFF)) (\<lambda>cs.
       thenk (trap_irq frame trapno cs keys cr2) (
       thenk (exit_if_killed cs) (
       thenk (yield_on_tick trapno) (
       exit_if_killed cs)))))"

text \<open>The end of \<open>trap\<close> after the thread has been scheduled again.\<close>

definition trap_resume :: "bool \<Rightarrow> uint \<Rightarrow> ('a sys_state_scheme, unit) kop" where
  "trap_resume e cs =
    thenk (yield_resume e) (
    exit_if_killed cs)"

end
