(* ===== verification/Kbd.thy ===== *)
theory Kbd
  imports Prelude
begin

text \<open>
  The keyboard driver (\<open>src/kbd.c\<close>, \<open>src/kbd.h\<close>): from scan codes to characters. The shift
  state is the static variable of \<open>kbdgetc\<close>; a table is a function that is 0 (\<open>NO\<close>) where the
  C initialiser names no entry.
\<close>

section \<open>Tables\<close>

abbreviation (input) SHIFT :: uint where "SHIFT \<equiv> 1"
abbreviation (input) CTL :: uint where "CTL \<equiv> 2"
abbreviation (input) ALT :: uint where "ALT \<equiv> 4"
abbreviation (input) CAPSLOCK :: uint where "CAPSLOCK \<equiv> 8"
abbreviation (input) NUMLOCK :: uint where "NUMLOCK \<equiv> 16"
abbreviation (input) SCROLLLOCK :: uint where "SCROLLLOCK \<equiv> 32"
abbreviation (input) E0ESC :: uint where "E0ESC \<equiv> 64"

definition table :: "nat list \<Rightarrow> (nat \<times> nat) list \<Rightarrow> nat \<Rightarrow> nat" where
  "table xs ps d =
     (if d < length xs then xs ! d else case map_of ps d of Some v \<Rightarrow> v | None \<Rightarrow> 0)"

definition shiftcode :: "nat \<Rightarrow> uint" where
  "shiftcode d =
     (if d = 0x1D \<or> d = 0x9D then CTL
      else if d = 0x2A \<or> d = 0x36 then SHIFT
      else if d = 0x38 \<or> d = 0xB8 then ALT else 0)"

definition togglecode :: "nat \<Rightarrow> uint" where
  "togglecode d =
     (if d = 0x3A then CAPSLOCK else if d = 0x45 then NUMLOCK
      else if d = 0x46 then SCROLLLOCK else 0)"

text \<open>The entries that the three maps share: the keys of the numeric pad behind an escape.\<close>

definition special_keys :: "(nat \<times> nat) list" where
  "special_keys =
     [(0xC8, 0xE2), (0xD0, 0xE3), (0xC9, 0xE6), (0xD1, 0xE7), (0xCB, 0xE4), (0xCD, 0xE5),
      (0x97, 0xE0), (0xCF, 0xE1), (0xD2, 0xE8), (0xD3, 0xE9)]"

definition normalmap :: "nat \<Rightarrow> nat" where
  "normalmap = table
     [0, 27, 49, 50, 51, 52, 53, 54, 55, 56, 57, 48, 45, 61, 8, 9,
      113, 119, 101, 114, 116, 121, 117, 105, 111, 112, 91, 93, 10, 0, 97, 115,
      100, 102, 103, 104, 106, 107, 108, 59, 39, 96, 0, 92, 122, 120, 99, 118,
      98, 110, 109, 44, 46, 47, 0, 42, 0, 32, 0, 0, 0, 0, 0, 0,
      0, 0, 0, 0, 0, 0, 0, 55, 56, 57, 45, 52, 53, 54, 43, 49,
      50, 51, 48, 46, 0, 0, 0, 0]
     ((0x9C, 10) # (0xB5, 47) # special_keys)"

definition shiftmap :: "nat \<Rightarrow> nat" where
  "shiftmap = table
     [0, 27, 33, 64, 35, 36, 37, 94, 38, 42, 40, 41, 95, 43, 8, 9,
      81, 87, 69, 82, 84, 89, 85, 73, 79, 80, 123, 125, 10, 0, 65, 83,
      68, 70, 71, 72, 74, 75, 76, 58, 34, 126, 0, 124, 90, 88, 67, 86,
      66, 78, 77, 60, 62, 63, 0, 42, 0, 32, 0, 0, 0, 0, 0, 0,
      0, 0, 0, 0, 0, 0, 0, 55, 56, 57, 45, 52, 53, 54, 43, 49,
      50, 51, 48, 46, 0, 0, 0, 0]
     ((0x9C, 10) # (0xB5, 47) # special_keys)"

text \<open>\<open>C('/')\<close> is -17, stored in an unsigned character.\<close>

definition ctlmap :: "nat \<Rightarrow> nat" where
  "ctlmap = table
     [0, 0, 0, 0, 0, 0, 0, 0, 0, 0, 0, 0, 0, 0, 0, 0,
      17, 23, 5, 18, 20, 25, 21, 9, 15, 16, 0, 0, 13, 0, 1, 19,
      4, 6, 7, 8, 10, 11, 12, 0, 0, 0, 0, 28, 26, 24, 3, 22,
      2, 14, 13, 0, 0, 239, 0, 0]
     ((0x9C, 13) # (0xB5, 239) # special_keys)"

section \<open>The driver\<close>

definition charcode :: "uint \<Rightarrow> nat \<Rightarrow> nat" where
  "charcode sh d =
     (let k = sh AND (CTL OR SHIFT) in
      if k = 0 then normalmap d else if k = SHIFT then shiftmap d else ctlmap d)"

definition caps :: "uint \<Rightarrow> nat \<Rightarrow> nat" where
  "caps sh c =
     (if sh AND CAPSLOCK \<noteq> 0 then
        (if 97 \<le> c \<and> c \<le> 122 then c - 32 else if 65 \<le> c \<and> c \<le> 90 then c + 32 else c)
      else c)"

text \<open>
  One call: the scan code the controller has, if any, and the shift state; the result and the
  new shift state.
\<close>

definition kbdgetc :: "uchar option \<Rightarrow> uint \<Rightarrow> int \<times> uint" where
  "kbdgetc code sh =
     (case code of
        None \<Rightarrow> (-1, sh)
      | Some b \<Rightarrow>
          let data = ucast b :: uint in
          if data = 0xE0 then (0, sh OR E0ESC)
          else if data AND 0x80 \<noteq> 0 then
            (let data = (if sh AND E0ESC \<noteq> 0 then data else data AND 0x7F)
             in (0, sh AND NOT (shiftcode (unat data) OR E0ESC)))
          else
            (let esc = sh AND E0ESC \<noteq> 0;
                 data = (if esc then data OR 0x80 else data);
                 sh = (if esc then sh AND NOT E0ESC else sh);
                 sh = (sh OR shiftcode (unat data)) XOR togglecode (unat data)
             in (int (caps sh (charcode sh (unat data))), sh)))"

text \<open>The successive results of \<open>kbdgetc\<close> in one interrupt, for the scan codes waiting.\<close>

primrec kbd_chars :: "uchar list \<Rightarrow> uint \<Rightarrow> int list \<times> uint" where
  "kbd_chars [] sh = ([fst (kbdgetc None sh)], sh)"
| "kbd_chars (b # bs) sh =
     (let (c, sh') = kbdgetc (Some b) sh; (cs, sh'') = kbd_chars bs sh' in (c # cs, sh''))"

end
