(* ===== verification/LockProtocol.thy ===== *)
theory LockProtocol
  imports Spinlock
begin

text \<open>
  The protocol of one spin lock between all processors, at the granularity of the memory
  accesses of \<open>acquire\<close> and \<open>release\<close> (\<open>src/spinlock.c\<close>): a processor that wants the lock
  repeats the atomic exchange \<open>xchg(&lk->locked, 1)\<close> until it reads 0, and releases the lock by
  storing 0. Steps of different processors interleave freely.
\<close>

section \<open>The protocol\<close>

datatype lock_pc = Outside | Trying | Inside

record lock_state =
  word :: uint
  pc :: "nat \<Rightarrow> lock_pc"

definition xchg :: "uint \<Rightarrow> lock_state \<Rightarrow> uint \<times> lock_state" where
  "xchg v s = (word s, s\<lparr>word := v\<rparr>)"

definition try_lock :: "nat \<Rightarrow> lock_state \<Rightarrow> lock_state" where
  "try_lock c s =
     (let (old, t) = xchg 1 s in if old \<noteq> 0 then t else t\<lparr>pc := (pc t)(c := Inside)\<rparr>)"

inductive lock_step :: "lock_state \<Rightarrow> lock_state \<Rightarrow> bool" where
  lock_start: "pc s c = Outside \<Longrightarrow> lock_step s (s\<lparr>pc := (pc s)(c := Trying)\<rparr>)"
| lock_try: "pc s c = Trying \<Longrightarrow> lock_step s (try_lock c s)"
| lock_leave: "pc s c = Inside \<Longrightarrow> lock_step s (s\<lparr>word := 0, pc := (pc s)(c := Outside)\<rparr>)"

inductive_cases lock_stepE: "lock_step s t"

definition lock_init :: lock_state where
  "lock_init = \<lparr>word = 0, pc = (\<lambda>_. Outside)\<rparr>"

definition lock_inv :: "lock_state \<Rightarrow> bool" where
  "lock_inv s \<longleftrightarrow>
     (word s = 0 \<longrightarrow> (\<forall>c. pc s c \<noteq> Inside)) \<and>
     (word s \<noteq> 0 \<longrightarrow> (\<exists>c. pc s c = Inside \<and> (\<forall>d. pc s d = Inside \<longrightarrow> d = c)))"

section \<open>Mutual exclusion\<close>

lemma lock_inv_init: "lock_inv lock_init"
  by (simp add: lock_inv_def lock_init_def)

lemma lock_inv_try:
  assumes "lock_inv s" and "pc s c = Trying"
  shows "lock_inv (try_lock c s)"
proof (cases "word s = 0")
  case True
  then show ?thesis using assms by (auto simp: lock_inv_def try_lock_def xchg_def)
next
  case False
  then show ?thesis using assms by (simp add: lock_inv_def try_lock_def xchg_def)
qed

lemma lock_inv_step: "lock_step s t \<Longrightarrow> lock_inv s \<Longrightarrow> lock_inv t"
proof (erule lock_stepE)
  fix c assume inv: "lock_inv s" and c: "pc s c = Outside" and t: "t = s\<lparr>pc := (pc s)(c := Trying)\<rparr>"
  have "pc t d = Inside \<longleftrightarrow> pc s d = Inside" for d using c t by simp
  moreover have "word t = word s" using t by simp
  ultimately show "lock_inv t" using inv by (simp only: lock_inv_def)
next
  fix c assume "lock_inv s" "pc s c = Trying" "t = try_lock c s"
  then show "lock_inv t" by (simp add: lock_inv_try)
next
  fix c assume inv: "lock_inv s" and c: "pc s c = Inside"
    and t: "t = s\<lparr>word := 0, pc := (pc s)(c := Outside)\<rparr>"
  then have "word s \<noteq> 0" by (auto simp: lock_inv_def)
  then have "pc s d \<noteq> Inside" if "d \<noteq> c" for d
    using inv c that unfolding lock_inv_def by metis
  then show "lock_inv t" using t by (simp add: lock_inv_def)
qed

lemma lock_inv_reachable: "lock_step\<^sup>*\<^sup>* lock_init s \<Longrightarrow> lock_inv s"
  by (induction rule: rtranclp_induct) (auto intro: lock_inv_init lock_inv_step)

text \<open>
  C2: mutual exclusion of spin locks. In every state that processors reach by interleaving the
  exchanges and stores of \<open>acquire\<close> and \<open>release\<close>, at most one processor is between the two.
\<close>

theorem spinlock_mutual_exclusion:
  assumes "lock_step\<^sup>*\<^sup>* lock_init s" and "pc s c = Inside" and "pc s d = Inside"
  shows "c = d"
proof -
  have "lock_inv s" using assms(1) by (rule lock_inv_reachable)
  then show ?thesis using assms(2,3) by (cases "word s = 0") (auto simp: lock_inv_def)
qed

theorem spinlock_mutual_exclusion_witness:
  "{d. pc (try_lock 0 (lock_init\<lparr>pc := (pc lock_init)(0 := Trying)\<rparr>)) d = Inside} = {0}"
proof -
  let ?s = "lock_init\<lparr>pc := (pc lock_init)(0 := Trying)\<rparr>"
  have "lock_step lock_init ?s" by (rule lock_start) (simp add: lock_init_def)
  moreover have "lock_step ?s (try_lock 0 ?s)" by (rule lock_try) simp
  ultimately have r: "lock_step\<^sup>*\<^sup>* lock_init (try_lock 0 ?s)" by simp
  have "pc (try_lock 0 ?s) 0 = Inside"
    by (simp add: try_lock_def xchg_def lock_init_def)
  then show ?thesis
    using spinlock_mutual_exclusion [OF r, of _ 0] by blast
qed

text \<open>
  C23: the lock is not lost. In every reachable state in which no processor is inside, the next
  exchange of any processor that is trying succeeds.
\<close>

theorem spinlock_free_is_taken:
  assumes "lock_step\<^sup>*\<^sup>* lock_init s" and "\<forall>d. pc s d \<noteq> Inside" and "pc s c = Trying"
  shows "lock_step s (try_lock c s) \<and> pc (try_lock c s) c = Inside"
proof -
  have "lock_inv s" using assms(1) by (rule lock_inv_reachable)
  then have "word s = 0" using assms(2) by (auto simp: lock_inv_def)
  then have "pc (try_lock c s) c = Inside" by (simp add: try_lock_def xchg_def)
  then show ?thesis using lock_try [OF assms(3)] by blast
qed

theorem spinlock_free_is_taken_witness:
  "pc (try_lock 0 (lock_init\<lparr>pc := (pc lock_init)(0 := Trying)\<rparr>)) 0 = Inside"
proof -
  let ?s = "lock_init\<lparr>pc := (pc lock_init)(0 := Trying)\<rparr>"
  have "lock_step lock_init ?s" by (rule lock_start) (simp add: lock_init_def)
  then have "lock_step\<^sup>*\<^sup>* lock_init ?s" by simp
  then show ?thesis
    using spinlock_free_is_taken [of ?s 0] by (simp add: lock_init_def)
qed

end
