(* ===== verification/Ulib.thy ===== *)
theory Ulib
  imports Strings
begin

text \<open>
  The user library (\<open>src/ulib.c\<close>, \<open>src/printf.c\<close>) and the system calls as a user program
  sees them. A program runs in a world that answers its system calls: the answer may depend
  on all calls so far, and \<open>None\<close> means that the call does not return. The calls made are kept
  in a trace. A C string is the list of its bytes before the NUL; a routine that reads
  through a pointer takes a \<open>reader\<close>, as in \<open>Strings\<close>.
\<close>

section \<open>System calls\<close>

datatype ucall =
    Uread int int
  | Uwrite int "uchar list"
  | Uopen "uchar list" int
  | Uclose int
  | Udup int
  | Upipe
  | Ufork
  | Uexit
  | Uwait
  | Ukill int
  | Uexec "uchar list" "uchar list list"
  | Uchdir "uchar list"
  | Ulink "uchar list" "uchar list"
  | Uunlink "uchar list"
  | Umkdir "uchar list"
  | Umknod "uchar list" int int
  | Ufstat int
  | Usbrk int
  | Usleep int

text \<open>
  What a call hands back: its result, the bytes it stored through a pointer (\<open>read\<close>), and the
  numbers it stored (the two descriptors of \<open>pipe\<close>; type, inode number and size of \<open>fstat\<close>).
\<close>

record reply =
  rv :: int
  rbytes :: "uchar list"
  rnums :: "int list"

record uworld =
  answer :: "ucall list \<Rightarrow> reply option"
  trace :: "ucall list"

definition usys :: "ucall \<Rightarrow> ('a uworld_scheme, reply) kop" where
  "usys c w =
     (let w' = w\<lparr>trace := trace w @ [c]\<rparr> in
      case answer w (trace w') of None \<Rightarrow> Stop Swtch w' | Some r \<Rightarrow> Ok r w')"

definition ucall :: "ucall \<Rightarrow> ('a uworld_scheme, int) kop" where
  "ucall c = bindk (usys c) (\<lambda>r. returnk (rv r))"

text \<open>\<open>exit\<close> does not return, whatever the answer.\<close>

definition uexit :: "('a uworld_scheme, 'b) kop" where
  "uexit w = Stop Swtch (w\<lparr>trace := trace w @ [Uexit]\<rparr>)"

definition str :: "string \<Rightarrow> uchar list" where
  "str s = map of_char s"

abbreviation (input) O_RDONLY :: int where "O_RDONLY \<equiv> 0"
abbreviation (input) O_WRONLY :: int where "O_WRONLY \<equiv> 1"
abbreviation (input) O_RDWR :: int where "O_RDWR \<equiv> 2"
abbreviation (input) O_CREATE :: int where "O_CREATE \<equiv> 0x200"

section \<open>Strings and memory\<close>

text \<open>The bytes stored by \<open>strcpy\<close>, the terminating NUL included.\<close>

partial_function (option) strcpy_from :: "reader \<Rightarrow> nat \<Rightarrow> uchar list option" where
  "strcpy_from t i =
     (if t i = 0 then Some [0]
      else Option.bind (strcpy_from t (Suc i)) (\<lambda>bs. Some (t i # bs)))"

definition strcpy :: "reader \<Rightarrow> uchar list option" where
  "strcpy t = strcpy_from t 0"

partial_function (option) strcmp_from :: "reader \<Rightarrow> reader \<Rightarrow> nat \<Rightarrow> int option" where
  "strcmp_from p q i =
     (if p i \<noteq> 0 \<and> p i = q i then strcmp_from p q (Suc i)
      else Some (uint (p i) - uint (q i)))"

definition strcmp :: "reader \<Rightarrow> reader \<Rightarrow> int option" where
  "strcmp p q = strcmp_from p q 0"

partial_function (option) ustrlen_from :: "reader \<Rightarrow> nat \<Rightarrow> nat option" where
  "ustrlen_from s n = (if s n \<noteq> 0 then ustrlen_from s (Suc n) else Some n)"

definition ustrlen :: "reader \<Rightarrow> nat option" where
  "ustrlen s = ustrlen_from s 0"

definition umemset :: "memory \<Rightarrow> uint \<Rightarrow> uint \<Rightarrow> uint \<Rightarrow> memory" where
  "umemset m dst c n = stosb m dst (ucast c) (unat n)"

text \<open>The offset of the byte found, \<open>Some None\<close> for the null pointer.\<close>

partial_function (option) strchr_from :: "reader \<Rightarrow> uchar \<Rightarrow> nat \<Rightarrow> nat option option" where
  "strchr_from s c i =
     (if s i = 0 then Some None
      else if s i = c then Some (Some i)
      else strchr_from s c (Suc i))"

definition strchr :: "reader \<Rightarrow> uchar \<Rightarrow> nat option option" where
  "strchr s c = strchr_from s c 0"

definition strchr_in :: "uchar list \<Rightarrow> uchar \<Rightarrow> bool" where
  "strchr_in s c = (case strchr (rd s) c of Some (Some i) \<Rightarrow> True | _ \<Rightarrow> False)"

text \<open>
  \<open>atoi\<close> adds in \<open>int\<close>; the sum is kept as a 32-bit word. (A sum that does not fit is
  undefined in C.)
\<close>

partial_function (option) atoi_from :: "reader \<Rightarrow> nat \<Rightarrow> uint \<Rightarrow> int option" where
  "atoi_from s i n =
     (if 48 \<le> s i \<and> s i \<le> 57 then atoi_from s (Suc i) (n * 10 + ucast (s i) - 48)
      else Some (sint n))"

definition atoi :: "reader \<Rightarrow> int option" where
  "atoi s = atoi_from s 0 0"

definition umemmove :: "memory \<Rightarrow> uint \<Rightarrow> uint \<Rightarrow> int \<Rightarrow> memory" where
  "umemmove m dst src n = copy_up m dst src (nat n)"

declare strcpy_from.simps [code] strcmp_from.simps [code] ustrlen_from.simps [code]
  strchr_from.simps [code] atoi_from.simps [code]

section \<open>Input\<close>

text \<open>
  \<open>gets\<close> returns the bytes it stored before the NUL; \<open>k\<close> counts the places left,
  \<open>max - i - 1\<close>.
\<close>

primrec gets_loop :: "nat \<Rightarrow> ('a uworld_scheme, uchar list) kop" where
  "gets_loop 0 = returnk []"
| "gets_loop (Suc k) =
     bindk (usys (Uread 0 1)) (\<lambda>r.
     if rv r < 1 then returnk []
     else
       (let c = hd (rbytes r @ [0]) in
        if c = 10 \<or> c = 13 then returnk [c]
        else bindk (gets_loop k) (\<lambda>cs. returnk (c # cs))))"

definition gets :: "int \<Rightarrow> ('a uworld_scheme, uchar list) kop" where
  "gets m = gets_loop (nat (m - 1))"

definition ustat :: "uchar list \<Rightarrow> ('a uworld_scheme, int \<times> int list) kop" where
  "ustat n =
     bindk (ucall (Uopen n O_RDONLY)) (\<lambda>fd.
     if fd < 0 then returnk (-1, [])
     else
     bindk (usys (Ufstat fd)) (\<lambda>r.
     thenk (ucall (Uclose fd)) (
     returnk (rv r, rnums r))))"

section \<open>Output\<close>

definition putc :: "int \<Rightarrow> uchar \<Rightarrow> ('a uworld_scheme, unit) kop" where
  "putc fd c = thenk (ucall (Uwrite fd [c])) (returnk ())"

definition puts :: "int \<Rightarrow> uchar list \<Rightarrow> ('a uworld_scheme, unit) kop" where
  "puts fd cs = foreachk cs (putc fd)"

text \<open>
  The digits the loop of \<open>printint\<close> stores, least significant first. The base is 10 or 16 in
  every call.
\<close>

fun uprintint_digits :: "nat \<Rightarrow> nat \<Rightarrow> nat list" where
  "uprintint_digits b x =
     (if b < 2 \<or> x < b then [x mod b] else (x mod b) # uprintint_digits b (x div b))"

definition udigit :: "nat \<Rightarrow> uchar" where
  "udigit d = str ''0123456789ABCDEF'' ! d"

definition uprintint_chars :: "uint \<Rightarrow> nat \<Rightarrow> bool \<Rightarrow> uchar list" where
  "uprintint_chars xx base sg =
     (let neg = sg \<and> sint xx < 0;
          x = (if neg then - xx else xx)
      in (if neg then [45] else []) @ rev (map udigit (uprintint_digits base (unat x))))"

definition uprintint :: "int \<Rightarrow> uint \<Rightarrow> nat \<Rightarrow> bool \<Rightarrow> ('a uworld_scheme, unit) kop" where
  "uprintint fd xx base sg = puts fd (uprintint_chars xx base sg)"

text \<open>
  An argument of \<open>printf\<close> is a word or the string its address points to (\<open>None\<close> for the null
  pointer); an argument that is missing or of the wrong kind is undefined behaviour.
\<close>

datatype uarg = UInt uint | UStr "uchar list option"

fun printf_loop :: "int \<Rightarrow> uchar list \<Rightarrow> uarg list \<Rightarrow> bool \<Rightarrow> ('a uworld_scheme, unit) kop" where
  "printf_loop fd [] ap st = returnk ()"
| "printf_loop fd (c # fmt) ap False =
     (if c = 37 then printf_loop fd fmt ap True
      else thenk (putc fd c) (printf_loop fd fmt ap False))"
| "printf_loop fd (c # fmt) ap True =
     (if c = 100 then
        (case ap of
           UInt x # ap' \<Rightarrow> thenk (uprintint fd x 10 True) (printf_loop fd fmt ap' False)
         | _ \<Rightarrow> stopk (Undef ''printf argument''))
      else if c = 120 \<or> c = 112 then
        (case ap of
           UInt x # ap' \<Rightarrow> thenk (uprintint fd x 16 False) (printf_loop fd fmt ap' False)
         | _ \<Rightarrow> stopk (Undef ''printf argument''))
      else if c = 115 then
        (case ap of
           UStr (Some s) # ap' \<Rightarrow> thenk (puts fd s) (printf_loop fd fmt ap' False)
         | UStr None # ap' \<Rightarrow> thenk (puts fd (str ''(null)'')) (printf_loop fd fmt ap' False)
         | _ \<Rightarrow> stopk (Undef ''printf argument''))
      else if c = 99 then
        (case ap of
           UInt x # ap' \<Rightarrow> thenk (putc fd (ucast x)) (printf_loop fd fmt ap' False)
         | _ \<Rightarrow> stopk (Undef ''printf argument''))
      else if c = 37 then thenk (putc fd c) (printf_loop fd fmt ap False)
      else thenk (putc fd 37) (thenk (putc fd c) (printf_loop fd fmt ap False)))"

definition printf :: "int \<Rightarrow> string \<Rightarrow> uarg list \<Rightarrow> ('a uworld_scheme, unit) kop" where
  "printf fd fmt ap = printf_loop fd (str fmt) ap False"

section \<open>String routines on C strings\<close>

text \<open>
  Each loop is followed from the position after a prefix \<open>xs\<close> of the string.
\<close>

lemma rd_append [simp]: "rd (xs @ y # ys) (length xs) = y" "rd xs (length xs) = 0"
  by (simp_all add: rd_def)

lemma ustrlen_from_rd:
  "0 \<notin> set ys \<Longrightarrow> ustrlen_from (rd (xs @ ys)) (length xs) = Some (length (xs @ ys))"
proof (induction ys arbitrary: xs)
  case Nil
  then show ?case by (subst ustrlen_from.simps) simp
next
  case (Cons y ys)
  then show ?case using Cons.IH [of "xs @ [y]"] by (subst ustrlen_from.simps) simp
qed

lemma ustrlen_rd: "0 \<notin> set s \<Longrightarrow> ustrlen (rd s) = Some (length s)"
  using ustrlen_from_rd [of s "[]"] by (simp add: ustrlen_def)

lemma strcpy_from_rd:
  "0 \<notin> set ys \<Longrightarrow> strcpy_from (rd (xs @ ys)) (length xs) = Some (ys @ [0])"
proof (induction ys arbitrary: xs)
  case Nil
  then show ?case by (subst strcpy_from.simps) simp
next
  case (Cons y ys)
  then show ?case using Cons.IH [of "xs @ [y]"] by (subst strcpy_from.simps) simp
qed

lemma strcpy_rd: "0 \<notin> set s \<Longrightarrow> strcpy (rd s) = Some (s @ [0])"
  using strcpy_from_rd [of s "[]"] by (simp add: strcpy_def)

lemma strchr_from_rd:
  "0 \<notin> set ys \<Longrightarrow> strchr_from (rd (xs @ ys)) c (length xs) =
     Some (if c \<in> set ys then Some (length xs + length (takeWhile (\<lambda>b. b \<noteq> c) ys)) else None)"
proof (induction ys arbitrary: xs)
  case Nil
  then show ?case by (subst strchr_from.simps) simp
next
  case (Cons y ys)
  then show ?case using Cons.IH [of "xs @ [y]"] by (subst strchr_from.simps) simp
qed

lemma strchr_in_iff: "0 \<notin> set s \<Longrightarrow> strchr_in s c \<longleftrightarrow> c \<in> set s"
  using strchr_from_rd [of s "[]" c] by (simp add: strchr_in_def strchr_def)

lemma strcmp_from_rd:
  "0 \<notin> set p \<Longrightarrow> 0 \<notin> set q \<Longrightarrow> \<exists>r. strcmp_from (rd (xs @ p)) (rd (xs @ q)) (length xs) = Some r \<and> (r = 0 \<longleftrightarrow> p = q)"
proof (induction p arbitrary: q xs)
  case Nil
  then show ?case by (cases q; subst strcmp_from.simps) (auto simp: uint_0_iff)
next
  case (Cons y p)
  show ?case
  proof (cases q)
    case Nil
    then show ?thesis using Cons.prems by (subst strcmp_from.simps) (auto simp: uint_0_iff)
  next
    case (Cons z q')
    then show ?thesis
      using Cons.IH [of q' "xs @ [y]"] Cons.prems
      by (cases "y = z"; subst strcmp_from.simps) (auto simp: uint_eq_uint_iff)
  qed
qed

section \<open>Printing and reading numbers\<close>

lemma str_digits: "str ''0123456789ABCDEF'' =
    [48, 49, 50, 51, 52, 53, 54, 55, 56, 57, 65, 66, 67, 68, 69, 70]"
  by (simp add: str_def)

lemma udigit_decimal: "d < 10 \<Longrightarrow> udigit d = of_nat (48 + d)"
  by (simp add: udigit_def str_digits) (auto simp: eval_nat_numeral less_Suc_eq)

lemma uprintint_digits_decimal:
  "set (uprintint_digits 10 x) \<subseteq> {..<10}" "uprintint_digits 10 x \<noteq> []"
  "foldr (\<lambda>d n. d + 10 * n) (uprintint_digits 10 x) 0 = x"
  by (induction "10 :: nat" x rule: uprintint_digits.induct; subst uprintint_digits.simps; simp)+

lemma atoi_from_digits:
  "set ds \<subseteq> {..<10} \<Longrightarrow> atoi_from (rd (xs @ map udigit ds)) (length xs) n =
     Some (sint (foldl (\<lambda>n d. n * 10 + of_nat d) n ds))"
proof (induction ds arbitrary: xs n)
  case Nil
  then show ?case by (subst atoi_from.simps) simp
next
  case (Cons d ds)
  have d: "d < 10" using Cons.prems by simp
  have u: "unat (of_nat (48 + d) :: uchar) = 48 + d" using d by (simp only: unat_of_nat) simp
  have "ucast (udigit d) = (of_nat (unat (udigit d)) :: uint)" by simp
  then have digit: "48 \<le> udigit d" "udigit d \<le> 57" "ucast (udigit d) = (of_nat (48 + d) :: uint)"
    using d u unfolding udigit_decimal [OF d] u by (simp_all only: word_le_nat_alt u) simp_all
  show ?case
    using Cons.IH [of "xs @ [udigit d]" "n * 10 + of_nat d"] Cons.prems digit
    by (subst atoi_from.simps) (simp add: algebra_simps)
qed

text \<open>\<open>atoi\<close> reads back what \<open>printf\<close> prints for \<open>%d\<close>, for every number that is not negative.\<close>

lemma atoi_printint:
  assumes "0 \<le> sint x"
  shows "atoi (rd (uprintint_chars x 10 True)) = Some (sint x)"
proof -
  let ?ds = "uprintint_digits 10 (unat x)"
  have chars: "uprintint_chars x 10 True = map udigit (rev ?ds)"
    using assms by (simp add: uprintint_chars_def Let_def rev_map)
  have "foldl (\<lambda>n d. n * 10 + of_nat d) (0 :: uint) (rev ds) = of_nat (foldr (\<lambda>d n. d + 10 * n) ds 0)" for ds
    by (induction ds) (simp_all add: algebra_simps)
  then have "foldl (\<lambda>n d. n * 10 + of_nat d) 0 (rev ?ds) = x"
    by (simp only: uprintint_digits_decimal(3)) simp
  then show ?thesis
    using atoi_from_digits [of "rev ?ds" "[]" 0] uprintint_digits_decimal(1)
    by (simp add: atoi_def chars)
qed

section \<open>A world that serves a file\<close>

text \<open>
  The number of reads from a descriptor and the bytes written to one, in a list of calls. A world
  \<open>serves\<close> the chunks \<open>cs\<close> on \<open>fd\<close> when the k-th read from \<open>fd\<close>, if it asks for enough bytes,
  returns the k-th chunk, with 0 from the end on, and every write returns; \<open>reading\<close> adds that k
  chunks have been read.
\<close>

definition reads_of :: "int \<Rightarrow> ucall list \<Rightarrow> nat" where
  "reads_of fd h = length (filter (\<lambda>c. case c of Uread f n \<Rightarrow> f = fd | _ \<Rightarrow> False) h)"

definition written :: "int \<Rightarrow> ucall list \<Rightarrow> uchar list" where
  "written fd h = concat (map (\<lambda>c. case c of Uwrite f bs \<Rightarrow> (if f = fd then bs else []) | _ \<Rightarrow> []) h)"

definition chunk_reply :: "uchar list list \<Rightarrow> nat \<Rightarrow> reply" where
  "chunk_reply cs k =
     (if k < length cs then \<lparr>rv = int (length (cs ! k)), rbytes = cs ! k, rnums = []\<rparr>
      else \<lparr>rv = 0, rbytes = [], rnums = []\<rparr>)"

definition serves :: "int \<Rightarrow> uchar list list \<Rightarrow> 'a uworld_scheme \<Rightarrow> bool" where
  "serves fd cs w \<longleftrightarrow>
     (\<forall>h n. rv (chunk_reply cs (reads_of fd h)) \<le> n \<longrightarrow>
        answer w (h @ [Uread fd n]) = Some (chunk_reply cs (reads_of fd h))) \<and>
     (\<forall>h f bs. answer w (h @ [Uwrite f bs]) \<noteq> None)"

definition reading :: "int \<Rightarrow> uchar list list \<Rightarrow> nat \<Rightarrow> 'a uworld_scheme \<Rightarrow> bool" where
  "reading fd cs k w \<longleftrightarrow> serves fd cs w \<and> reads_of fd (trace w) = k"

definition serve :: "int \<Rightarrow> uchar list list \<Rightarrow> ucall list \<Rightarrow> reply option" where
  "serve fd cs h =
     Some (case last h of
         Uread f n \<Rightarrow>
           (let r = chunk_reply cs (reads_of fd (butlast h)) in
            if f = fd \<and> rv r \<le> n then r else \<lparr>rv = -1, rbytes = [], rnums = []\<rparr>)
       | Uwrite f bs \<Rightarrow> \<lparr>rv = int (length bs), rbytes = [], rnums = []\<rparr>
       | _ \<Rightarrow> \<lparr>rv = 0, rbytes = [], rnums = []\<rparr>)"

definition sample_world :: "int \<Rightarrow> uchar list list \<Rightarrow> uworld" where
  "sample_world fd cs = \<lparr>answer = serve fd cs, trace = []\<rparr>"

lemma trace_counts [simp]:
  "reads_of fd [] = 0" "written fd [] = []"
  "reads_of fd (h @ h') = reads_of fd h + reads_of fd h'" "written fd (h @ h') = written fd h @ written fd h'"
  "reads_of fd [Uread f n] = (if f = fd then 1 else 0)" "reads_of fd [Uwrite f bs] = 0"
  "written fd [Uread f n] = []" "written fd [Uwrite f bs] = (if f = fd then bs else [])"
  by (simp_all add: reads_of_def written_def)

lemma sample_world_reading: "reading fd cs 0 (sample_world fd cs)"
  by (simp add: reading_def serves_def sample_world_def serve_def Let_def)

lemma read_step:
  assumes "reading fd cs k w" and "rv (chunk_reply cs k) \<le> n"
  shows "\<exists>w'. usys (Uread fd n) w = Ok (chunk_reply cs k) w' \<and> reading fd cs (Suc k) w' \<and>
    (\<forall>f. written f (trace w') = written f (trace w))"
  using assms by (auto simp: usys_def reading_def serves_def Let_def)

lemma write_step:
  assumes "reading fd cs k w"
  shows "\<exists>w' r. usys (Uwrite f bs) w = Ok r w' \<and> reading fd cs k w' \<and>
    (\<forall>g. written g (trace w') = written g (trace w) @ (if g = f then bs else []))"
proof -
  let ?w = "w\<lparr>trace := trace w @ [Uwrite f bs]\<rparr>"
  obtain r where "answer w (trace w @ [Uwrite f bs]) = Some r"
    using assms by (fastforce simp: reading_def serves_def)
  then show ?thesis
    using assms by (intro exI [of _ ?w] exI [of _ r]) (simp add: usys_def reading_def serves_def)
qed

text \<open>\<open>prints fd cs f out m\<close>: the operation returns, reads nothing and writes \<open>out\<close> to \<open>f\<close>.\<close>

definition prints :: "int \<Rightarrow> uchar list list \<Rightarrow> int \<Rightarrow> uchar list \<Rightarrow> ('a uworld_scheme, unit) kop \<Rightarrow> bool" where
  "prints fd cs f out m \<longleftrightarrow> (\<forall>w k. reading fd cs k w \<longrightarrow>
     (\<exists>w'. m w = Ok () w' \<and> reading fd cs k w' \<and>
       (\<forall>g. written g (trace w') = written g (trace w) @ (if g = f then out else []))))"

named_theorems prints_rules "what the output routines write"

lemma prints_return [prints_rules]: "prints fd cs f [] (returnk ())"
  by (simp add: prints_def returnk_def)

lemma prints_write: "prints fd cs f bs (thenk (ucall (Uwrite f bs)) (returnk ()))"
  unfolding prints_def
proof (intro allI impI)
  fix w :: "'a uworld_scheme" and k
  assume "reading fd cs k w"
  from write_step [OF this, of f bs] obtain w' r where
    "usys (Uwrite f bs) w = Ok r w'" "reading fd cs k w'"
    "\<forall>g. written g (trace w') = written g (trace w) @ (if g = f then bs else [])" by auto
  then show "\<exists>w'. thenk (ucall (Uwrite f bs)) (returnk ()) w = Ok () w' \<and> reading fd cs k w' \<and>
      (\<forall>g. written g (trace w') = written g (trace w) @ (if g = f then bs else []))"
    by (simp add: ucall_def thenk_def returnk_def)
qed

lemma prints_thenk [prints_rules]:
  assumes "prints fd cs f a m" and "prints fd cs f b m'"
  shows "prints fd cs f (a @ b) (thenk m m')"
  unfolding prints_def
proof (intro allI impI)
  fix w :: "'a uworld_scheme" and k
  assume "reading fd cs k w"
  then obtain w1 where 1: "m w = Ok () w1" "reading fd cs k w1"
      "\<forall>g. written g (trace w1) = written g (trace w) @ (if g = f then a else [])"
    using assms(1) unfolding prints_def by blast
  obtain w2 where 2: "m' w1 = Ok () w2" "reading fd cs k w2"
      "\<forall>g. written g (trace w2) = written g (trace w1) @ (if g = f then b else [])"
    using assms(2) 1(2) unfolding prints_def by blast
  show "\<exists>w'. thenk m m' w = Ok () w' \<and> reading fd cs k w' \<and>
      (\<forall>g. written g (trace w') = written g (trace w) @ (if g = f then a @ b else []))"
    using 1 2 by (intro exI [of _ w2]) simp
qed

lemma prints_putc [prints_rules]: "prints fd cs f [c] (putc f c)"
  unfolding putc_def by (rule prints_write)

lemma prints_puts [prints_rules]: "prints fd cs f bs (puts f bs)"
proof (induction bs)
  case Nil
  then show ?case by (simp add: puts_def prints_return)
next
  case (Cons b bs)
  then show ?case using prints_thenk [OF prints_putc Cons.IH] by (simp add: puts_def)
qed

lemma prints_printint [prints_rules]:
  "prints fd cs f (uprintint_chars x base sg) (uprintint f x base sg)"
  unfolding uprintint_def by (rule prints_puts)

end
