(* ===== verification/Grep.thy ===== *)
theory Grep
  imports Ulib
begin

text \<open>
  \<open>src/grep.c\<close>: the regular expression matcher and the program that prints the matching lines of
  its input. The reference for the matcher is the language of a pattern, a set of strings
  defined without any search.
\<close>

section \<open>The matcher\<close>

abbreviation (input) CARET :: uchar where "CARET \<equiv> 94"
abbreviation (input) DOLLAR :: uchar where "DOLLAR \<equiv> 36"
abbreviation (input) DOT :: uchar where "DOT \<equiv> 46"
abbreviation (input) STAR :: uchar where "STAR \<equiv> 42"
abbreviation (input) NEWLINE :: uchar where "NEWLINE \<equiv> 10"

text \<open>
  \<open>matchstar\<close> calls \<open>matchhere\<close> on the rest of the pattern; this call is its first argument.
\<close>

fun matchstar :: "(uchar list \<Rightarrow> bool) \<Rightarrow> uchar \<Rightarrow> uchar list \<Rightarrow> bool" where
  "matchstar here c [] = here []"
| "matchstar here c (t # tx) =
     (here (t # tx) \<or> (t = c \<or> c = DOT) \<and> matchstar here c tx)"

fun matchhere :: "uchar list \<Rightarrow> uchar list \<Rightarrow> bool" where
  "matchhere [] = (\<lambda>tx. True)"
| "matchhere (c # re) =
     (if re \<noteq> [] \<and> hd re = STAR then matchstar (matchhere (tl re)) c
      else if c = DOLLAR \<and> re = [] then (\<lambda>tx. tx = [])
      else (\<lambda>tx. tx \<noteq> [] \<and> (c = DOT \<or> c = hd tx) \<and> matchhere re (tl tx)))"

fun match_from :: "uchar list \<Rightarrow> uchar list \<Rightarrow> bool" where
  "match_from re [] = matchhere re []"
| "match_from re (t # tx) = (matchhere re (t # tx) \<or> match_from re tx)"

definition match :: "uchar list \<Rightarrow> uchar list \<Rightarrow> bool" where
  "match re tx =
     (if re \<noteq> [] \<and> hd re = CARET then matchhere (tl re) tx else match_from re tx)"

section \<open>The program\<close>

lemma strchr_from_none: "strchr_from (rd (xs @ ys)) c (length xs) = Some r \<Longrightarrow>
  r = Some i \<Longrightarrow> i < length (xs @ ys)"
proof (induction ys arbitrary: xs)
  case Nil
  then show ?case by (subst (asm) strchr_from.simps) simp
next
  case (Cons y ys)
  then show ?case
    using Cons.IH [of "xs @ [y]"] by (subst (asm) strchr_from.simps) (auto split: if_splits)
qed

lemma strchr_inside: "strchr (rd s) c = Some (Some i) \<Longrightarrow> i < length s"
  using strchr_from_none [of "[]" s c "Some i" i] by (simp add: strchr_def)

text \<open>
  The inner loop: \<open>rest\<close> is the tx from \<open>p\<close> to the end of the buffer. It returns what is left
  when no newline follows.
\<close>

function grep_scan :: "uchar list \<Rightarrow> uchar list \<Rightarrow> ('a uworld_scheme, uchar list) kop" where
  "grep_scan pattern rest =
     (case strchr (rd rest) NEWLINE of
        Some (Some q) \<Rightarrow>
          thenk (whenk (match pattern (take q rest))
                   (thenk (ucall (Uwrite 1 (take (q + 1) rest))) (returnk ()))) (
          grep_scan pattern (drop (q + 1) rest))
      | _ \<Rightarrow> returnk rest)"
  by pat_completeness auto
termination
  by (relation "measure (\<lambda>(p, rest). length rest)") (auto dest: strchr_inside)

text \<open>
  The outer loop: \<open>b\<close> is the part of the buffer kept from the last round. Fuel bounds the number
  of reads.
\<close>

primrec grep_loop :: "nat \<Rightarrow> uchar list \<Rightarrow> int \<Rightarrow> uchar list \<Rightarrow> ('a uworld_scheme, unit) kop" where
  "grep_loop 0 pattern fd b = stopk Diverge"
| "grep_loop (Suc k) pattern fd b =
     bindk (usys (Uread fd (1024 - int (length b) - 1))) (\<lambda>r.
     if rv r > 0 then
       (let buf = b @ rbytes r in
        bindk (grep_scan pattern buf) (\<lambda>p.
        if length p = length buf then grep_loop k pattern fd []
        else grep_loop k pattern fd p))
     else returnk ())"

definition grep :: "nat \<Rightarrow> uchar list \<Rightarrow> int \<Rightarrow> ('a uworld_scheme, unit) kop" where
  "grep k pattern fd = grep_loop k pattern fd []"

definition grep_file :: "nat \<Rightarrow> uchar list \<Rightarrow> uchar list \<Rightarrow> ('a uworld_scheme, unit) kop" where
  "grep_file k pattern name =
     bindk (ucall (Uopen name O_RDONLY)) (\<lambda>fd.
     if fd < 0 then
       thenk (printf 1 ''grep: cannot open %s\<newline>'' [UStr (Some name)]) uexit
     else
     thenk (grep k pattern fd) (
     thenk (ucall (Uclose fd)) (
     returnk ())))"

definition grep_main :: "nat \<Rightarrow> uchar list list \<Rightarrow> ('a uworld_scheme, unit) kop" where
  "grep_main k argv =
     (if length argv \<le> 1 then
        thenk (printf 2 ''usage: grep pattern [file ...]\<newline>'' []) uexit
      else if length argv \<le> 2 then thenk (grep k (argv ! 1) 0) uexit
      else thenk (foreachk (drop 2 argv) (grep_file k (argv ! 1))) uexit)"

section \<open>The language of a pattern\<close>

datatype atom = Any | Lit uchar

datatype item = One atom | Star atom

definition atom_of :: "uchar \<Rightarrow> atom" where
  "atom_of c = (if c = DOT then Any else Lit c)"

definition sym :: "atom \<Rightarrow> uchar set" where
  "sym a = (case a of Any \<Rightarrow> UNIV | Lit c \<Rightarrow> {c})"

text \<open>The items of a pattern without its caret, and whether it ends in a dollar sign.\<close>

fun items :: "uchar list \<Rightarrow> item list" where
  "items [] = []"
| "items [c] = (if c = DOLLAR then [] else [One (atom_of c)])"
| "items (c # d # re) = (if d = STAR then Star (atom_of c) # items re else One (atom_of c) # items (d # re))"

fun anchored :: "uchar list \<Rightarrow> bool" where
  "anchored [] = False"
| "anchored [c] = (c = DOLLAR)"
| "anchored (c # d # re) = (if d = STAR then anchored re else anchored (d # re))"

primrec lang :: "item list \<Rightarrow> uchar list set" where
  "lang [] = {[]}"
| "lang (i # is) =
     (case i of
        One a \<Rightarrow> {c # u | c u. c \<in> sym a \<and> u \<in> lang is}
      | Star a \<Rightarrow> {x @ u | x u. set x \<subseteq> sym a \<and> u \<in> lang is})"

definition here_spec :: "uchar list \<Rightarrow> uchar list \<Rightarrow> bool" where
  "here_spec re tx \<longleftrightarrow> (\<exists>u v. tx = u @ v \<and> u \<in> lang (items re) \<and> (anchored re \<longrightarrow> v = []))"

section \<open>The matcher decides the language\<close>

lemma sym_atom_of: "t \<in> sym (atom_of c) \<longleftrightarrow> t = c \<or> c = DOT"
  by (auto simp: sym_def atom_of_def)

lemma matchstar_iff:
  "matchstar here c tx \<longleftrightarrow> (\<exists>x y. tx = x @ y \<and> set x \<subseteq> sym (atom_of c) \<and> here y)"
proof (induction tx)
  case Nil
  then show ?case by auto
next
  case (Cons t tx)
  show ?case
  proof
    assume "matchstar here c (t # tx)"
    then consider "here (t # tx)" | "t \<in> sym (atom_of c)" "matchstar here c tx"
      by (auto simp: sym_atom_of)
    then show "\<exists>x y. t # tx = x @ y \<and> set x \<subseteq> sym (atom_of c) \<and> here y"
    proof cases
      case 1
      then show ?thesis by (intro exI [of _ "[]"] exI [of _ "t # tx"]) simp
    next
      case 2
      then obtain x y where "tx = x @ y" "set x \<subseteq> sym (atom_of c)" "here y" using Cons.IH by auto
      then show ?thesis using 2(1) by (intro exI [of _ "t # x"] exI [of _ y]) simp
    qed
  next
    assume "\<exists>x y. t # tx = x @ y \<and> set x \<subseteq> sym (atom_of c) \<and> here y"
    then obtain x y where xy: "t # tx = x @ y" "set x \<subseteq> sym (atom_of c)" "here y" by auto
    show "matchstar here c (t # tx)"
    proof (cases x)
      case Nil
      then have "y = t # tx" using xy(1) by simp
      then show ?thesis using xy(3) by simp
    next
      case (Cons a x')
      then have "matchstar here c tx" using xy Cons.IH by auto
      then show ?thesis using xy Cons by (simp add: sym_atom_of)
    qed
  qed
qed

lemma lang_star_prefix:
  "(\<exists>u v. tx = u @ v \<and> u \<in> lang (Star a # is) \<and> P v) \<longleftrightarrow>
   (\<exists>x y. tx = x @ y \<and> set x \<subseteq> sym a \<and> (\<exists>u v. y = u @ v \<and> u \<in> lang is \<and> P v))"
  by (auto) (metis append.assoc)+

lemma lang_one_prefix:
  "(\<exists>u v. tx = u @ v \<and> u \<in> lang (One a # is) \<and> P v) \<longleftrightarrow>
   (\<exists>t ts. tx = t # ts \<and> t \<in> sym a \<and> (\<exists>u v. ts = u @ v \<and> u \<in> lang is \<and> P v))"
  by auto (metis append_Cons)+

lemma matchhere_iff: "matchhere re tx \<longleftrightarrow> here_spec re tx"
proof (induction re arbitrary: tx rule: items.induct)
  case 1
  then show ?case by (simp add: here_spec_def)
next
  case (2 c)
  show ?case
    using lang_one_prefix [of tx "atom_of c" "[]" "\<lambda>v. True"]
    by (cases tx; cases "c = DOLLAR") (auto simp: here_spec_def sym_atom_of simp del: lang.simps(2))
next
  case (3 c d re)
  show ?case
  proof (cases "d = STAR")
    case True
    have "matchhere re = here_spec re" using "3.IH"(1) [OF True] by (simp add: fun_eq_iff)
    then show ?thesis
      using True by (simp add: matchstar_iff here_spec_def lang_star_prefix del: lang.simps)
  next
    case False
    have "matchhere (d # re) = here_spec (d # re)" using "3.IH"(2) [OF False] by (simp add: fun_eq_iff)
    then have "matchhere (c # d # re) tx \<longleftrightarrow> (\<exists>t ts. tx = t # ts \<and> t \<in> sym (atom_of c) \<and> here_spec (d # re) ts)"
      using False by (cases tx) (auto simp: sym_atom_of matchhere.simps(2) [of c] simp del: matchhere.simps(2))
    then show ?thesis
      using False by (simp add: here_spec_def lang_one_prefix del: lang.simps(2) matchhere.simps(2))
  qed
qed

lemma match_from_iff: "match_from re tx \<longleftrightarrow> (\<exists>w x. tx = w @ x \<and> matchhere re x)"
proof (induction tx)
  case (Cons t tx)
  then show ?case
    by simp (metis append_Cons append_Nil append_eq_Cons_conv)
qed simp

section \<open>Lines\<close>

lemma split_newline:
  assumes "NEWLINE \<in> set b"
  obtains l c where "b = l @ NEWLINE # c" "NEWLINE \<notin> set l"
  using split_list_first [OF assms] by auto

lemma until_newline [simp]:
  "NEWLINE \<notin> set l \<Longrightarrow> takeWhile (\<lambda>c. c \<noteq> NEWLINE) (l @ NEWLINE # b) = l"
  "NEWLINE \<notin> set l \<Longrightarrow> dropWhile (\<lambda>c. c \<noteq> NEWLINE) (l @ NEWLINE # b) = NEWLINE # b"
  by (induction l) auto

text \<open>The complete lines of a text, each with its newline, and what follows the last newline.\<close>

function full_lines :: "uchar list \<Rightarrow> uchar list list" where
  "full_lines b =
     (if NEWLINE \<in> set b
      then takeWhile (\<lambda>c. c \<noteq> NEWLINE) b # full_lines (tl (dropWhile (\<lambda>c. c \<noteq> NEWLINE) b))
      else [])"
  by pat_completeness auto
termination
  by (relation "measure length") (auto elim!: split_newline)

declare full_lines.simps [simp del] grep_scan.simps [simp del]

definition last_part :: "uchar list \<Rightarrow> uchar list" where
  "last_part b = rev (takeWhile (\<lambda>c. c \<noteq> NEWLINE) (rev b))"

text \<open>Every chunk fits in the 1024 bytes of the buffer, after the part kept of the last line.\<close>

primrec fits :: "uchar list \<Rightarrow> uchar list list \<Rightarrow> bool" where
  "fits b [] \<longleftrightarrow> length b < 1024"
| "fits b (c # cs) \<longleftrightarrow> length b + length c < 1024 \<and> fits (last_part (b @ c)) cs"

definition matching :: "uchar list \<Rightarrow> uchar list list \<Rightarrow> uchar list" where
  "matching pattern ls = concat (map (\<lambda>l. l @ [NEWLINE]) (filter (match pattern) ls))"

lemma full_lines_simp: 
  "NEWLINE \<notin> set l \<Longrightarrow> full_lines (l @ NEWLINE # b) = l # full_lines b"
  "NEWLINE \<notin> set l \<Longrightarrow> full_lines l = []"
  by (subst full_lines.simps; simp)+

lemma last_part_simp:
  "NEWLINE \<notin> set l \<Longrightarrow> last_part l = l" "last_part (l @ NEWLINE # b) = last_part b"
  "NEWLINE \<notin> set (last_part l)" "0 \<notin> set l \<Longrightarrow> 0 \<notin> set (last_part l)"
  "NEWLINE \<in> set l \<Longrightarrow> length (last_part l) < length l"
proof -
  have n: "NEWLINE \<notin> set l \<Longrightarrow> last_part l = l" for l
    unfolding last_part_def by (subst takeWhile_eq_all_conv [THEN iffD2]) auto
  then show "NEWLINE \<notin> set l \<Longrightarrow> last_part l = l" .
  show two: "last_part (l @ NEWLINE # b) = last_part b" for l b
  proof (cases "NEWLINE \<in> set b")
    case False
    then show ?thesis using n [of b] by (simp add: last_part_def takeWhile_append2)
  qed (simp add: last_part_def takeWhile_append1)
  show "NEWLINE \<notin> set (last_part l)" by (auto simp: last_part_def dest: set_takeWhileD)
  show "0 \<notin> set l \<Longrightarrow> 0 \<notin> set (last_part l)" by (auto simp: last_part_def dest: set_takeWhileD)
  show "NEWLINE \<in> set l \<Longrightarrow> length (last_part l) < length l"
  proof (erule split_newline)
    fix a c
    assume "l = a @ NEWLINE # c"
    moreover have "length (last_part c) \<le> length c" unfolding last_part_def by (simp add: length_takeWhile_le [of _ "rev c", simplified])
    ultimately show ?thesis using two [of a c] by simp
  qed
qed

lemma full_lines_append: "full_lines (a @ b) = full_lines a @ full_lines (last_part a @ b)"
proof (induction a rule: full_lines.induct)
  case (1 a)
  show ?case
  proof (cases "NEWLINE \<in> set a")
    case True
    then obtain l c where a: "a = l @ NEWLINE # c" "NEWLINE \<notin> set l" by (rule split_newline)
    then have "tl (dropWhile (\<lambda>c. c \<noteq> NEWLINE) a) = c" by simp
    then have "full_lines (c @ b) = full_lines c @ full_lines (last_part c @ b)" using "1.IH" [OF True] by simp
    then show ?thesis using a by (simp add: full_lines_simp last_part_simp)
  qed (simp add: full_lines_simp last_part_simp)
qed

lemma grep_scan_prints:
  assumes "0 \<notin> set b" and "reading fd cs k w"
  shows "\<exists>w'. grep_scan pattern b w = Ok (last_part b) w' \<and> reading fd cs k w' \<and>
    (\<forall>g. written g (trace w') = written g (trace w) @ (if g = 1 then matching pattern (full_lines b) else []))"
  using assms
proof (induction b arbitrary: w rule: length_induct)
  case (1 b)
  show ?case
  proof (cases "NEWLINE \<in> set b")
    case False
    then have "strchr (rd b) NEWLINE = Some None"
      using strchr_from_rd [of b "[]" NEWLINE] "1.prems" by (simp add: strchr_def)
    then have "grep_scan pattern b w = Ok b w" by (simp add: grep_scan.simps returnk_def)
    then show ?thesis using False "1.prems" by (simp add: full_lines_simp last_part_simp matching_def)
  next
    case True
    then obtain l c where b: "b = l @ NEWLINE # c" "NEWLINE \<notin> set l" by (rule split_newline)
    have s: "strchr (rd b) NEWLINE = Some (Some (length l))"
      using strchr_from_rd [of b "[]" NEWLINE] "1.prems" True b by (simp add: strchr_def)
    let ?m = "whenk (match pattern l) (thenk (ucall (Uwrite 1 (l @ [NEWLINE]))) (returnk ()))"
    have scan: "grep_scan pattern b = thenk ?m (grep_scan pattern c)"
      by (subst grep_scan.simps) (simp only: s option.case, simp add: b(1))
    let ?out = "if match pattern l then l @ [NEWLINE] else []"
    have "prints fd cs 1 ?out ?m"
      by (simp add: whenk_def prints_write prints_return)
    then obtain w1 where w1: "?m w = Ok () w1" "reading fd cs k w1"
        "\<forall>g. written g (trace w1) = written g (trace w) @ (if g = 1 then ?out else [])"
      using "1.prems"(2) unfolding prints_def by blast
    have "length c < length b" "0 \<notin> set c" using b "1.prems" by auto
    then obtain w2 where w2: "grep_scan pattern c w1 = Ok (last_part c) w2" "reading fd cs k w2"
        "\<forall>g. written g (trace w2) = written g (trace w1) @ (if g = 1 then matching pattern (full_lines c) else [])"
      using "1.IH" w1(2) by blast
    have "grep_scan pattern b w = Ok (last_part b) w2"
      unfolding scan using w1(1) w2(1) by (simp add: b(1) last_part_simp)
    then show ?thesis
      using w1 w2 b by (intro exI [of _ w2]) (simp add: full_lines_simp matching_def)
  qed
qed

lemma grep_loop_prints:
  assumes "reading fd cs k w" and "length cs - k < fuel" and "k \<le> length cs" and "0 \<notin> set b"
    and "\<forall>c \<in> set cs. NEWLINE \<in> set c \<and> 0 \<notin> set c" and "NEWLINE \<notin> set b"
    and "fits b (drop k cs)"
  shows "\<exists>w'. grep_loop fuel pattern fd b w = Ok () w' \<and>
    written 1 (trace w') = written 1 (trace w) @ matching pattern (full_lines (b @ concat (drop k cs)))"
  using assms
proof (induction fuel arbitrary: k w b)
  case 0
  then show ?case by simp
next
  case (Suc fuel)
  have "rv (chunk_reply cs k) \<le> 1024 - int (length b) - 1"
    using Suc.prems(7) by (cases "k < length cs") (auto simp: chunk_reply_def simp flip: Cons_nth_drop_Suc)
  then obtain w1 where w1: "usys (Uread fd (1024 - int (length b) - 1)) w = Ok (chunk_reply cs k) w1"
      "reading fd cs (Suc k) w1" "\<forall>f. written f (trace w1) = written f (trace w)"
    using read_step [OF Suc.prems(1)] by blast
  show ?case
  proof (cases "k < length cs")
    case False
    then show ?thesis
      using w1 Suc.prems by (simp add: chunk_reply_def kop_defs full_lines_simp matching_def)
  next
    case True
    let ?c = "cs ! k"
    have c: "NEWLINE \<in> set ?c" "0 \<notin> set (b @ ?c)" using True Suc.prems by auto
    obtain w2 where w2: "grep_scan pattern (b @ ?c) w1 = Ok (last_part (b @ ?c)) w2" "reading fd cs (Suc k) w2"
        "\<forall>g. written g (trace w2) = written g (trace w1) @ (if g = 1 then matching pattern (full_lines (b @ ?c)) else [])"
      using grep_scan_prints [OF c(2) w1(2)] by blast
    have lp: "NEWLINE \<notin> set (last_part (b @ ?c))" "length (last_part (b @ ?c)) \<noteq> length (b @ ?c)" "0 \<notin> set (last_part (b @ ?c))"
      using last_part_simp(3-5) [of "b @ ?c"] c by auto
    have "length cs - Suc k < fuel" "Suc k \<le> length cs" "fits (last_part (b @ ?c)) (drop (Suc k) cs)"
      using Suc.prems True by (auto simp flip: Cons_nth_drop_Suc)
    then obtain w3 where w3: "grep_loop fuel pattern fd (last_part (b @ ?c)) w2 = Ok () w3"
        "written 1 (trace w3) = written 1 (trace w2) @ matching pattern (full_lines (last_part (b @ ?c) @ concat (drop (Suc k) cs)))"
      using Suc.IH [OF w2(2) _ _ lp(3) Suc.prems(5) lp(1)] by blast
    have "concat (drop k cs) = ?c @ concat (drop (Suc k) cs)" using True by (simp flip: Cons_nth_drop_Suc)
    then have "full_lines (b @ concat (drop k cs)) =
        full_lines (b @ ?c) @ full_lines (last_part (b @ ?c) @ concat (drop (Suc k) cs))"
      using full_lines_append [of "b @ ?c" "concat (drop (Suc k) cs)"] by simp
    moreover have "rv (chunk_reply cs k) > 0" "rbytes (chunk_reply cs k) = ?c"
      using True c(1) by (auto simp: chunk_reply_def length_pos_if_in_set)
    ultimately show ?thesis
      using w1 w2 w3 lp(2) by (intro exI [of _ w3]) (simp add: matching_def Let_def)
  qed
qed

text \<open>
  A line that arrives in two reads, the first without a newline, is lost: the buffer is emptied
  when it holds no newline.
\<close>

lemma grep_drops_partial_line:
  "written 1 (trace (final (grep 9 (str ''a'') 3 (sample_world 3 [[97, 98], [99, 10]])))) = []"
  by code_simp

section \<open>Properties\<close>

text \<open>
  C33: the matcher of \<open>grep\<close> decides the language of its pattern. A pattern that begins with a
  caret matches a text of which a prefix is in the language, any other pattern a text that has a
  part in the language; when the pattern ends in a dollar sign the part reaches the end
  of the text. The recursion of \<open>matchhere\<close>, \<open>matchstar\<close> and the loop of \<open>match\<close> always return.
\<close>

theorem match_language:
  "match re tx \<longleftrightarrow>
     (if re \<noteq> [] \<and> hd re = CARET
      then \<exists>u v. tx = u @ v \<and> u \<in> lang (items (tl re)) \<and> (anchored (tl re) \<longrightarrow> v = [])
      else \<exists>w u v. tx = w @ u @ v \<and> u \<in> lang (items re) \<and> (anchored re \<longrightarrow> v = []))"
  unfolding match_def match_from_iff matchhere_iff here_spec_def by auto

theorem match_language_witness:
  "match (str ''^ab*c'') (str ''abbcd'') \<and> \<not> match (str ''b$'') (str ''ba'')"
proof
  have "str ''abbc'' \<in> lang (items (str ''ab*c''))"
    by (auto simp: str_def atom_of_def sym_def intro!: exI [of _ "[98, 98]"])
  then show "match (str ''^ab*c'') (str ''abbcd'')"
    unfolding match_language [of "str ''^ab*c''" "str ''abbcd''"]
    by (intro iffD2 [OF if_P] exI [of _ "str ''abbc''"] exI [of _ "str ''d''"]) (simp_all add: str_def)
  show "\<not> match (str ''b$'') (str ''ba'')"
    unfolding match_language [of "str ''b$''" "str ''ba''"]
    by (auto simp: str_def atom_of_def sym_def append_eq_Cons_conv)
qed

text \<open>
  C34: \<open>grep\<close> prints the matching lines. When the reads of the descriptor return the file piece by
  piece, each piece with a newline in it, none with a NUL and all within the buffer, the program ends and has
  written exactly the lines of the file that match, in order and each with its newline, also
  where a line is split between two reads.
\<close>

theorem grep_prints_matching_lines:
  assumes "serves fd cs w" and "reads_of fd (trace w) = 0" and "length cs < fuel"
    and "fits [] cs" and "\<forall>c \<in> set cs. NEWLINE \<in> set c \<and> 0 \<notin> set c"
  shows "\<exists>w'. grep fuel pattern fd w = Ok () w' \<and>
    written 1 (trace w') = written 1 (trace w) @ matching pattern (full_lines (concat cs))"
  using grep_loop_prints [of fd cs 0 w fuel "[]" pattern] assms by (simp add: reading_def grep_def)

theorem grep_prints_matching_lines_witness:
  "\<exists>w'. grep 9 (str ''^b'') 3 (sample_world 3 [[97, 98, 10, 98], [99, 10, 98, 10]]) = Ok () w' \<and>
     written 1 (trace w') = [98, 99, 10, 98, 10]"
proof -
  have f: "full_lines [97, 98, 10, 98, 99, 10, 98, 10] = [[97, 98], [98, 99], [98]]"
    using full_lines_simp(1) [of "[97, 98]" "[98, 99, 10, 98, 10]"] full_lines_simp(1) [of "[98, 99]" "[98, 10]"]
      full_lines_simp(1) [of "[98]" "[]"] full_lines_simp(2) [of "[]"] by simp
  show ?thesis
    using grep_prints_matching_lines [of 3 "[[97, 98, 10, 98], [99, 10, 98, 10]]" "sample_world 3 [[97, 98, 10, 98], [99, 10, 98, 10]]" 9 "str ''^b''"]
      sample_world_reading [of 3 "[[97, 98, 10, 98], [99, 10, 98, 10]]"]
    by (simp add: reading_def f matching_def match_def str_def sample_world_def last_part_def)
qed

end
