(* ===== verification/Uprogs.thy ===== *)
theory Uprogs
  imports Ulib
begin

text \<open>
  The small user programs: \<open>cat.c\<close>, \<open>wc.c\<close>, \<open>echo.c\<close>, \<open>kill.c\<close>, \<open>ln.c\<close>, \<open>mkdir.c\<close>,
  \<open>rm.c\<close>, \<open>ls.c\<close>, \<open>init.c\<close>, \<open>zombie.c\<close>, \<open>forktest.c\<close> and \<open>stressfs.c\<close>. A program takes the list
  of its arguments, the name first. Fuel bounds the rounds of a loop that only the answers of
  the kernel end.
\<close>

section \<open>cat\<close>

primrec cat_loop :: "nat \<Rightarrow> int \<Rightarrow> ('a uworld_scheme, unit) kop" where
  "cat_loop 0 fd = stopk Diverge"
| "cat_loop (Suc k) fd =
     bindk (usys (Uread fd 512)) (\<lambda>r.
     if rv r > 0 then
       bindk (ucall (Uwrite 1 (rbytes r))) (\<lambda>m.
       if m \<noteq> rv r then thenk (printf 1 ''cat: write error\<newline>'' []) uexit
       else cat_loop k fd)
     else if rv r < 0 then thenk (printf 1 ''cat: read error\<newline>'' []) uexit
     else returnk ())"

definition cat_file :: "nat \<Rightarrow> uchar list \<Rightarrow> ('a uworld_scheme, unit) kop" where
  "cat_file k name =
     bindk (ucall (Uopen name O_RDONLY)) (\<lambda>fd.
     if fd < 0 then thenk (printf 1 ''cat: cannot open %s\<newline>'' [UStr (Some name)]) uexit
     else
     thenk (cat_loop k fd) (
     thenk (ucall (Uclose fd)) (
     returnk ())))"

definition cat_main :: "nat \<Rightarrow> uchar list list \<Rightarrow> ('a uworld_scheme, unit) kop" where
  "cat_main k argv =
     (if length argv \<le> 1 then thenk (cat_loop k 0) uexit
      else thenk (foreachk (drop 1 argv) (cat_file k)) uexit)"

section \<open>wc\<close>

record wc_counts =
  wc_l :: uint
  wc_w :: uint
  wc_c :: uint
  inword :: bool

definition wc_byte :: "uchar \<Rightarrow> wc_counts \<Rightarrow> wc_counts" where
  "wc_byte b x =
     (let x = x\<lparr>wc_c := wc_c x + 1\<rparr>;
          x = (if b = 10 then x\<lparr>wc_l := wc_l x + 1\<rparr> else x)
      in if strchr_in [32, 13, 9, 10, 11] b then x\<lparr>inword := False\<rparr>
         else if \<not> inword x then x\<lparr>wc_w := wc_w x + 1, inword := True\<rparr>
         else x)"

primrec wc_loop :: "nat \<Rightarrow> int \<Rightarrow> wc_counts \<Rightarrow> ('a uworld_scheme, int \<times> wc_counts) kop" where
  "wc_loop 0 fd x = stopk Diverge"
| "wc_loop (Suc k) fd x =
     bindk (usys (Uread fd 512)) (\<lambda>r.
     if rv r > 0 then wc_loop k fd (fold wc_byte (rbytes r) x)
     else returnk (rv r, x))"

definition wc :: "nat \<Rightarrow> int \<Rightarrow> uchar list \<Rightarrow> ('a uworld_scheme, unit) kop" where
  "wc k fd name =
     bindk (wc_loop k fd \<lparr>wc_l = 0, wc_w = 0, wc_c = 0, inword = False\<rparr>) (\<lambda>(n, x).
     if n < 0 then thenk (printf 1 ''wc: read error\<newline>'' []) uexit
     else printf 1 ''%d %d %d %s\<newline>'' [UInt (wc_l x), UInt (wc_w x), UInt (wc_c x), UStr (Some name)])"

definition wc_file :: "nat \<Rightarrow> uchar list \<Rightarrow> ('a uworld_scheme, unit) kop" where
  "wc_file k name =
     bindk (ucall (Uopen name O_RDONLY)) (\<lambda>fd.
     if fd < 0 then thenk (printf 1 ''wc: cannot open %s\<newline>'' [UStr (Some name)]) uexit
     else
     thenk (wc k fd name) (
     thenk (ucall (Uclose fd)) (
     returnk ())))"

definition wc_main :: "nat \<Rightarrow> uchar list list \<Rightarrow> ('a uworld_scheme, unit) kop" where
  "wc_main k argv =
     (if length argv \<le> 1 then thenk (wc k 0 []) uexit
      else thenk (foreachk (drop 1 argv) (wc_file k)) uexit)"

section \<open>echo, kill, ln, mkdir, rm\<close>

definition echo_main :: "uchar list list \<Rightarrow> ('a uworld_scheme, unit) kop" where
  "echo_main argv =
     thenk (foreachk [1..<length argv] (\<lambda>i.
       printf 1 ''%s%s'' [UStr (Some (argv ! i)),
         UStr (Some (if i + 1 < length argv then str '' '' else str ''\<newline>''))]))
     uexit"

definition kill_main :: "uchar list list \<Rightarrow> ('a uworld_scheme, unit) kop" where
  "kill_main argv =
     (if length argv < 2 then thenk (printf 2 ''usage: kill pid...\<newline>'' []) uexit
      else
      thenk (foreachk (drop 1 argv) (\<lambda>arg.
        case atoi (rd arg) of
          None \<Rightarrow> stopk Diverge
        | Some pid \<Rightarrow> thenk (ucall (Ukill pid)) (returnk ())))
      uexit)"

definition ln_main :: "uchar list list \<Rightarrow> ('a uworld_scheme, unit) kop" where
  "ln_main argv =
     (if length argv \<noteq> 3 then thenk (printf 2 ''Usage: ln old new\<newline>'' []) uexit
      else
      bindk (ucall (Ulink (argv ! 1) (argv ! 2))) (\<lambda>r.
      thenk (whenk (r < 0)
        (printf 2 ''link %s %s: failed\<newline>'' [UStr (Some (argv ! 1)), UStr (Some (argv ! 2))]))
      uexit))"

text \<open>The loops of \<open>mkdir\<close> and \<open>rm\<close> end at the first failure.\<close>

primrec mkdir_loop :: "uchar list list \<Rightarrow> ('a uworld_scheme, unit) kop" where
  "mkdir_loop [] = returnk ()"
| "mkdir_loop (arg # args) =
     bindk (ucall (Umkdir arg)) (\<lambda>r.
     if r < 0 then printf 2 ''mkdir: %s failed to create\<newline>'' [UStr (Some arg)]
     else mkdir_loop args)"

definition mkdir_main :: "uchar list list \<Rightarrow> ('a uworld_scheme, unit) kop" where
  "mkdir_main argv =
     (if length argv < 2 then thenk (printf 2 ''Usage: mkdir files...\<newline>'' []) uexit
      else thenk (mkdir_loop (drop 1 argv)) uexit)"

primrec rm_loop :: "uchar list list \<Rightarrow> ('a uworld_scheme, unit) kop" where
  "rm_loop [] = returnk ()"
| "rm_loop (arg # args) =
     bindk (ucall (Uunlink arg)) (\<lambda>r.
     if r < 0 then printf 2 ''rm: %s failed to delete\<newline>'' [UStr (Some arg)]
     else rm_loop args)"

definition rm_main :: "uchar list list \<Rightarrow> ('a uworld_scheme, unit) kop" where
  "rm_main argv =
     (if length argv < 2 then thenk (printf 2 ''Usage: rm files...\<newline>'' []) uexit
      else thenk (rm_loop (drop 1 argv)) uexit)"

section \<open>ls\<close>

text \<open>
  The result of \<open>fmtname\<close>, the string at the pointer it returns, without a terminator of its own
  for the padded name: the 14 bytes of the static buffer, whose 15th byte is never written and
  so is the NUL.
\<close>

definition fmtname :: "uchar list \<Rightarrow> uchar list" where
  "fmtname path =
     (let p = rev (takeWhile (\<lambda>c. c \<noteq> 47) (rev path)) in
      if length p \<ge> 14 then p else p @ replicate (14 - length p) 32)"

definition ls_print :: "uchar list \<Rightarrow> int list \<Rightarrow> ('a uworld_scheme, unit) kop" where
  "ls_print path st =
     printf 1 ''%s %d %d %d\<newline>'' [UStr (Some (fmtname path)), UInt (of_int (st ! 0)),
       UInt (of_int (st ! 1)), UInt (of_int (st ! 2))]"

primrec ls_dir :: "nat \<Rightarrow> int \<Rightarrow> uchar list \<Rightarrow> ('a uworld_scheme, unit) kop" where
  "ls_dir 0 fd buf = stopk Diverge"
| "ls_dir (Suc k) fd buf =
     bindk (usys (Uread fd 16)) (\<lambda>r.
     if rv r \<noteq> 16 then returnk ()
     else if un16 (rbytes r ! 0) (rbytes r ! 1) = 0 then ls_dir k fd buf
     else
     (let path = buf @ takeWhile (\<lambda>c. c \<noteq> 0) (take 14 (drop 2 (rbytes r))) in
     bindk (ustat path) (\<lambda>(x, st).
     thenk (if x < 0 then printf 1 ''ls: cannot stat %s\<newline>'' [UStr (Some path)]
            else ls_print path st) (
     ls_dir k fd buf))))"

definition ls :: "nat \<Rightarrow> uchar list \<Rightarrow> ('a uworld_scheme, unit) kop" where
  "ls k path =
     bindk (ucall (Uopen path O_RDONLY)) (\<lambda>fd.
     if fd < 0 then printf 2 ''ls: cannot open %s\<newline>'' [UStr (Some path)]
     else
     bindk (usys (Ufstat fd)) (\<lambda>r.
     if rv r < 0 then
       thenk (printf 2 ''ls: cannot stat %s\<newline>'' [UStr (Some path)]) (
       thenk (ucall (Uclose fd)) (
       returnk ()))
     else
     thenk (if rnums r ! 0 = 2 then ls_print path (rnums r)
            else if rnums r ! 0 = 1 then
              (if length path + 1 + 14 + 1 > 512 then printf 1 ''ls: path too long\<newline>'' []
               else ls_dir k fd (path @ [47]))
            else returnk ()) (
     thenk (ucall (Uclose fd)) (
     returnk ()))))"

definition ls_main :: "nat \<Rightarrow> uchar list list \<Rightarrow> ('a uworld_scheme, unit) kop" where
  "ls_main k argv =
     (if length argv < 2 then thenk (ls k (str ''.'')) uexit
      else thenk (foreachk (drop 1 argv) (ls k)) uexit)"

section \<open>init, zombie\<close>

primrec init_wait :: "nat \<Rightarrow> int \<Rightarrow> ('a uworld_scheme, unit) kop" where
  "init_wait 0 pid = stopk Diverge"
| "init_wait (Suc k) pid =
     bindk (ucall Uwait) (\<lambda>wpid.
     if wpid \<ge> 0 \<and> wpid \<noteq> pid then
       thenk (printf 1 ''zombie!\<newline>'' []) (init_wait k pid)
     else returnk ())"

primrec init_loop :: "nat \<Rightarrow> ('a uworld_scheme, unit) kop" where
  "init_loop 0 = stopk Diverge"
| "init_loop (Suc k) =
     thenk (printf 1 ''init: starting sh\<newline>'' []) (
     bindk (ucall Ufork) (\<lambda>pid.
     if pid < 0 then thenk (printf 1 ''init: fork failed\<newline>'' []) uexit
     else if pid = 0 then
       thenk (ucall (Uexec (str ''sh'') [str ''sh''])) (
       thenk (printf 1 ''init: exec sh failed\<newline>'' []) uexit)
     else thenk (init_wait k pid) (init_loop k)))"

definition init_main :: "nat \<Rightarrow> ('a uworld_scheme, unit) kop" where
  "init_main k =
     bindk (ucall (Uopen (str ''console'') O_RDWR)) (\<lambda>fd.
     thenk (whenk (fd < 0) (
       thenk (ucall (Umknod (str ''console'') 1 1)) (
       thenk (ucall (Uopen (str ''console'') O_RDWR)) (
       returnk ())))) (
     thenk (ucall (Udup 0)) (
     thenk (ucall (Udup 0)) (
     init_loop k))))"

definition zombie_main :: "('a uworld_scheme, unit) kop" where
  "zombie_main =
     bindk (ucall Ufork) (\<lambda>pid.
     thenk (whenk (pid > 0) (thenk (ucall (Usleep 5)) (returnk ()))) uexit)"

section \<open>forktest, stressfs\<close>

text \<open>\<open>forktest\<close> has a \<open>printf\<close> of its own that writes the format string as it is.\<close>

definition ft_printf :: "int \<Rightarrow> string \<Rightarrow> ('a uworld_scheme, unit) kop" where
  "ft_printf fd s = thenk (ucall (Uwrite fd (str s))) (returnk ())"

text \<open>The number of successful forks, at most \<open>k\<close>; a child exits.\<close>

primrec forktest_forks :: "nat \<Rightarrow> ('a uworld_scheme, nat) kop" where
  "forktest_forks 0 = returnk 0"
| "forktest_forks (Suc k) =
     bindk (ucall Ufork) (\<lambda>pid.
     if pid < 0 then returnk 0
     else if pid = 0 then uexit
     else bindk (forktest_forks k) (\<lambda>n. returnk (Suc n)))"

primrec forktest_waits :: "nat \<Rightarrow> ('a uworld_scheme, unit) kop" where
  "forktest_waits 0 = returnk ()"
| "forktest_waits (Suc n) =
     bindk (ucall Uwait) (\<lambda>r.
     if r < 0 then thenk (ft_printf 1 ''wait stopped early\<newline>'') uexit
     else forktest_waits n)"

definition forktest :: "('a uworld_scheme, unit) kop" where
  "forktest =
     thenk (ft_printf 1 ''fork test\<newline>'') (
     bindk (forktest_forks 1000) (\<lambda>n.
     if n = 1000 then thenk (ft_printf 1 ''fork claimed to work N times!\<newline>'') uexit
     else
     thenk (forktest_waits n) (
     bindk (ucall Uwait) (\<lambda>r.
     if r \<noteq> -1 then thenk (ft_printf 1 ''wait got too many\<newline>'') uexit
     else ft_printf 1 ''fork test OK\<newline>''))))"

definition forktest_main :: "('a uworld_scheme, unit) kop" where
  "forktest_main = thenk forktest uexit"

primrec stressfs_forks :: "nat \<Rightarrow> nat \<Rightarrow> ('a uworld_scheme, nat) kop" where
  "stressfs_forks 0 i = returnk i"
| "stressfs_forks (Suc k) i =
     bindk (ucall Ufork) (\<lambda>pid.
     if pid > 0 then returnk i else stressfs_forks k (Suc i))"

definition stressfs_main :: "('a uworld_scheme, unit) kop" where
  "stressfs_main =
     thenk (printf 1 ''stressfs starting\<newline>'' []) (
     bindk (stressfs_forks 4 0) (\<lambda>i.
     thenk (printf 1 ''write %d\<newline>'' [UInt (of_nat i)]) (
     (let path = (str ''stressfs0'')[8 := 48 + of_nat i] in
     bindk (ucall (Uopen path (O_CREATE + O_RDWR))) (\<lambda>fd.
     thenk (foreachk [0..<20] (\<lambda>j. thenk (ucall (Uwrite fd (replicate 512 97))) (returnk ()))) (
     thenk (ucall (Uclose fd)) (
     thenk (printf 1 ''read\<newline>'' []) (
     bindk (ucall (Uopen path O_RDONLY)) (\<lambda>fd.
     thenk (foreachk [0..<20] (\<lambda>j. thenk (usys (Uread fd 512)) (returnk ()))) (
     thenk (ucall (Uclose fd)) (
     thenk (ucall Uwait)
     uexit)))))))))))"

section \<open>What wc counts\<close>

text \<open>A word begins at a byte that is not white space and follows the start or white space.\<close>

definition space :: "uchar \<Rightarrow> bool" where
  "space b \<longleftrightarrow> b \<in> {32, 13, 9, 10, 11}"

definition word_starts :: "uchar list \<Rightarrow> nat set" where
  "word_starts bs = {i. i < length bs \<and> \<not> space (bs ! i) \<and> (i = 0 \<or> space (bs ! (i - 1)))}"

definition counts_of :: "uchar list \<Rightarrow> wc_counts" where
  "counts_of bs = \<lparr>wc_l = of_nat (count_list bs 10), wc_w = of_nat (card (word_starts bs)),
     wc_c = of_nat (length bs), inword = (bs \<noteq> [] \<and> \<not> space (last bs))\<rparr>"

lemma word_starts_snoc:
  "word_starts (bs @ [b]) =
     (if \<not> space b \<and> (bs = [] \<or> space (last bs)) then insert (length bs) (word_starts bs) else word_starts bs)"
  by (cases "bs = []") (auto simp: word_starts_def nth_append last_conv_nth less_Suc_eq split: if_splits)

lemma finite_word_starts [simp]: "finite (word_starts bs)" "length bs \<notin> word_starts bs"
  by (simp_all add: word_starts_def)

lemma wc_byte_space: "strchr_in [32, 13, 9, 10, 11] b \<longleftrightarrow> space b"
  by (subst strchr_in_iff) (auto simp: space_def)

lemma fold_wc_byte: "fold wc_byte bs (counts_of []) = counts_of bs"
proof (induction bs rule: rev_induct)
  case (snoc b bs)
  then show ?case
    by (auto simp: counts_of_def wc_byte_def wc_byte_space Let_def word_starts_snoc space_def)
qed simp

lemma wc_loop_counts:
  assumes "reading fd cs k w" and "length cs - k < fuel" and "k \<le> length cs"
    and "\<forall>c \<in> set cs. c \<noteq> [] \<and> length c \<le> 512"
  shows "\<exists>w'. wc_loop fuel fd x w = Ok (0, fold wc_byte (concat (drop k cs)) x) w' \<and>
    reading fd cs (Suc (length cs)) w' \<and> (\<forall>g. written g (trace w') = written g (trace w))"
  using assms
proof (induction fuel arbitrary: k w x)
  case (Suc fuel)
  have "\<forall>i < length cs. length (cs ! i) \<le> 512" using Suc.prems(4) by simp
  then have "rv (chunk_reply cs k) \<le> 512" by (simp add: chunk_reply_def)
  then obtain w1 where w1: "usys (Uread fd 512) w = Ok (chunk_reply cs k) w1"
      "reading fd cs (Suc k) w1" "\<forall>f. written f (trace w1) = written f (trace w)"
    using read_step [OF Suc.prems(1)] by blast
  show ?case
  proof (cases "k < length cs")
    case False
    then show ?thesis using w1 Suc.prems by (simp add: chunk_reply_def kop_defs)
  next
    case True
    then have "0 < length (cs ! k)" using Suc.prems(4) by (simp add: nth_mem)
    then have "wc_loop (Suc fuel) fd x w = wc_loop fuel fd (fold wc_byte (cs ! k) x) w1"
      using w1(1) True by (simp add: chunk_reply_def)
    moreover have "concat (drop k cs) = cs ! k @ concat (drop (Suc k) cs)" using True by (simp flip: Cons_nth_drop_Suc)
    ultimately show ?thesis
      using Suc.IH [OF w1(2), of "fold wc_byte (cs ! k) x"] Suc.prems True w1(3) by auto
  qed
qed simp

definition wc_line :: "wc_counts \<Rightarrow> uchar list \<Rightarrow> uchar list" where
  "wc_line x name = uprintint_chars (wc_l x) 10 True @ [32] @ uprintint_chars (wc_w x) 10 True @ [32] @
     uprintint_chars (wc_c x) 10 True @ [32] @ name @ [10]"

lemma prints_wc_line:
  "prints fd cs 1 (wc_line x name)
     (printf 1 ''%d %d %d %s\<newline>'' [UInt (wc_l x), UInt (wc_w x), UInt (wc_c x), UStr (Some name)])"
proof -
  have "prints fd cs 1 (uprintint_chars (wc_l x) 10 True @ [32] @ uprintint_chars (wc_w x) 10 True @ [32] @
     uprintint_chars (wc_c x) 10 True @ [32] @ name @ [10] @ [])
     (printf 1 ''%d %d %d %s\<newline>'' [UInt (wc_l x), UInt (wc_w x), UInt (wc_c x), UStr (Some name)])"
    unfolding printf_def str_def by (simp del: append_Cons append_Nil append_Nil2 append_assoc) (intro prints_rules)
  then show ?thesis by (simp add: wc_line_def)
qed

section \<open>Properties\<close>

text \<open>
  C36: \<open>wc\<close> counts lines, words and bytes. However the kernel cuts the file into
  non-empty pieces of at most 512 bytes, the program ends and prints the number of newlines, of word beginnings and of
  bytes of the whole file, in decimal, and the name.
\<close>

theorem wc_counts_file:
  assumes "serves fd cs w" and "reads_of fd (trace w) = 0" and "length cs < fuel"
    and "\<forall>c \<in> set cs. c \<noteq> [] \<and> length c \<le> 512"
  shows "\<exists>w'. wc fuel fd name w = Ok () w' \<and>
    written 1 (trace w') = written 1 (trace w) @ wc_line (counts_of (concat cs)) name"
proof -
  have "reading fd cs 0 w" using assms by (simp add: reading_def)
  then obtain w1 where w1: "wc_loop fuel fd (counts_of []) w = Ok (0, counts_of (concat cs)) w1"
      "reading fd cs (Suc (length cs)) w1" "\<forall>g. written g (trace w1) = written g (trace w)"
    using wc_loop_counts [of fd cs 0 w fuel "counts_of []"] assms by (auto simp: fold_wc_byte)
  moreover have "counts_of [] = \<lparr>wc_l = 0, wc_w = 0, wc_c = 0, inword = False\<rparr>"
    by (simp add: counts_of_def word_starts_def)
  moreover obtain w2 where "printf 1 ''%d %d %d %s\<newline>'' [UInt (wc_l (counts_of (concat cs))), UInt (wc_w (counts_of (concat cs))),
        UInt (wc_c (counts_of (concat cs))), UStr (Some name)] w1 = Ok () w2"
      "written 1 (trace w2) = written 1 (trace w1) @ wc_line (counts_of (concat cs)) name"
    using prints_wc_line w1(2) unfolding prints_def by fastforce
  ultimately show ?thesis by (simp add: wc_def)
qed

theorem wc_counts_file_witness:
  "\<exists>w'. wc 9 3 [120] (sample_world 3 [[97, 98, 32], [99, 10, 100]]) = Ok () w' \<and>
     written 1 (trace w') = [49, 32, 51, 32, 54, 32, 120, 10]"
proof -
  let ?cs = "[[97, 98, 32], [99, 10, 100]] :: uchar list list"
  have "counts_of (concat ?cs) = fold wc_byte (concat ?cs) (counts_of [])" by (rule fold_wc_byte [symmetric])
  then have "counts_of (concat ?cs) = \<lparr>wc_l = 1, wc_w = 3, wc_c = 6, inword = True\<rparr>"
    by (simp add: wc_byte_def wc_byte_space space_def Let_def) (simp add: counts_of_def word_starts_def)
  then have "wc_line (counts_of (concat ?cs)) [120] = [49, 32, 51, 32, 54, 32, 120, 10]"
    by (simp add: wc_line_def uprintint_chars_def udigit_def str_digits)
  then show ?thesis
    using wc_counts_file [of 3 ?cs "sample_world 3 ?cs" 9 "[120]"] sample_world_reading [of 3 ?cs]
    by (simp add: reading_def sample_world_def)
qed

end
