(* ===== verification/Sh.thy ===== *)
theory Sh
  imports Ulib
begin

text \<open>
  The shell (\<open>src/sh.c\<close>): the parser, the interpreter of parsed commands and the main loop. The
  parser works on positions in the line buffer, as the code works on pointers into it; \<open>rd b s\<close>
  is the byte at position \<open>s\<close>, 0 from the end on. The nodes of a command are built by
  constructors that stand for \<open>execcmd\<close>, \<open>redircmd\<close>, \<open>pipecmd\<close>, \<open>listcmd\<close> and \<open>backcmd\<close>;
  their memory is assumed to be available. \<open>fork\<close> returns in both processes, so the answer of
  the world says which of them the run follows.
\<close>

section \<open>Commands\<close>

text \<open>
  An argument is the pair of its \<open>argv\<close> and \<open>eargv\<close> positions; a redirection has file, end of file
  name, mode and descriptor.
\<close>

datatype cmd =
    EXEC "(nat \<times> nat) list"
  | REDIR cmd nat nat int int
  | PIPE cmd cmd
  | LIST cmd cmd
  | BACK cmd

abbreviation (input) MAXARGS :: nat where "MAXARGS \<equiv> 10"

definition sh_panic :: "string \<Rightarrow> ('a uworld_scheme, 'b) kop" where
  "sh_panic s = thenk (printf 2 ''%s\<newline>'' [UStr (Some (str s))]) uexit"

definition fork1 :: "('a uworld_scheme, int) kop" where
  "fork1 =
     bindk (ucall Ufork) (\<lambda>pid.
     if pid = -1 then sh_panic ''fork'' else returnk pid)"

section \<open>Tokens\<close>

definition whitespace :: "uchar list" where
  "whitespace = [32, 9, 13, 10, 11]"

definition symbols :: "uchar list" where
  "symbols = str ''<|>&;()''"

function skip_ws :: "uchar list \<Rightarrow> nat \<Rightarrow> nat \<Rightarrow> nat" where
  "skip_ws b es s =
     (if s < es \<and> strchr_in whitespace (rd b s) then skip_ws b es (Suc s) else s)"
  by pat_completeness auto
termination by (relation "measure (\<lambda>(b, es, s). es - s)") auto

function skip_word :: "uchar list \<Rightarrow> nat \<Rightarrow> nat \<Rightarrow> nat" where
  "skip_word b es s =
     (if s < es \<and> \<not> strchr_in whitespace (rd b s) \<and> \<not> strchr_in symbols (rd b s)
      then skip_word b es (Suc s) else s)"
  by pat_completeness auto
termination by (relation "measure (\<lambda>(b, es, s). es - s)") auto

text \<open>The token, its first and end position, and the position after it and white space.\<close>

definition gettoken :: "uchar list \<Rightarrow> nat \<Rightarrow> nat \<Rightarrow> uchar \<times> nat \<times> nat \<times> nat" where
  "gettoken b es s =
     (let q = skip_ws b es s;
          c = rd b q;
          (ret, eq) =
            (if c = 0 then (0, q)
             else if c = 124 \<or> c = 40 \<or> c = 41 \<or> c = 59 \<or> c = 38 \<or> c = 60 then (c, q + 1)
             else if c = 62 then (if rd b (q + 1) = 62 then (43, q + 2) else (62, q + 1))
             else (97, skip_word b es q))
      in (ret, q, eq, skip_ws b es eq))"

definition peek :: "uchar list \<Rightarrow> nat \<Rightarrow> nat \<Rightarrow> string \<Rightarrow> nat \<times> bool" where
  "peek b es s toks =
     (let s = skip_ws b es s in (s, rd b s \<noteq> 0 \<and> strchr_in (str toks) (rd b s)))"

section \<open>The parser\<close>

text \<open>
  Every call and every round of a loop that makes another one uses up a byte of the line
  after a bounded number of steps; the fuel \<open>4 * strlen + 8\<close> of \<open>parsecmd\<close> is never used up.
\<close>

primrec parseredirs ::
  "nat \<Rightarrow> uchar list \<Rightarrow> nat \<Rightarrow> cmd \<Rightarrow> nat \<Rightarrow> ('a uworld_scheme, cmd \<times> nat) kop" where
  "parseredirs 0 b es c s = stopk Diverge"
| "parseredirs (Suc k) b es c s =
     (let (s, p) = peek b es s ''<>'' in
      if \<not> p then returnk (c, s)
      else
      (let (tok, _, _, s) = gettoken b es s;
           (tok2, q, eq, s) = gettoken b es s
       in if tok2 \<noteq> 97 then sh_panic ''missing file for redirection''
          else if tok = 60 then parseredirs k b es (REDIR c q eq O_RDONLY 0) s
          else parseredirs k b es (REDIR c q eq (O_WRONLY + O_CREATE) 1) s))"

text \<open>
  \<open>parseexec\<close> keeps a pointer to the \<open>execcmd\<close> at the bottom of the redirections and stores the
  arguments through it.
\<close>

primrec set_exec :: "(nat \<times> nat) list \<Rightarrow> cmd \<Rightarrow> cmd" where
  "set_exec a (EXEC a') = EXEC a"
| "set_exec a (REDIR c q eq m fd) = REDIR (set_exec a c) q eq m fd"
| "set_exec a (PIPE c d) = PIPE c d"
| "set_exec a (LIST c d) = LIST c d"
| "set_exec a (BACK c) = BACK c"

primrec parseexec_loop ::
  "nat \<Rightarrow> uchar list \<Rightarrow> nat \<Rightarrow> (nat \<times> nat) list \<Rightarrow> cmd \<Rightarrow> nat \<Rightarrow> ('a uworld_scheme, cmd \<times> nat) kop" where
  "parseexec_loop 0 b es argv ret s = stopk Diverge"
| "parseexec_loop (Suc k) b es argv ret s =
     (let (s, p) = peek b es s ''|)&;'' in
      if p then returnk (set_exec argv ret, s)
      else
      (let (tok, q, eq, s) = gettoken b es s in
       if tok = 0 then returnk (set_exec argv ret, s)
       else if tok \<noteq> 97 then sh_panic ''syntax''
       else
       (let argv = argv @ [(q, eq)] in
        if length argv \<ge> MAXARGS then sh_panic ''too many args''
        else
        bindk (parseredirs k b es ret s) (\<lambda>(ret, s).
        parseexec_loop k b es argv ret s))))"

text \<open>\<open>parseblock\<close> calls \<open>parseline\<close>; the call is the argument \<open>pl\<close>.\<close>

definition parseblock ::
  "nat \<Rightarrow> (nat \<Rightarrow> ('a uworld_scheme, cmd \<times> nat) kop) \<Rightarrow> uchar list \<Rightarrow> nat \<Rightarrow> nat \<Rightarrow>
   ('a uworld_scheme, cmd \<times> nat) kop" where
  "parseblock k pl b es s =
     (let (s, p) = peek b es s ''('' in
      if \<not> p then sh_panic ''parseblock''
      else
      (let (_, _, _, s) = gettoken b es s in
      bindk (pl s) (\<lambda>(c, s).
      (let (s, p) = peek b es s '')'' in
       if \<not> p then sh_panic ''syntax - missing )''
       else
       (let (_, _, _, s) = gettoken b es s in
       parseredirs k b es c s)))))"

definition parseexec ::
  "nat \<Rightarrow> (nat \<Rightarrow> ('a uworld_scheme, cmd \<times> nat) kop) \<Rightarrow> uchar list \<Rightarrow> nat \<Rightarrow> nat \<Rightarrow>
   ('a uworld_scheme, cmd \<times> nat) kop" where
  "parseexec k pl b es s =
     (let (s, p) = peek b es s ''('' in
      if p then parseblock k pl b es s
      else
      bindk (parseredirs k b es (EXEC []) s) (\<lambda>(ret, s).
      parseexec_loop k b es [] ret s))"

primrec parsepipe ::
  "nat \<Rightarrow> (nat \<Rightarrow> ('a uworld_scheme, cmd \<times> nat) kop) \<Rightarrow> uchar list \<Rightarrow> nat \<Rightarrow> nat \<Rightarrow>
   ('a uworld_scheme, cmd \<times> nat) kop" where
  "parsepipe 0 pl b es s = stopk Diverge"
| "parsepipe (Suc k) pl b es s =
     bindk (parseexec k pl b es s) (\<lambda>(c, s).
     (let (s, p) = peek b es s ''|'' in
      if \<not> p then returnk (c, s)
      else
      (let (_, _, _, s) = gettoken b es s in
      bindk (parsepipe k pl b es s) (\<lambda>(d, s).
      returnk (PIPE c d, s)))))"

primrec parsebacks ::
  "nat \<Rightarrow> uchar list \<Rightarrow> nat \<Rightarrow> cmd \<Rightarrow> nat \<Rightarrow> ('a uworld_scheme, cmd \<times> nat) kop" where
  "parsebacks 0 b es c s = stopk Diverge"
| "parsebacks (Suc k) b es c s =
     (let (s, p) = peek b es s ''&'' in
      if \<not> p then returnk (c, s)
      else
      (let (_, _, _, s) = gettoken b es s in
      parsebacks k b es (BACK c) s))"

primrec parseline :: "nat \<Rightarrow> uchar list \<Rightarrow> nat \<Rightarrow> nat \<Rightarrow> ('a uworld_scheme, cmd \<times> nat) kop" where
  "parseline 0 b es s = stopk Diverge"
| "parseline (Suc k) b es s =
     bindk (parsepipe k (parseline k b es) b es s) (\<lambda>(c, s).
     bindk (parsebacks k b es c s) (\<lambda>(c, s).
     (let (s, p) = peek b es s '';'' in
      if \<not> p then returnk (c, s)
      else
      (let (_, _, _, s) = gettoken b es s in
      bindk (parseline k b es s) (\<lambda>(d, s).
      returnk (LIST c d, s))))))"

text \<open>The buffer with the strings of a command terminated; its last byte is the NUL of the line.\<close>

primrec nulterminate :: "cmd \<Rightarrow> uchar list \<Rightarrow> uchar list" where
  "nulterminate (EXEC argv) b = fold (\<lambda>(q, eq) b. b[eq := 0]) argv b"
| "nulterminate (REDIR c q eq m fd) b = (nulterminate c b)[eq := 0]"
| "nulterminate (PIPE c d) b = nulterminate d (nulterminate c b)"
| "nulterminate (LIST c d) b = nulterminate d (nulterminate c b)"
| "nulterminate (BACK c) b = nulterminate c b"

text \<open>\<open>line\<close> is the string in the buffer. The result is the command and the buffer.\<close>

definition parsecmd :: "uchar list \<Rightarrow> ('a uworld_scheme, cmd \<times> uchar list) kop" where
  "parsecmd line =
     (let es = length line in
     bindk (parseline (4 * es + 8) line es 0) (\<lambda>(c, s).
     (let (s, p) = peek line es s '''' in
      if s \<noteq> es then
        thenk (printf 2 ''leftovers: %s\<newline>'' [UStr (Some (drop s line))]) (sh_panic ''syntax'')
      else returnk (c, nulterminate c (line @ [0])))))"

section \<open>Running commands\<close>

definition cstr_at :: "uchar list \<Rightarrow> nat \<Rightarrow> uchar list" where
  "cstr_at b q = takeWhile (\<lambda>c. c \<noteq> 0) (drop q b)"

text \<open>\<open>pipe_end\<close>: the calls of a child that puts the descriptor \<open>p\<close> of the pipe in place of \<open>fd\<close>.\<close>

definition pipe_end :: "int \<Rightarrow> int \<Rightarrow> int \<Rightarrow> int \<Rightarrow> ('a uworld_scheme, unit) kop" where
  "pipe_end fd p p0 p1 =
     thenk (ucall (Uclose fd)) (
     thenk (ucall (Udup p)) (
     thenk (ucall (Uclose p0)) (
     thenk (ucall (Uclose p1)) (
     returnk ()))))"

primrec runcmd :: "uchar list \<Rightarrow> cmd \<Rightarrow> ('a uworld_scheme, unit) kop" where
  "runcmd b (EXEC argv) =
     (case argv of
        [] \<Rightarrow> uexit
      | (q, eq) # _ \<Rightarrow>
          thenk (ucall (Uexec (cstr_at b q) (map (\<lambda>(q, eq). cstr_at b q) argv))) (
          thenk (printf 2 ''exec %s failed\<newline>'' [UStr (Some (cstr_at b q))])
          uexit))"
| "runcmd b (REDIR c q eq m fd) =
     thenk (ucall (Uclose fd)) (
     bindk (ucall (Uopen (cstr_at b q) m)) (\<lambda>r.
     if r < 0 then thenk (printf 2 ''open %s failed\<newline>'' [UStr (Some (cstr_at b q))]) uexit
     else
     thenk (runcmd b c)
     uexit))"
| "runcmd b (LIST c d) =
     bindk fork1 (\<lambda>pid.
     thenk (whenk (pid = 0) (runcmd b c)) (
     thenk (ucall Uwait) (
     thenk (runcmd b d)
     uexit)))"
| "runcmd b (PIPE c d) =
     bindk (usys Upipe) (\<lambda>r.
     if rv r < 0 then sh_panic ''pipe''
     else
     (let p0 = rnums r ! 0; p1 = rnums r ! 1 in
     bindk fork1 (\<lambda>pid.
     thenk (whenk (pid = 0) (thenk (pipe_end 1 p1 p0 p1) (runcmd b c))) (
     bindk fork1 (\<lambda>pid.
     thenk (whenk (pid = 0) (thenk (pipe_end 0 p0 p0 p1) (runcmd b d))) (
     thenk (ucall (Uclose p0)) (
     thenk (ucall (Uclose p1)) (
     thenk (ucall Uwait) (
     thenk (ucall Uwait)
     uexit)))))))))"
| "runcmd b (BACK c) =
     bindk fork1 (\<lambda>pid.
     thenk (whenk (pid = 0) (runcmd b c))
     uexit)"

section \<open>The main loop\<close>

text \<open>The line read, up to its first NUL; \<open>None\<close> at the end of the input.\<close>

definition getcmd :: "('a uworld_scheme, uchar list option) kop" where
  "getcmd =
     thenk (printf 2 ''$ '' []) (
     bindk (gets 100) (\<lambda>buf.
     (let line = takeWhile (\<lambda>c. c \<noteq> 0) buf in
      returnk (if line = [] then None else Some line))))"

primrec sh_open :: "nat \<Rightarrow> ('a uworld_scheme, unit) kop" where
  "sh_open 0 = stopk Diverge"
| "sh_open (Suc k) =
     bindk (ucall (Uopen (str ''console'') O_RDWR)) (\<lambda>fd.
     if fd < 0 then returnk ()
     else if fd \<ge> 3 then thenk (ucall (Uclose fd)) (returnk ())
     else sh_open k)"

primrec sh_loop :: "nat \<Rightarrow> ('a uworld_scheme, unit) kop" where
  "sh_loop 0 = stopk Diverge"
| "sh_loop (Suc k) =
     bindk getcmd (\<lambda>l.
     case l of
       None \<Rightarrow> returnk ()
     | Some line \<Rightarrow>
         if take 3 line = str ''cd '' then
           (let dir = drop 3 (butlast line) in
           bindk (ucall (Uchdir dir)) (\<lambda>r.
           thenk (whenk (r < 0) (printf 2 ''cannot cd %s\<newline>'' [UStr (Some dir)])) (
           sh_loop k)))
         else
           bindk fork1 (\<lambda>pid.
           thenk (whenk (pid = 0) (
             bindk (parsecmd line) (\<lambda>(c, b). runcmd b c))) (
           thenk (ucall Uwait) (
           sh_loop k))))"

definition sh_main :: "nat \<Rightarrow> ('a uworld_scheme, unit) kop" where
  "sh_main k = thenk (sh_open k) (thenk (sh_loop k) uexit)"

end
