(* ===== verification/ShParse.thy ===== *)
theory ShParse
  imports Sh
begin

text \<open>
  The parser of the shell reads every command back from its printed form. An abstract command is
  printed with as few parentheses as the precedences of \<open>parseline\<close>, \<open>parsepipe\<close> and \<open>parseexec\<close>
  allow. The proof goes level by level: each parsing function, at a position from which the
  rest of the line is a printed command and a suitable terminator, returns a command whose
  tokens are the words and stops at the terminator.
\<close>

section \<open>Abstract commands\<close>

datatype scmd =
    SExec "uchar list list"
  | SRedir scmd "uchar list" int int
  | SPipe scmd scmd
  | SList scmd scmd
  | SBack scmd

definition wordc :: "uchar \<Rightarrow> bool" where
  "wordc c \<longleftrightarrow> c \<noteq> 0 \<and> c \<notin> set whitespace \<and> c \<notin> set symbols"

definition word :: "uchar list \<Rightarrow> bool" where
  "word w \<longleftrightarrow> w \<noteq> [] \<and> (\<forall>c \<in> set w. wordc c)"

primrec wf_cmd :: "scmd \<Rightarrow> bool" where
  "wf_cmd (SExec ws) \<longleftrightarrow> length ws < MAXARGS \<and> (\<forall>w \<in> set ws. word w)"
| "wf_cmd (SRedir c f m fd) \<longleftrightarrow> wf_cmd c \<and> word f \<and> (m = O_RDONLY \<and> fd = 0 \<or> m = O_WRONLY + O_CREATE \<and> fd = 1)"
| "wf_cmd (SPipe c d) \<longleftrightarrow> wf_cmd c \<and> wf_cmd d"
| "wf_cmd (SList c d) \<longleftrightarrow> wf_cmd c \<and> wf_cmd d"
| "wf_cmd (SBack c) \<longleftrightarrow> wf_cmd c"

definition paren :: "bool \<Rightarrow> uchar list \<Rightarrow> uchar list" where
  "paren p s = (if p then 40 # s @ [41] else s)"

fun join :: "uchar list list \<Rightarrow> uchar list" where
  "join [] = []"
| "join [w] = w"
| "join (w # ws) = w @ 32 # join ws"

definition redir_sym :: "int \<Rightarrow> uchar" where
  "redir_sym fd = (if fd = 0 then 60 else 62)"

primrec pr :: "scmd \<Rightarrow> nat \<Rightarrow> uchar list" where
  "pr (SExec ws) p = join ws"
| "pr (SRedir c f m fd) p = pr c 3 @ redir_sym fd # f"
| "pr (SPipe c d) p = paren (p > 2) (pr c 3 @ 124 # pr d 2)"
| "pr (SBack c) p = paren (p > 1) (pr c 1 @ [38])"
| "pr (SList c d) p = paren (p > 0) (pr c 1 @ 59 # pr d 0)"

definition print_cmd :: "scmd \<Rightarrow> uchar list" where
  "print_cmd c = pr c 0"

section \<open>The view of a parsed command\<close>

primrec view :: "(nat \<Rightarrow> nat \<Rightarrow> uchar list) \<Rightarrow> cmd \<Rightarrow> scmd" where
  "view g (EXEC argv) = SExec (map (\<lambda>(q, eq). g q eq) argv)"
| "view g (REDIR c q eq m fd) = SRedir (view g c) (g q eq) m fd"
| "view g (PIPE c d) = SPipe (view g c) (view g d)"
| "view g (LIST c d) = SList (view g c) (view g d)"
| "view g (BACK c) = SBack (view g c)"

primrec tokens :: "cmd \<Rightarrow> (nat \<times> nat) list" where
  "tokens (EXEC argv) = argv"
| "tokens (REDIR c q eq m fd) = tokens c @ [(q, eq)]"
| "tokens (PIPE c d) = tokens c @ tokens d"
| "tokens (LIST c d) = tokens c @ tokens d"
| "tokens (BACK c) = tokens c"

definition slice :: "uchar list \<Rightarrow> nat \<Rightarrow> nat \<Rightarrow> uchar list" where
  "slice b q eq = take (eq - q) (drop q b)"

definition tok_ok :: "uchar list \<Rightarrow> nat \<times> nat \<Rightarrow> bool" where
  "tok_ok b t \<longleftrightarrow> (case t of (q, eq) \<Rightarrow> q \<le> eq \<and> eq \<le> length b \<and>
     (\<forall>c \<in> set (slice b q eq). wordc c) \<and> \<not> wordc (rd b eq))"

definition rep :: "uchar list \<Rightarrow> cmd \<Rightarrow> scmd \<Rightarrow> bool" where
  "rep b c x \<longleftrightarrow> view (slice b) c = x \<and> (\<forall>t \<in> set (tokens c). tok_ok b t)"

section \<open>Suffixes of the line\<close>

lemma symbols_eq: "symbols = [60, 124, 62, 38, 59, 40, 41]"
  by (simp add: symbols_def str_def)

lemma strchr_ws [simp]: "strchr_in whitespace c \<longleftrightarrow> c \<in> set whitespace"
  and strchr_sym [simp]: "strchr_in symbols c \<longleftrightarrow> c \<in> set symbols"
  by (simp_all add: strchr_in_iff whitespace_def symbols_eq)

definition suf :: "uchar list \<Rightarrow> nat \<Rightarrow> uchar list \<Rightarrow> bool" where
  "suf b s xs \<longleftrightarrow> s \<le> length b \<and> drop s b = xs"

definition nows :: "uchar list \<Rightarrow> bool" where
  "nows xs \<longleftrightarrow> xs = [] \<or> hd xs \<notin> set whitespace"

lemma suf_Nil: "suf b s [] \<longleftrightarrow> s = length b"
  by (auto simp: suf_def)

lemma suf_Cons: "suf b s (x # xs) \<Longrightarrow> s < length b \<and> rd b s = x \<and> suf b (Suc s) xs"
  unfolding suf_def by (metis Suc_leI drop_Suc drop_eq_Nil leI list.discI list.sel(3) nth_via_drop rd_def tl_drop)

lemma suf_append:
  assumes "suf b s (xs @ ys)"
  shows "suf b (s + length xs) ys"
proof -
  have d: "drop s b = xs @ ys" and s: "s \<le> length b" using assms by (simp_all add: suf_def)
  have "length b - s = length xs + length ys" using arg_cong [OF d, of length] by simp
  moreover have "drop (s + length xs) b = ys" using d by (metis add.commute append_eq_conv_conj drop_drop)
  ultimately show ?thesis using s by (simp add: suf_def)
qed

lemma rd_len: "rd b (length b) = 0"
  by (simp add: rd_def)

lemma suf_hd: "suf b s xs \<Longrightarrow> rd b s = (if xs = [] then 0 else hd xs)"
  by (cases xs) (auto simp: suf_Nil rd_len dest: suf_Cons)

declare skip_ws.simps [simp del] skip_word.simps [simp del]

lemma skip_ws_suf:
  "suf b s xs \<Longrightarrow> skip_ws b (length b) s = s + length (takeWhile (\<lambda>c. c \<in> set whitespace) xs)"
proof (induction xs arbitrary: s)
  case Nil
  then show ?case by (subst skip_ws.simps) (simp add: suf_Nil)
next
  case (Cons x xs)
  then show ?case using suf_Cons [OF Cons.prems] by (subst skip_ws.simps) simp
qed

lemma skip_word_suf:
  "suf b s xs \<Longrightarrow> skip_word b (length b) s =
     s + length (takeWhile (\<lambda>c. c \<notin> set whitespace \<and> c \<notin> set symbols) xs)"
proof (induction xs arbitrary: s)
  case Nil
  then show ?case by (subst skip_word.simps) (simp add: suf_Nil)
next
  case (Cons x xs)
  then show ?case using suf_Cons [OF Cons.prems] by (subst skip_word.simps) simp
qed

lemma skip_ws_nows: "suf b s xs \<Longrightarrow> nows xs \<Longrightarrow> skip_ws b (length b) s = s"
  by (cases xs) (simp_all add: skip_ws_suf nows_def)

lemma peek_suf:
  "suf b s xs \<Longrightarrow> nows xs \<Longrightarrow> 0 \<notin> set (str toks) \<Longrightarrow>
   peek b (length b) s toks = (s, xs \<noteq> [] \<and> hd xs \<noteq> 0 \<and> hd xs \<in> set (str toks))"
  by (simp add: peek_def skip_ws_nows suf_hd strchr_in_iff)

lemma gettoken_end: "suf b s [] \<Longrightarrow> gettoken b (length b) s = (0, s, s, s)"
  by (simp add: gettoken_def skip_ws_nows nows_def suf_hd)

lemma gettoken_sym:
  assumes "suf b s (c # xs)" and "c \<in> set symbols" and "c = 62 \<Longrightarrow> xs = [] \<or> hd xs \<noteq> 62" and "nows xs"
  shows "gettoken b (length b) s = (c, s, Suc s, Suc s)" and "suf b (Suc s) xs"
proof -
  have c: "nows (c # xs)" using assms(2) by (auto simp: nows_def symbols_eq whitespace_def)
  show s: "suf b (Suc s) xs" using suf_Cons [OF assms(1)] by simp
  have n: "rd b (Suc s) \<noteq> 62" if "c = 62" using suf_hd [OF s] assms(3) that by auto
  show "gettoken b (length b) s = (c, s, Suc s, Suc s)"
    using assms(2) n suf_hd [OF assms(1)] skip_ws_nows [OF assms(1) c] skip_ws_nows [OF s assms(4)]
    by (auto simp: gettoken_def symbols_eq)
qed

lemma gettoken_word:
  assumes "suf b s (w @ xs)" and "word w" and "xs = [] \<or> \<not> wordc (hd xs)" and "0 \<notin> set xs"
  shows "gettoken b (length b) s = (97, s, s + length w, s + length w + length (takeWhile (\<lambda>c. c \<in> set whitespace) xs))"
    and "suf b (s + length w + length (takeWhile (\<lambda>c. c \<in> set whitespace) xs)) (dropWhile (\<lambda>c. c \<in> set whitespace) xs)"
    and "tok_ok b (s, s + length w)" and "slice b s (s + length w) = w"
proof -
  obtain c w' where w: "w = c # w'" "wordc c" using assms(2) by (cases w) (auto simp: word_def)
  have n: "nows (w @ xs)" using w by (simp add: nows_def wordc_def)
  have s: "suf b (s + length w) xs" using suf_append [OF assms(1)] .
  have r: "rd b s = c" using suf_hd [OF assms(1)] w by simp
  have t: "takeWhile (\<lambda>c. c \<notin> set whitespace \<and> c \<notin> set symbols) (w @ xs) = w"
    using assms(2,3,4) by (cases xs) (auto simp: takeWhile_append word_def wordc_def)
  have "c \<noteq> 0" "c \<notin> set symbols" using w(2) by (simp_all add: wordc_def)
  then show "gettoken b (length b) s = (97, s, s + length w, s + length w + length (takeWhile (\<lambda>c. c \<in> set whitespace) xs))"
    using r skip_ws_nows [OF assms(1) n] skip_word_suf [OF assms(1)] skip_ws_suf [OF s]
    unfolding t by (auto simp: gettoken_def symbols_eq Let_def)
  show "suf b (s + length w + length (takeWhile (\<lambda>c. c \<in> set whitespace) xs)) (dropWhile (\<lambda>c. c \<in> set whitespace) xs)"
    using suf_append [of b "s + length w" "takeWhile (\<lambda>c. c \<in> set whitespace) xs"] s by simp
  show sl: "slice b s (s + length w) = w" using assms(1) by (simp add: slice_def suf_def)
  have "\<not> wordc (rd b (s + length w))" using suf_hd [OF s] assms(3) by (auto simp: wordc_def)
  then show "tok_ok b (s, s + length w)"
    using sl s assms(2) by (simp add: tok_ok_def word_def suf_def)
qed

section \<open>Redirections\<close>

type_synonym redir = "uchar list \<times> int \<times> int"

definition redirs_str :: "redir list \<Rightarrow> uchar list" where
  "redirs_str rs = concat (map (\<lambda>(f, m, fd). redir_sym fd # f) rs)"

definition redir_ok :: "redir \<Rightarrow> bool" where
  "redir_ok r \<longleftrightarrow> (case r of (f, m, fd) \<Rightarrow> word f \<and> (m = O_RDONLY \<and> fd = 0 \<or> m = O_WRONLY + O_CREATE \<and> fd = 1))"

definition add_redirs :: "cmd \<Rightarrow> (nat \<times> nat \<times> int \<times> int) list \<Rightarrow> cmd" where
  "add_redirs c ts = foldl (\<lambda>c (q, eq, m, fd). REDIR c q eq m fd) c ts"

definition add_sredirs :: "scmd \<Rightarrow> redir list \<Rightarrow> scmd" where
  "add_sredirs x rs = foldl (\<lambda>x (f, m, fd). SRedir x f m fd) x rs"

definition redir_rep :: "uchar list \<Rightarrow> nat \<times> nat \<times> int \<times> int \<Rightarrow> redir \<Rightarrow> bool" where
  "redir_rep b t r \<longleftrightarrow> (case t of (q, eq, m, fd) \<Rightarrow> tok_ok b (q, eq) \<and> r = (slice b q eq, m, fd))"

definition stops :: "uchar set \<Rightarrow> uchar list \<Rightarrow> bool" where
  "stops T xs \<longleftrightarrow> xs = [] \<or> hd xs \<in> T"

lemma str_toks [simp]:
  "str ''<>'' = [60, 62]" "str ''|)&;'' = [124, 41, 38, 59]" "str ''('' = [40]" "str '')'' = [41]"
  "str ''|'' = [124]" "str ''&'' = [38]" "str '';'' = [59]" "str '''' = []"
  by (simp_all add: str_def)

lemma not_wordc [simp]:
  "\<not> wordc 0" "\<not> wordc 60" "\<not> wordc 124" "\<not> wordc 62" "\<not> wordc 38" "\<not> wordc 59" "\<not> wordc 40" "\<not> wordc 41" "\<not> wordc 32"
  by (simp_all add: wordc_def symbols_eq whitespace_def)

lemma not_ws [simp]:
  "60 \<notin> set whitespace" "124 \<notin> set whitespace" "62 \<notin> set whitespace" "38 \<notin> set whitespace" "59 \<notin> set whitespace"
  "40 \<notin> set whitespace" "41 \<notin> set whitespace" "32 \<in> set whitespace"
  by (simp_all add: whitespace_def)

lemma wordc_ws: "wordc c \<Longrightarrow> c \<notin> set whitespace \<and> c \<noteq> 0 \<and> c \<notin> set symbols"
  by (simp add: wordc_def)

lemma nows_simps [simp]: "nows []" "nows (x # xs) \<longleftrightarrow> x \<notin> set whitespace"
  by (simp_all add: nows_def)

lemma stops_nows: "stops {124, 38, 59, 41} xs \<Longrightarrow> nows xs \<and> (xs = [] \<or> \<not> wordc (hd xs))"
  by (cases xs) (auto simp: stops_def)

lemma word_nows: "word w \<Longrightarrow> nows (w @ xs)"
  by (cases w) (auto simp: word_def dest: wordc_ws)

lemma suf_set: "suf b s xs \<Longrightarrow> 0 \<notin> set b \<Longrightarrow> 0 \<notin> set xs"
  unfolding suf_def using set_drop_subset [of s b] by auto

lemma redirs_start:
  "stops {124, 38, 59, 41} xs \<Longrightarrow> nows (redirs_str rs @ xs) \<and> (redirs_str rs @ xs = [] \<or> \<not> wordc (hd (redirs_str rs @ xs)))"
  by (cases rs) (auto simp: redirs_str_def redir_sym_def dest: stops_nows split: if_splits)

lemma redirs_str_Cons: "redirs_str ((f, m, fd) # rs) = redir_sym fd # f @ redirs_str rs"
  by (simp add: redirs_str_def)

lemma dropWhile_nows: "nows xs \<Longrightarrow> takeWhile (\<lambda>c. c \<in> set whitespace) xs = [] \<and> dropWhile (\<lambda>c. c \<in> set whitespace) xs = xs"
  by (cases xs) auto

lemma parseredirs_ok:
  assumes "0 \<notin> set b" and "suf b s (redirs_str rs @ xs)" and "stops {124, 38, 59, 41} xs"
    and "\<forall>r \<in> set rs. redir_ok r" and "length b - s + 1 \<le> k"
  shows "\<exists>ts s'. (\<forall>c. parseredirs k b (length b) c s w = Ok (add_redirs c ts, s') w) \<and> suf b s' xs \<and> s \<le> s' \<and>
    list_all2 (redir_rep b) ts rs"
  using assms(2,4,5)
proof (induction rs arbitrary: s k)
  case Nil
  obtain j where "k = Suc j" using Nil.prems(3) by (cases k) auto
  moreover have "nows xs" using stops_nows [OF assms(3)] by simp
  ultimately show ?case
    using Nil.prems(1) assms(3) peek_suf [of b s xs "''<>''"]
    by (intro exI [of _ "[]"] exI [of _ s]) (auto simp: redirs_str_def returnk_def add_redirs_def stops_def)
next
  case (Cons r rs)
  obtain f m fd where r: "r = (f, m, fd)" by (cases r)
  obtain j where k: "k = Suc j" using Cons.prems(3) by (cases k) auto
  have f: "word f" using Cons.prems(2) r by (simp add: redir_ok_def)
  have mf: "m = 0 \<and> fd = 0 \<or> m = 0x201 \<and> fd = 1" using Cons.prems(2) r by (auto simp: redir_ok_def)
  let ?y = "redirs_str rs @ xs"
  have y: "nows ?y" "?y = [] \<or> \<not> wordc (hd ?y)" using redirs_start [OF assms(3)] by auto
  have s: "suf b s (redir_sym fd # f @ ?y)" using Cons.prems(1) r by (simp add: redirs_str_Cons)
  have p: "peek b (length b) s ''<>'' = (s, True)"
    using peek_suf [OF s, of "''<>''"] mf by (auto simp: redir_sym_def)
  have fne: "f \<noteq> []" "wordc (hd f)" using f by (cases f; simp add: word_def)+
  then have "hd f \<noteq> 62" by auto
  have g: "gettoken b (length b) s = (redir_sym fd, s, Suc s, Suc s)" "suf b (Suc s) (f @ ?y)"
    using gettoken_sym [OF s] mf word_nows [OF f, of ?y] fne(1) \<open>hd f \<noteq> 62\<close> by (auto simp: redir_sym_def symbols_eq)
  note t = gettoken_word [OF g(2) f y(2) suf_set [OF suf_append [OF g(2)] assms(1)], unfolded dropWhile_nows [OF y(1), THEN conjunct1] dropWhile_nows [OF y(1), THEN conjunct2]]
  let ?s = "Suc s + length f"
  have "s < length b" by (rule suf_Cons [OF s, THEN conjunct1])
  then have "length b - ?s + 1 \<le> j" using Cons.prems(3) k by linarith
  then obtain ts s' where ts: "\<forall>c. parseredirs j b (length b) c ?s w = Ok (add_redirs c ts, s') w" "suf b s' xs" "?s \<le> s'"
      "list_all2 (redir_rep b) ts rs"
    using Cons.IH [of ?s j] t(2) Cons.prems(2) by (auto simp: suf_append)
  have "parseredirs k b (length b) c s w = Ok (add_redirs c ((Suc s, ?s, m, fd) # ts), s') w" for c
    using mf ts(1) unfolding k by (auto simp: p g t(1) add_redirs_def redir_sym_def)
  moreover have "redir_rep b (Suc s, ?s, m, fd) r" using t(3,4) r by (simp add: redir_rep_def)
  ultimately show ?case
    using ts by (intro exI [of _ "(Suc s, ?s, m, fd) # ts"] exI [of _ s']) auto
qed

lemma set_exec_redirs: "set_exec a (add_redirs c ts) = add_redirs (set_exec a c) ts"
  by (induction ts arbitrary: c) (auto simp: add_redirs_def)

lemma rep_redirs:
  assumes "rep b c x" and "list_all2 (redir_rep b) ts rs"
  shows "rep b (add_redirs c ts) (add_sredirs x rs)"
  using assms(2,1)
proof (induction arbitrary: c x rule: list_all2_induct)
  case (Cons t ts r rs)
  obtain q eq m fd where "t = (q, eq, m, fd)" by (cases t)
  then have t: "t = (q, eq, m, fd)" "tok_ok b (q, eq)" "r = (slice b q eq, m, fd)"
    using Cons.hyps(1) by (auto simp: redir_rep_def)
  then have "rep b (REDIR c q eq m fd) (SRedir x (slice b q eq) m fd)"
    using Cons.prems by (auto simp: rep_def)
  from Cons.IH [OF this] show ?case unfolding t by (simp add: add_redirs_def add_sredirs_def)
qed (simp add: add_redirs_def add_sredirs_def)

section \<open>Words\<close>

lemma join_Cons: "join (w # ws) = w @ (if ws = [] then [] else 32 # join ws)"
  by (cases ws) auto

lemma parse_words:
  assumes b: "0 \<notin> set b" and "suf b s (join ws @ redirs_str rs @ xs)" and xs: "stops {124, 38, 59, 41} xs"
    and rs: "\<forall>r \<in> set rs. redir_ok r" and "length b - s + 1 \<le> k" and "\<forall>w \<in> set ws. word w" and "length argv + length ws < MAXARGS"
    and "length b - s + 1 \<le> k'"
  shows "\<exists>as ts s'. bindk (parseredirs k b (length b) (EXEC []) s) (\<lambda>(r, s). parseexec_loop k' b (length b) argv r s) w =
      Ok (add_redirs (EXEC (argv @ as)) ts, s') w \<and> suf b s' xs \<and> list_all2 (redir_rep b) ts rs \<and>
      map (\<lambda>(q, eq). slice b q eq) as = ws \<and> (\<forall>t \<in> set as. tok_ok b t)"
  using assms(2,5-)
proof (induction ws arbitrary: s k k' argv)
  case Nil
  obtain ts s' where ts: "\<forall>c. parseredirs k b (length b) c s w = Ok (add_redirs c ts, s') w" "suf b s' xs" "s \<le> s'" "list_all2 (redir_rep b) ts rs"
    using parseredirs_ok [OF b _ xs rs, of s k w] Nil.prems by auto
  obtain j where j: "k' = Suc j" using Nil.prems(5) by (cases k') auto
  have n: "nows xs" using stops_nows [OF xs] by simp
  have "parseexec_loop k' b (length b) argv (add_redirs (EXEC []) ts) s' w = Ok (add_redirs (EXEC argv) ts, s') w"
  proof (cases "xs = []")
    case True
    then show ?thesis
      using peek_suf [OF ts(2) n, of "''|)&;''"] gettoken_end ts(2) by (simp add: j returnk_def set_exec_redirs)
  next
    case False
    then have "hd xs \<in> {124, 38, 59, 41}" using xs by (simp add: stops_def)
    then show ?thesis
      using peek_suf [OF ts(2) n, of "''|)&;''"] False by (auto simp: j returnk_def set_exec_redirs)
  qed
  then show ?case using ts by (intro exI [of _ "[]"] exI [of _ ts] exI [of _ s']) simp
next
  case (Cons v vs)
  obtain i j where ij: "k = Suc i" "k' = Suc j" using Cons.prems(2,5) by (cases k; cases k') auto
  let ?z = "redirs_str rs @ xs"
  let ?y = "if vs = [] then ?z else 32 # join vs @ ?z"
  have s: "suf b s (v @ ?y)" using Cons.prems(1) by (simp add: join_Cons split: if_splits)
  have v: "word v" using Cons.prems(3) by simp
  have vh: "v \<noteq> []" "wordc (hd v)" using v by (cases v; simp add: word_def)+
  have y: "?y = [] \<or> \<not> wordc (hd ?y)" using redirs_start [OF xs] by auto
  have n: "nows (v @ ?y)" by (rule word_nows [OF v])
  have hd: "hd (v @ ?y) = hd v" using vh by simp
  have notin: "hd v \<notin> {60, 62}" "hd v \<notin> {124, 41, 38, 59}" using wordc_ws [OF vh(2)] by (auto simp: symbols_eq)
  have p1: "peek b (length b) s ''<>'' = (s, False)" and p2: "peek b (length b) s ''|)&;'' = (s, False)"
    using peek_suf [OF s n, of "''<>''"] peek_suf [OF s n, of "''|)&;''"] notin unfolding hd by auto
  note t = gettoken_word [OF s v y suf_set [OF suf_append [OF s] b]]
  define s1 where "s1 = s + length v + length (takeWhile (\<lambda>c. c \<in> set whitespace) ?y)"
  have z: "nows ?z" using redirs_start [OF xs] by auto
  have "nows (join vs @ ?z)" using Cons.prems(3) z by (cases vs) (auto simp: join_Cons intro: word_nows)
  then have d: "dropWhile (\<lambda>c. c \<in> set whitespace) ?y = join vs @ ?z"
    using dropWhile_nows [of ?z] dropWhile_nows [of "join vs @ ?z"] z by auto
  have s1: "suf b s1 (join vs @ ?z)" using t(2) unfolding d s1_def .
  have lt: "length b - s1 + 1 \<le> j" using Cons.prems(5) ij vh(1) s1 unfolding s1_def suf_def by (cases v) auto
  define a1 where "a1 = argv @ [(s, s + length v)]"
  obtain as ts s' where IH: "bindk (parseredirs j b (length b) (EXEC []) s1) (\<lambda>(r, u). parseexec_loop j b (length b) a1 r u) w =
      Ok (add_redirs (EXEC (a1 @ as)) ts, s') w" "suf b s' xs" "list_all2 (redir_rep b) ts rs"
      "map (\<lambda>(q, eq). slice b q eq) as = vs" "\<forall>t \<in> set as. tok_ok b t"
    using Cons.IH [OF s1 lt _ _ lt, of a1] Cons.prems(3,4) by (auto simp: a1_def)
  have "bindk (parseredirs k b (length b) (EXEC []) s) (\<lambda>(r, u). parseexec_loop k' b (length b) argv r u) w =
      bindk (parseredirs j b (length b) (EXEC []) s1) (\<lambda>(r, u). parseexec_loop j b (length b) a1 r u) w"
    using Cons.prems(4) unfolding ij by (simp add: p1 p2 t(1) s1_def [symmetric] a1_def Let_def)
  then show ?case
    using IH t(3,4) by (intro exI [of _ "(s, s + length v) # as"] exI [of _ ts] exI [of _ s']) (simp add: a1_def)
qed

section \<open>Levels\<close>

primrec base :: "scmd \<Rightarrow> scmd" where
  "base (SExec ws) = SExec ws"
| "base (SRedir c f m fd) = base c"
| "base (SPipe c d) = SPipe c d"
| "base (SList c d) = SList c d"
| "base (SBack c) = SBack c"

primrec reds :: "scmd \<Rightarrow> redir list" where
  "reds (SExec ws) = []"
| "reds (SRedir c f m fd) = reds c @ [(f, m, fd)]"
| "reds (SPipe c d) = []"
| "reds (SList c d) = []"
| "reds (SBack c) = []"

primrec unback :: "scmd \<Rightarrow> scmd" where
  "unback (SExec ws) = SExec ws"
| "unback (SRedir c f m fd) = SRedir c f m fd"
| "unback (SPipe c d) = SPipe c d"
| "unback (SList c d) = SList c d"
| "unback (SBack c) = unback c"

primrec nbacks :: "scmd \<Rightarrow> nat" where
  "nbacks (SExec ws) = 0"
| "nbacks (SRedir c f m fd) = 0"
| "nbacks (SPipe c d) = 0"
| "nbacks (SList c d) = 0"
| "nbacks (SBack c) = Suc (nbacks c)"

definition parses ::
  "'a uworld_scheme \<Rightarrow> uchar list \<Rightarrow> scmd \<Rightarrow> nat \<Rightarrow> uchar set \<Rightarrow> nat \<Rightarrow>
   (nat \<Rightarrow> nat \<Rightarrow> nat \<Rightarrow> ('a uworld_scheme, cmd \<times> nat) kop) \<Rightarrow> bool" where
  "parses w b c p T need F \<longleftrightarrow>
     (\<forall>s k k0 xs. suf b s (pr c p @ xs) \<longrightarrow> stops T xs \<longrightarrow> 4 * (length b - s) + need \<le> k \<longrightarrow>
        4 * (length b - s) + 2 \<le> k0 \<longrightarrow>
        (\<exists>c' s'. F k0 k s w = Ok (c', s') w \<and> suf b s' xs \<and> rep b c' c))"

definition exec_ok :: "'a uworld_scheme \<Rightarrow> uchar list \<Rightarrow> scmd \<Rightarrow> bool" where
  "exec_ok w b c \<longleftrightarrow> parses w b c 3 {124, 38, 59, 41} 1
     (\<lambda>k0 k s. parseexec k (parseline k0 b (length b)) b (length b) s)"

definition pipe_ok :: "'a uworld_scheme \<Rightarrow> uchar list \<Rightarrow> scmd \<Rightarrow> bool" where
  "pipe_ok w b c \<longleftrightarrow> parses w b c 2 {38, 59, 41} 2
     (\<lambda>k0 k s. parsepipe k (parseline k0 b (length b)) b (length b) s)"

definition line_ok :: "'a uworld_scheme \<Rightarrow> uchar list \<Rightarrow> scmd \<Rightarrow> bool" where
  "line_ok w b c \<longleftrightarrow> parses w b c 0 {41} 3 (\<lambda>k0 k s. parseline k b (length b) s)"

lemma parsesD:
  assumes "parses w b c p T need F" and "suf b s (pr c p @ xs)" and "stops T xs" and "4 * (length b - s) + need \<le> k"
    and "4 * (length b - s) + 2 \<le> k0"
  obtains c' s' where "F k0 k s w = Ok (c', s') w" and "suf b s' xs" and "rep b c' c"
  using assms unfolding parses_def by blast

lemma parsesI:
  assumes "\<And>s k k0 xs. suf b s (pr c p @ xs) \<Longrightarrow> stops T xs \<Longrightarrow> 4 * (length b - s) + need \<le> k \<Longrightarrow>
    4 * (length b - s) + 2 \<le> k0 \<Longrightarrow> \<exists>c' s'. F k0 k s w = Ok (c', s') w \<and> suf b s' xs \<and> rep b c' c"
  shows "parses w b c p T need F"
  using assms unfolding parses_def by blast

lemma suf_pos: "suf b s xs \<Longrightarrow> s + length xs = length b"
  unfolding suf_def by (metis le_add_diff_inverse length_drop)

lemma suf_le: "suf b s (ys @ xs) \<Longrightarrow> suf b s' xs \<Longrightarrow> s + length ys = s'"
  using suf_pos [of b s "ys @ xs"] suf_pos [of b s' xs] by simp

lemma stops_mono: "stops T xs \<Longrightarrow> T \<subseteq> U \<Longrightarrow> stops U xs"
  by (auto simp: stops_def)

lemma stops_Cons [simp]: "stops T (x # xs) \<longleftrightarrow> x \<in> T" "stops T []"
  by (simp_all add: stops_def)

lemma base_reds: "add_sredirs (base c) (reds c) = c" "pr c 3 = pr (base c) 3 @ redirs_str (reds c)"
  "wf_cmd c \<Longrightarrow> wf_cmd (base c)" "wf_cmd c \<Longrightarrow> \<forall>r \<in> set (reds c). redir_ok r"
  by (induction c) (auto simp: add_sredirs_def redirs_str_def redir_ok_def)


lemma exec_words:
  assumes b: "0 \<notin> set b" and base: "base c = SExec ws" and wf: "wf_cmd c"
  shows "exec_ok w b c"
  unfolding exec_ok_def
proof (rule parsesI)
  fix s k k0 xs
  assume s: "suf b s (pr c 3 @ xs)" and xs: "stops {124, 38, 59, 41} xs" and k: "4 * (length b - s) + 1 \<le> k"
  have ws: "length ws < MAXARGS" "\<forall>v \<in> set ws. word v" using base_reds(3) [OF wf] base by auto
  let ?z = "redirs_str (reds c) @ xs"
  have s': "suf b s (join ws @ ?z)" using s base_reds(2) [of c] base by simp
  have st: "nows (join ws @ ?z)" "join ws @ ?z = [] \<or> hd (join ws @ ?z) \<noteq> 40"
  proof -
    have z: "nows ?z" using redirs_start [OF xs, of "reds c"] by (rule conjunct1)
    have z': "?z = [] \<or> hd ?z \<noteq> 40"
    proof (cases "reds c")
      case Nil
      then show ?thesis using xs by (auto simp: stops_def redirs_str_def)
    next
      case (Cons r rs)
      obtain f m fd where "r = (f, m, fd)" by (cases r)
      then show ?thesis using Cons by (simp add: redirs_str_Cons redir_sym_def)
    qed
    show "nows (join ws @ ?z)" using ws(2) z by (cases ws) (auto simp: join_Cons intro: word_nows)
    show "join ws @ ?z = [] \<or> hd (join ws @ ?z) \<noteq> 40"
    proof (cases ws)
      case (Cons v vs)
      then have "wordc (hd v)" "v \<noteq> []" using ws(2) by (cases v; simp add: word_def)+
      then show ?thesis using Cons by (cases v) (auto simp: join_Cons)
    qed (use z' in simp)
  qed
  have p: "peek b (length b) s ''('' = (s, False)" using peek_suf [OF s' st(1), of "''(''"] st(2) by auto
  have kk: "length b - s + 1 \<le> k" using k by simp
  obtain as ts s1 where *: "bindk (parseredirs k b (length b) (EXEC []) s) (\<lambda>(r, s). parseexec_loop k b (length b) [] r s) w =
      Ok (add_redirs (EXEC ([] @ as)) ts, s1) w" "suf b s1 xs" "list_all2 (redir_rep b) ts (reds c)"
      "map (\<lambda>(q, eq). slice b q eq) as = ws" "\<forall>t \<in> set as. tok_ok b t"
    using parse_words [OF b s' xs base_reds(4) [OF wf] kk ws(2) _ kk, of "[]" w] ws(1) by auto
  have "rep b (EXEC as) (SExec ws)" using *(4,5) by (simp add: rep_def)
  then have "rep b (add_redirs (EXEC as) ts) c" using rep_redirs [OF _ *(3)] base_reds(1) [of c] base by metis
  then show "\<exists>c' s'. parseexec k (parseline k0 b (length b)) b (length b) s w = Ok (c', s') w \<and> suf b s' xs \<and> rep b c' c"
    using *(1,2) by (auto simp: parseexec_def p)
qed

lemma exec_block:
  assumes b: "0 \<notin> set b" and base: "pr (base c) 3 = 40 # pr (base c) 0 @ [41]" and wf: "wf_cmd c"
    and line: "line_ok w b (base c)" and n: "nows (pr (base c) 0 @ [41])"
  shows "exec_ok w b c"
  unfolding exec_ok_def
proof (rule parsesI)
  fix s k k0 xs
  assume s: "suf b s (pr c 3 @ xs)" and xs: "stops {124, 38, 59, 41} xs" and k: "4 * (length b - s) + 1 \<le> k"
    and k0: "4 * (length b - s) + 2 \<le> k0"
  let ?z = "redirs_str (reds c) @ xs"
  have s': "suf b s (40 # pr (base c) 0 @ 41 # ?z)" using s base_reds(2) [of c] base by simp
  have nn: "nows (pr (base c) 0 @ 41 # ?z)" using n by (cases "pr (base c) 0") auto
  have p: "peek b (length b) s ''('' = (s, True)" using peek_suf [OF s', of "''(''"] by auto
  have g: "gettoken b (length b) s = (40, s, Suc s, Suc s)" "suf b (Suc s) (pr (base c) 0 @ 41 # ?z)"
    using gettoken_sym [OF s' _ _ nn] by (auto simp: symbols_eq)
  have lt: "s < length b" by (rule suf_Cons [OF s', THEN conjunct1])
  have "4 * (length b - Suc s) + 3 \<le> k0" "4 * (length b - Suc s) + 2 \<le> k0" using k0 lt by linarith+
  then obtain c1 s1 where c1: "parseline k0 b (length b) (Suc s) w = Ok (c1, s1) w" "suf b s1 (41 # ?z)" "rep b c1 (base c)"
    using parsesD [OF line [unfolded line_ok_def] g(2), of k0 k0] by auto
  have z: "nows ?z" using redirs_start [OF xs] by auto
  have p1: "peek b (length b) s1 '')'' = (s1, True)" using peek_suf [OF c1(2), of "'')''"] by auto
  have g1: "gettoken b (length b) s1 = (41, s1, Suc s1, Suc s1)" "suf b (Suc s1) ?z"
    using gettoken_sym [OF c1(2) _ _ z] by (auto simp: symbols_eq)
  have "s \<le> s1" using suf_le [OF g(2) c1(2)] by simp
  then have "length b - Suc s1 + 1 \<le> k" using k lt by linarith
  then obtain ts s2 where ts: "\<forall>c. parseredirs k b (length b) c (Suc s1) w = Ok (add_redirs c ts, s2) w" "suf b s2 xs"
      "list_all2 (redir_rep b) ts (reds c)"
    using parseredirs_ok [OF b g1(2) xs base_reds(4) [OF wf], of k w] by auto
  have "rep b (add_redirs c1 ts) c" using rep_redirs [OF c1(3) ts(3)] base_reds(1) [of c] by metis
  moreover have "parseexec k (parseline k0 b (length b)) b (length b) s w = Ok (add_redirs c1 ts, s2) w"
    using c1(1) ts(1) by (simp add: parseexec_def parseblock_def p g p1 g1)
  ultimately show "\<exists>c' s'. parseexec k (parseline k0 b (length b)) b (length b) s w = Ok (c', s') w \<and> suf b s' xs \<and> rep b c' c"
    using ts(2) by auto
qed

lemma pipe_exec:
  assumes "exec_ok w b c" and "pr c 2 = pr c 3"
  shows "pipe_ok w b c"
  unfolding pipe_ok_def
proof (rule parsesI)
  fix s k k0 xs
  assume s: "suf b s (pr c 2 @ xs)" and xs: "stops {38, 59, 41} xs" and k: "4 * (length b - s) + 2 \<le> k"
    and k0: "4 * (length b - s) + 2 \<le> k0"
  obtain j where j: "k = Suc j" "4 * (length b - s) + 1 \<le> j" using k by (cases k) auto
  have xs': "stops {124, 38, 59, 41} xs" using xs by (rule stops_mono) auto
  obtain c1 s1 where c1: "parseexec j (parseline k0 b (length b)) b (length b) s w = Ok (c1, s1) w" "suf b s1 xs" "rep b c1 c"
    using parsesD [OF assms(1) [unfolded exec_ok_def] _ xs' j(2) k0] s assms(2) by metis
  have "peek b (length b) s1 ''|'' = (s1, False)"
    using peek_suf [OF c1(2), of "''|''"] stops_nows [OF xs'] xs by (auto simp: stops_def)
  then show "\<exists>c' s'. parsepipe k (parseline k0 b (length b)) b (length b) s w = Ok (c', s') w \<and> suf b s' xs \<and> rep b c' c"
    using c1 by (simp add: j(1) returnk_def)
qed

lemma pipe_pipe:
  assumes "exec_ok w b c" and "pipe_ok w b d" and n: "\<And>xs. nows xs \<Longrightarrow> nows (pr d 2 @ xs)"
  shows "pipe_ok w b (SPipe c d)"
  unfolding pipe_ok_def
proof (rule parsesI)
  fix s k k0 xs
  assume s: "suf b s (pr (SPipe c d) 2 @ xs)" and xs: "stops {38, 59, 41} xs" and k: "4 * (length b - s) + 2 \<le> k"
    and k0: "4 * (length b - s) + 2 \<le> k0"
  obtain j where j: "k = Suc j" "4 * (length b - s) + 1 \<le> j" using k by (cases k) auto
  have s': "suf b s (pr c 3 @ 124 # pr d 2 @ xs)" using s by (simp add: paren_def)
  obtain c1 s1 where c1: "parseexec j (parseline k0 b (length b)) b (length b) s w = Ok (c1, s1) w" "suf b s1 (124 # pr d 2 @ xs)" "rep b c1 c"
    using parsesD [OF assms(1) [unfolded exec_ok_def] s' _ j(2) k0] by auto
  have p: "peek b (length b) s1 ''|'' = (s1, True)" using peek_suf [OF c1(2), of "''|''"] by auto
  have "nows xs" using stops_nows [OF stops_mono [OF xs, of "{124, 38, 59, 41}"]] by auto
  then have g: "gettoken b (length b) s1 = (124, s1, Suc s1, Suc s1)" "suf b (Suc s1) (pr d 2 @ xs)"
    using gettoken_sym [OF c1(2) _ _ n] by (auto simp: symbols_eq)
  have "s \<le> s1" "s1 < length b" using suf_le [OF s' c1(2)] suf_Cons [OF c1(2)] by auto
  then have "4 * (length b - Suc s1) + 2 \<le> j" "4 * (length b - Suc s1) + 2 \<le> k0" using j k0 by linarith+
  then obtain d1 s2 where d1: "parsepipe j (parseline k0 b (length b)) b (length b) (Suc s1) w = Ok (d1, s2) w" "suf b s2 xs" "rep b d1 d"
    using parsesD [OF assms(2) [unfolded pipe_ok_def] g(2) xs] by metis
  show "\<exists>c' s'. parsepipe k (parseline k0 b (length b)) b (length b) s w = Ok (c', s') w \<and> suf b s' xs \<and> rep b c' (SPipe c d)"
    using c1 d1 by (intro exI [of _ "PIPE c1 d1"] exI [of _ s2]) (auto simp: j(1) p g(1) returnk_def rep_def)
qed

lemma pr_nows: "wf_cmd c \<Longrightarrow> nows xs \<Longrightarrow> nows (pr c p @ xs)"
proof (induction c arbitrary: p xs)
  case (SExec ws)
  then show ?case by (cases ws) (auto simp: join_Cons intro: word_nows)
qed (simp_all add: paren_def redir_sym_def)

lemma unback_pr: "pr c (Suc 0) = pr (unback c) 2 @ replicate (nbacks c) 38" "(SBack ^^ nbacks c) (unback c) = c"
  by (induction c) (simp_all add: paren_def replicate_append_same)

lemma parsebacks_ok:
  assumes "suf b s (replicate n 38 @ xs)" and xs: "stops {59, 41} xs" and "length b - s + 1 \<le> k" and "rep b c x"
  shows "\<exists>c' s'. parsebacks k b (length b) c s w = Ok (c', s') w \<and> suf b s' xs \<and> rep b c' ((SBack ^^ n) x)"
  using assms(1,3,4)
proof (induction n arbitrary: s k c x)
  case 0
  obtain j where j: "k = Suc j" using "0.prems"(2) by (cases k) auto
  have s: "suf b s xs" using "0.prems"(1) by simp
  have "nows xs" using stops_nows [OF stops_mono [OF xs, of "{124, 38, 59, 41}"]] by auto
  then have "peek b (length b) s ''&'' = (s, False)" using peek_suf [OF s, of "''&''"] xs by (auto simp: stops_def)
  then show ?case using "0.prems"(3) s by (simp add: j returnk_def)
next
  case (Suc n)
  obtain j where j: "k = Suc j" using Suc.prems(2) by (cases k) auto
  have s: "suf b s (38 # replicate n 38 @ xs)" using Suc.prems(1) by simp
  have "nows xs" using stops_nows [OF stops_mono [OF xs, of "{124, 38, 59, 41}"]] by auto
  then have n: "nows (replicate n 38 @ xs)" by (cases n) auto
  have p: "peek b (length b) s ''&'' = (s, True)" using peek_suf [OF s, of "''&''"] by auto
  have g: "gettoken b (length b) s = (38, s, Suc s, Suc s)" "suf b (Suc s) (replicate n 38 @ xs)"
    using gettoken_sym [OF s _ _ n] by (auto simp: symbols_eq)
  have "s < length b" by (rule suf_Cons [OF s, THEN conjunct1])
  then have "length b - Suc s + 1 \<le> j" using Suc.prems(2) j by linarith
  moreover have "rep b (BACK c) (SBack x)" using Suc.prems(3) by (simp add: rep_def)
  ultimately obtain c' s' where "parsebacks j b (length b) (BACK c) (Suc s) w = Ok (c', s') w" "suf b s' xs"
      "rep b c' ((SBack ^^ n) (SBack x))"
    using Suc.IH [OF g(2)] by blast
  then show ?case by (auto simp: j p g(1) funpow_swap1)
qed

lemma parse_backed:
  assumes pipe: "pipe_ok w b (unback c)" and s: "suf b s (pr c 1 @ xs)" and xs: "stops {59, 41} xs"
    and k: "4 * (length b - s) + 2 \<le> k"
  obtains c1 s1 c2 s2 where "parsepipe k (parseline k b (length b)) b (length b) s w = Ok (c1, s1) w"
    and "parsebacks k b (length b) c1 s1 w = Ok (c2, s2) w" and "suf b s2 xs" and "rep b c2 c"
proof -
  let ?y = "replicate (nbacks c) 38 @ xs"
  have s': "suf b s (pr (unback c) 2 @ ?y)" using s unback_pr(1) [of c] by simp
  have "stops {38, 59, 41} ?y" using xs by (cases "nbacks c") (auto simp: stops_def)
  then obtain c1 s1 where c1: "parsepipe k (parseline k b (length b)) b (length b) s w = Ok (c1, s1) w" "suf b s1 ?y" "rep b c1 (unback c)"
    using parsesD [OF pipe [unfolded pipe_ok_def] s' _ k k] by metis
  have "length b - s1 + 1 \<le> k" using suf_le [OF s' c1(2)] k by linarith
  from parsebacks_ok [OF c1(2) xs this c1(3), of w] show ?thesis
    using c1(1) unback_pr(2) [of c] that by metis
qed

lemma line_backed:
  assumes "pipe_ok w b (unback c)" and "pr c 0 = pr c 1"
  shows "line_ok w b c"
  unfolding line_ok_def
proof (rule parsesI)
  fix s k k0 xs
  assume s: "suf b s (pr c 0 @ xs)" and xs: "stops {41} xs" and k: "4 * (length b - s) + 3 \<le> k"
  obtain j where j: "k = Suc j" "4 * (length b - s) + 2 \<le> j" using k by (cases k) auto
  have s': "suf b s (pr c 1 @ xs)" using s assms(2) by simp
  have xs': "stops {59, 41} xs" using xs by (rule stops_mono) auto
  obtain c1 s1 c2 s2 where *: "parsepipe j (parseline j b (length b)) b (length b) s w = Ok (c1, s1) w"
      "parsebacks j b (length b) c1 s1 w = Ok (c2, s2) w" "suf b s2 xs" "rep b c2 c"
    using parse_backed [OF assms(1) s' xs' j(2)] by blast
  have "nows xs" using stops_nows [OF stops_mono [OF xs, of "{124, 38, 59, 41}"]] by auto
  then have "peek b (length b) s2 '';'' = (s2, False)" using peek_suf [OF *(3), of "'';''"] xs by (auto simp: stops_def)
  then show "\<exists>c' s'. parseline k b (length b) s w = Ok (c', s') w \<and> suf b s' xs \<and> rep b c' c"
    using * by (simp add: j(1) returnk_def)
qed

lemma line_list:
  assumes "pipe_ok w b (unback c)" and "line_ok w b d" and n: "\<And>xs. nows xs \<Longrightarrow> nows (pr d 0 @ xs)"
  shows "line_ok w b (SList c d)"
  unfolding line_ok_def
proof (rule parsesI)
  fix s k k0 xs
  assume s: "suf b s (pr (SList c d) 0 @ xs)" and xs: "stops {41} xs" and k: "4 * (length b - s) + 3 \<le> k"
  obtain j where j: "k = Suc j" "4 * (length b - s) + 2 \<le> j" using k by (cases k) auto
  have s': "suf b s (pr c 1 @ 59 # pr d 0 @ xs)" using s by (simp add: paren_def)
  obtain c1 s1 c2 s2 where *: "parsepipe j (parseline j b (length b)) b (length b) s w = Ok (c1, s1) w"
      "parsebacks j b (length b) c1 s1 w = Ok (c2, s2) w" "suf b s2 (59 # pr d 0 @ xs)" "rep b c2 c"
    by (rule parse_backed [OF assms(1) s' _ j(2)]) simp_all
  have p: "peek b (length b) s2 '';'' = (s2, True)" using peek_suf [OF *(3), of "'';''"] by auto
  have "nows xs" using stops_nows [OF stops_mono [OF xs, of "{124, 38, 59, 41}"]] by auto
  then have g: "gettoken b (length b) s2 = (59, s2, Suc s2, Suc s2)" "suf b (Suc s2) (pr d 0 @ xs)"
    using gettoken_sym [OF *(3) _ _ n] by (auto simp: symbols_eq)
  have "s \<le> s2" using suf_le [OF s' *(3)] by simp
  moreover have "s2 < length b" by (rule suf_Cons [OF *(3), THEN conjunct1])
  ultimately have "4 * (length b - Suc s2) + 3 \<le> j" using j by linarith
  then obtain d1 s3 where d1: "parseline j b (length b) (Suc s2) w = Ok (d1, s3) w" "suf b s3 xs" "rep b d1 d"
    using parsesD [OF assms(2) [unfolded line_ok_def] g(2) xs, of j "4 * (length b - Suc s2) + 2"] by auto
  show "\<exists>c' s'. parseline k b (length b) s w = Ok (c', s') w \<and> suf b s' xs \<and> rep b c' (SList c d)"
    using * d1 by (intro exI [of _ "LIST c2 d1"] exI [of _ s3]) (auto simp: j(1) p g(1) returnk_def rep_def)
qed

text \<open>All levels at once, by induction on the command.\<close>

definition all_ok :: "'a uworld_scheme \<Rightarrow> uchar list \<Rightarrow> scmd \<Rightarrow> bool" where
  "all_ok w b c \<longleftrightarrow> exec_ok w b c \<and> pipe_ok w b c \<and> line_ok w b c \<and> pipe_ok w b (unback c) \<and>
     ((\<exists>ws. base c = SExec ws) \<or> line_ok w b (base c) \<and> pr (base c) 3 = 40 # pr (base c) 0 @ [41])"

lemma all_ok_if_line:
  assumes b: "0 \<notin> set b" and wf: "wf_cmd c" and line: "line_ok w b c" and "base c = c" and "pr c 3 = 40 # pr c 0 @ [41]"
    and "pr c 2 = pr c 3" and "unback c = c \<or> pipe_ok w b (unback c)"
  shows "all_ok w b c"
proof -
  have "nows (pr (base c) 0 @ [41])" using pr_nows [OF wf, of "[41]" 0] assms(4) by simp
  then have e: "exec_ok w b c" using exec_block [OF b _ wf, of w] line assms(4,5) by simp
  then show ?thesis using pipe_exec [OF e assms(6)] assms by (auto simp: all_ok_def)
qed

lemma all_ok_if_exec:
  assumes e: "exec_ok w b c" and "unback c = c" and "\<And>p q. pr c p = pr c q"
    and "(\<exists>ws. base c = SExec ws) \<or> line_ok w b (base c) \<and> pr (base c) 3 = 40 # pr (base c) 0 @ [41]"
  shows "all_ok w b c"
proof -
  have p: "pipe_ok w b c" using e assms(3) by (rule pipe_exec)
  then have "line_ok w b c" using line_backed assms(2,3) by metis
  then show ?thesis using e p assms(2,4) by (simp add: all_ok_def)
qed

lemma all_levels: "0 \<notin> set b \<Longrightarrow> wf_cmd c \<Longrightarrow> all_ok w b c"
proof (induction c)
  case (SExec ws)
  then show ?case by (intro all_ok_if_exec exec_words) auto
next
  case (SRedir c f m fd)
  then have c: "all_ok w b c" by simp
  let ?r = "SRedir c f m fd"
  have "exec_ok w b ?r"
  proof (cases "\<exists>ws. base c = SExec ws")
    case True
    then show ?thesis using exec_words [OF SRedir.prems(1) _ SRedir.prems(2)] by auto
  next
    case False
    have "wf_cmd (base c)" using base_reds(3) SRedir.prems(2) by simp
    then show ?thesis
      using False c exec_block [OF SRedir.prems(1) _ SRedir.prems(2), of w] pr_nows [of "base c" "[41]" 0] by (simp add: all_ok_def)
  qed
  then show ?case using c by (intro all_ok_if_exec) (auto simp: all_ok_def)
next
  case (SPipe c d)
  then have "pipe_ok w b (SPipe c d)" using pr_nows [of d] by (intro pipe_pipe) (auto simp: all_ok_def)
  then have "line_ok w b (SPipe c d)" by (intro line_backed) (simp_all add: paren_def)
  moreover have e: "exec_ok w b (SPipe c d)"
    using exec_block [OF SPipe.prems(1) _ SPipe.prems(2), of w] calculation pr_nows [OF SPipe.prems(2), of "[41]" 0] by (simp add: paren_def)
  ultimately show ?case using \<open>pipe_ok w b (SPipe c d)\<close> by (simp add: all_ok_def paren_def)
next
  case (SList c d)
  then have "line_ok w b (SList c d)" using pr_nows [of d] by (intro line_list) (auto simp: all_ok_def)
  then show ?case using SList.prems by (intro all_ok_if_line) (simp_all add: paren_def)
next
  case (SBack c)
  then have "pipe_ok w b (unback (SBack c))" by (simp add: all_ok_def)
  moreover have "line_ok w b (SBack c)" using calculation by (intro line_backed) (simp_all add: paren_def)
  ultimately show ?case using SBack.prems by (intro all_ok_if_line) (simp_all add: paren_def)
qed


section \<open>Terminating the strings\<close>

primrec ends :: "cmd \<Rightarrow> nat set" where
  "ends (EXEC argv) = snd ` set argv"
| "ends (REDIR c q eq m fd) = insert eq (ends c)"
| "ends (PIPE c d) = ends c \<union> ends d"
| "ends (LIST c d) = ends c \<union> ends d"
| "ends (BACK c) = ends c"

lemma ends_tokens: "ends c = snd ` set (tokens c)"
  by (induction c) auto

lemma update_nth: "j < length xs \<Longrightarrow> xs[i := x] ! j = (if i = j then x else xs ! j)"
  by (cases "i < length xs") auto

lemma fold_update:
  "length (fold (\<lambda>(q, eq) b. b[eq := 0]) argv b) = length b"
  "i < length b \<Longrightarrow> fold (\<lambda>(q, eq) b. b[eq := 0]) argv b ! i = (if i \<in> snd ` set argv then 0 else b ! i)"
  by (induction argv arbitrary: b) (force simp: update_nth)+

lemma nulterminate_nth:
  "length (nulterminate c b) = length b"
  "i < length b \<Longrightarrow> nulterminate c b ! i = (if i \<in> ends c then 0 else b ! i)"
  by (induction c arbitrary: b) (auto simp: fold_update update_nth)

lemma nulterminate_token:
  assumes ok: "\<forall>t \<in> set (tokens c). tok_ok b t" and t: "(q, eq) \<in> set (tokens c)"
  shows "cstr_at (nulterminate c (b @ [0])) q = slice b q eq"
proof -
  let ?n = "nulterminate c (b @ [0])"
  have qe: "q \<le> eq" "eq \<le> length b" "\<forall>x \<in> set (slice b q eq). wordc x" using ok t by (auto simp: tok_ok_def)
  have nth: "?n ! i = (if i \<in> ends c then 0 else (b @ [0]) ! i)" "i < length ?n" if "i \<le> length b" for i
    using that by (simp_all add: nulterminate_nth)
  have len: "length (slice b q eq) = eq - q" using qe by (simp add: slice_def)
  have inside: "?n ! (q + i) = slice b q eq ! i" if "i < eq - q" for i
  proof -
    have i: "slice b q eq ! i = b ! (q + i)" using that qe by (simp add: slice_def)
    then have "wordc (b ! (q + i))" using qe(3) that len nth_mem [of i "slice b q eq"] by auto
    moreover have "\<not> wordc (rd b e)" if "e \<in> ends c" for e using that ok by (auto simp: ends_tokens tok_ok_def)
    moreover have lt: "q + i < length b" using that qe by linarith
    then have "rd b (q + i) = b ! (q + i)" by (simp add: rd_def)
    ultimately have "q + i \<notin> ends c" by metis
    then show ?thesis using nth(1) [of "q + i"] i lt by (simp add: nth_append)
  qed
  have "take (eq - q) (drop q ?n) = slice b q eq"
    using inside qe len by (intro nth_equalityI) (simp_all add: nulterminate_nth)
  moreover have "drop (eq - q) (drop q ?n) = drop eq ?n" using qe(1) by simp
  moreover have "drop eq ?n = ?n ! eq # drop (Suc eq) ?n" using nth(2) [OF qe(2)] by (simp add: Cons_nth_drop_Suc)
  moreover have "?n ! eq = 0" using nth(1) [OF qe(2)] t by (force simp: ends_tokens)
  ultimately have "drop q ?n = slice b q eq @ 0 # drop (Suc eq) ?n" by (metis append_take_drop_id)
  moreover have "\<forall>x \<in> set (slice b q eq). x \<noteq> 0" using qe(3) by (auto simp: wordc_def)
  ultimately show ?thesis by (simp add: cstr_at_def takeWhile_append2)
qed

lemma view_cong: "(\<And>q eq. (q, eq) \<in> set (tokens c) \<Longrightarrow> g q eq = h q eq) \<Longrightarrow> view g c = view h c"
  by (induction c) auto

lemma pr_nul_free: "wf_cmd c \<Longrightarrow> 0 \<notin> set (pr c p)"
proof (induction c arbitrary: p)
  case (SExec ws)
  then have "\<forall>v \<in> set ws. 0 \<notin> set v" by (auto simp: word_def wordc_def)
  then show ?case by (induction ws rule: join.induct) auto
qed (auto simp: paren_def redir_sym_def word_def wordc_def)

section \<open>Properties\<close>

text \<open>
  C35: the parser is the inverse of printing. For every command whose words are words and whose
  argument lists are shorter than \<open>MAXARGS\<close>, \<open>parsecmd\<close> accepts its printed form without output
  or failure, and the strings of the result, as terminated in the buffer by
  \<open>nulterminate\<close>, are those of the command, with its structure: precedence, associativity,
  redirections and parentheses. Parsing does not use up its fuel.
\<close>

theorem parsecmd_print:
  assumes "wf_cmd c"
  shows "\<exists>d b. parsecmd (print_cmd c) w = Ok (d, b) w \<and> view (\<lambda>q eq. cstr_at b q) d = c"
proof -
  let ?b = "pr c 0"
  have b: "0 \<notin> set ?b" using assms by (rule pr_nul_free)
  then have "line_ok w ?b c" using all_levels [OF b assms, of w] by (simp add: all_ok_def)
  moreover have "suf ?b 0 (?b @ [])" by (simp add: suf_def)
  moreover have "stops {41} []" by simp
  moreover have "4 * (length ?b - 0) + 3 \<le> 4 * length ?b + 8" "4 * (length ?b - 0) + 2 \<le> 4 * length ?b + 8" by simp_all
  ultimately obtain d s where d: "parseline (4 * length ?b + 8) ?b (length ?b) 0 w = Ok (d, s) w" "suf ?b s []" "rep ?b d c"
    unfolding line_ok_def by (rule parsesD)
  have "peek ?b (length ?b) s '''' = (s, False)" using peek_suf [OF d(2), of "''''"] by simp
  then have "parsecmd (print_cmd c) w = Ok (d, nulterminate d (?b @ [0])) w"
    using d(1,2) unfolding parsecmd_def print_cmd_def Let_def suf_Nil
    by (simp only: bindk_def d(1) outcome.case) (simp add: returnk_def)
  moreover have "view (\<lambda>q eq. cstr_at (nulterminate d (?b @ [0])) q) d = view (slice ?b) d"
    using d(3) by (intro view_cong) (simp add: rep_def nulterminate_token)
  ultimately show ?thesis using d(3) by (auto simp: rep_def)
qed

theorem parsecmd_print_witness:
  "\<exists>d b. parsecmd (str ''ls|(a;b)>f&'') (sample_world 0 []) = Ok (d, b) (sample_world 0 []) \<and>
     view (\<lambda>q eq. cstr_at b q) d = SBack (SPipe (SExec [str ''ls'']) (SRedir (SList (SExec [str ''a'']) (SExec [str ''b''])) (str ''f'') 0x201 1))"
  using parsecmd_print [of "SBack (SPipe (SExec [str ''ls'']) (SRedir (SList (SExec [str ''a'']) (SExec [str ''b''])) (str ''f'') 0x201 1))" "sample_world 0 []"]
  by (simp add: str_def print_cmd_def paren_def redir_sym_def word_def wordc_def whitespace_def symbols_eq)

end
