(* ===== verification/ShEnds.thy ===== *)
theory ShEnds
  imports ShParse
begin

text \<open>
  Termination of the parser of the shell (\<open>src/sh.c\<close>). Every token that is not the end of the line
  takes at least one byte of it, so that loops and recursion need no more fuel than the rest of
  the line is long, plus one unit for each level of the grammar.
\<close>

type_synonym ('a, 'b) uop = "('a uworld_scheme, 'b) kop"

lemma thenk_assoc: "thenk (thenk m m') m'' = thenk m (thenk m' m'')"
  by (simp add: thenk_def bindk_assoc)

lemma thenk_return: "thenk (returnk ()) m = m"
  by (rule ext) (simp add: kop_defs)

section \<open>The parser always ends\<close>

text \<open>
  \<open>says out m\<close>: where writes are answered the operation returns and writes \<open>out\<close> to descriptor 2.
  \<open>ends_in n s m\<close>: there the operation returns a position between \<open>s\<close> and \<open>n\<close> and has made no
  call, or it exits after a message.
\<close>

definition writable :: "'a uworld_scheme \<Rightarrow> bool" where
  "writable w \<longleftrightarrow> (\<forall>h fd bs. answer w (h @ [Uwrite fd bs]) \<noteq> None)"

definition says :: "uchar list \<Rightarrow> ('a, unit) uop \<Rightarrow> bool" where
  "says out m \<longleftrightarrow> (\<forall>w. writable w \<longrightarrow>
     (\<exists>w'. m w = Ok () w' \<and> writable w' \<and> written 2 (trace w') = written 2 (trace w) @ out))"

definition ended :: "nat \<Rightarrow> nat \<Rightarrow> 'a uworld_scheme \<Rightarrow> (cmd \<times> nat, 'a uworld_scheme) outcome \<Rightarrow> bool" where
  "ended n s w r \<longleftrightarrow>
     (\<exists>c s'. r = Ok (c, s') w \<and> s \<le> s' \<and> s' \<le> n) \<or>
     (\<exists>w' out. r = Stop Swtch w' \<and> out \<noteq> [] \<and> written 2 (trace w') = written 2 (trace w) @ out)"

definition ends_in :: "nat \<Rightarrow> nat \<Rightarrow> ('a, cmd \<times> nat) uop \<Rightarrow> bool" where
  "ends_in n s m \<longleftrightarrow> (\<forall>w. writable w \<longrightarrow> ended n s w (m w))"

lemma says_putc: "says [c] (putc 2 c)"
  unfolding says_def
proof (intro allI impI)
  fix w :: "'a uworld_scheme"
  assume w: "writable w"
  then obtain r where "answer w (trace w @ [Uwrite 2 [c]]) = Some r" unfolding writable_def by blast
  then show "\<exists>w'. putc 2 c w = Ok () w' \<and> writable w' \<and> written 2 (trace w') = written 2 (trace w) @ [c]"
    using w by (simp add: putc_def ucall_def usys_def kop_defs writable_def Let_def)
qed

lemma says_thenk:
  fixes m m' :: "('a, unit) uop"
  assumes "says a m" and "says c m'"
  shows "says (a @ c) (thenk m m')"
  unfolding says_def
proof (intro allI impI)
  fix w :: "'a uworld_scheme"
  assume "writable w"
  then obtain w1 where w1: "m w = Ok () w1" "writable w1" "written 2 (trace w1) = written 2 (trace w) @ a"
    using assms(1) unfolding says_def by blast
  then obtain w2 where "m' w1 = Ok () w2" "writable w2" "written 2 (trace w2) = written 2 (trace w1) @ c"
    using assms(2) unfolding says_def by blast
  then show "\<exists>w'. thenk m m' w = Ok () w' \<and> writable w' \<and> written 2 (trace w') = written 2 (trace w) @ a @ c"
    using w1 by (simp add: kop_defs)
qed

lemma says_return: "says [] (returnk ())"
  by (simp add: says_def returnk_def)

lemma says_puts: "says cs (puts 2 cs)"
  unfolding puts_def
proof (induction cs)
  case (Cons c cs)
  then show ?case using says_thenk [OF says_putc Cons, of c] by simp
qed (simp add: says_return)

lemma panic_message: "printf 2 ''%s\<newline>'' [UStr (Some s)] = thenk (puts 2 s) (thenk (putc 2 10) (returnk ()))"
  by (simp add: printf_def str_def)

lemma says_panic_message: "says (s @ [10]) (printf 2 ''%s\<newline>'' [UStr (Some s)])"
  using says_thenk [OF says_puts says_thenk [OF says_putc says_return]] unfolding panic_message by simp

lemma exit_after:
  assumes "says out m" and "out \<noteq> []" and "writable w"
  shows "\<exists>w' out. thenk m uexit w = Stop Swtch w' \<and> out \<noteq> [] \<and> written 2 (trace w') = written 2 (trace w) @ out"
proof -
  obtain w1 where "m w = Ok () w1" "written 2 (trace w1) = written 2 (trace w) @ out"
    using assms(1,3) unfolding says_def by blast
  then show ?thesis using assms(2) by (intro exI [of _ "w1\<lparr>trace := trace w1 @ [Uexit]\<rparr>"] exI [of _ out])
    (simp add: kop_defs uexit_def written_def)
qed

lemma leftovers_message:
  "printf 2 ''leftovers: %s\<newline>'' [UStr (Some s)] =
     thenk (puts 2 (str ''leftovers: '')) (thenk (puts 2 s) (thenk (putc 2 10) (returnk ())))"
  by (simp add: printf_def str_def puts_def thenk_assoc thenk_return)

lemma leftovers_exit:
  fixes w :: "'a uworld_scheme"
  assumes "writable w"
  shows "\<exists>w' out. thenk (printf 2 ''leftovers: %s\<newline>'' [UStr (Some s)]) (sh_panic e :: ('a, 'b) uop) w = Stop Swtch w' \<and>
    out \<noteq> [] \<and> written 2 (trace w') = written 2 (trace w) @ out"
proof -
  let ?p = "printf 2 ''leftovers: %s\<newline>'' [UStr (Some s)]"
  let ?q = "printf 2 ''%s\<newline>'' [UStr (Some (str e))]"
  have "says (str ''leftovers: '' @ s @ [10] @ []) ?p"
    unfolding leftovers_message by (intro says_thenk says_puts says_putc says_return)
  then have "says ((str ''leftovers: '' @ s @ [10] @ []) @ str e @ [10]) (thenk ?p ?q)"
    by (rule says_thenk) (rule says_panic_message)
  then obtain w' out where "thenk (thenk ?p ?q) (uexit :: ('a, 'b) uop) w = Stop Swtch w'" "out \<noteq> []"
      "written 2 (trace w') = written 2 (trace w) @ out"
    using exit_after [OF _ _ assms] by blast
  moreover have "thenk ?p (sh_panic e :: ('a, 'b) uop) w = thenk (thenk ?p ?q) uexit w"
    unfolding sh_panic_def by (simp only: thenk_assoc)
  ultimately show ?thesis by auto
qed

lemma ends_in_panic: "ends_in n s (sh_panic e)"
  unfolding ends_in_def ended_def sh_panic_def
  using exit_after [OF says_panic_message] by blast

lemma ends_in_return: "s \<le> s' \<Longrightarrow> s' \<le> n \<Longrightarrow> ends_in n s (returnk (c, s'))"
  by (simp add: ends_in_def ended_def returnk_def)

lemma ends_in_mono:
  assumes "ends_in n s' m" and "s \<le> s'"
  shows "ends_in n s m"
  using assms unfolding ends_in_def ended_def by (meson le_trans)

lemma ends_in_bind:
  fixes m :: "('a, cmd \<times> nat) uop"
  assumes "ends_in n s m" and "\<And>c s'. s \<le> s' \<Longrightarrow> s' \<le> n \<Longrightarrow> ends_in n s' (f (c, s'))"
  shows "ends_in n s (bindk m f)"
  unfolding ends_in_def
proof (intro allI impI)
  fix w :: "'a uworld_scheme"
  assume w: "writable w"
  then have "ended n s w (m w)" using assms(1) unfolding ends_in_def by blast
  then show "ended n s w (bindk m f w)" unfolding ended_def [of _ _ _ "m w"]
  proof (elim disjE exE conjE)
    fix c s'
    assume r: "m w = Ok (c, s') w" "s \<le> s'" "s' \<le> n"
    then have "ends_in n s (f (c, s'))" using assms(2) ends_in_mono by blast
    then show ?thesis using w r(1) unfolding ends_in_def by (simp add: bindk_def)
  next
    fix w' out
    assume "m w = Stop Swtch w'" "out \<noteq> []" "written 2 (trace w') = written 2 (trace w) @ out"
    then show ?thesis unfolding ended_def by (simp add: bindk_def)
  qed
qed

lemma skip_ws_bounds: "s \<le> n \<Longrightarrow> s \<le> skip_ws b n s \<and> skip_ws b n s \<le> n"
  by (induction b n s rule: skip_ws.induct) (subst (1 2) skip_ws.simps; auto)

lemma skip_ws_stop: "skip_ws b n s < n \<Longrightarrow> rd b (skip_ws b n s) \<notin> set whitespace"
proof (induction b n s rule: skip_ws.induct)
  case (1 b n s)
  then show ?case by (cases "s < n \<and> strchr_in whitespace (rd b s)") (auto simp: skip_ws.simps [of b n s])
qed

lemma skip_word_bounds: "s \<le> n \<Longrightarrow> s \<le> skip_word b n s \<and> skip_word b n s \<le> n"
  by (induction b n s rule: skip_word.induct) (subst (1 2) skip_word.simps; auto)

lemma peek_bounds: "peek b n s t = (s', p) \<Longrightarrow> s \<le> n \<Longrightarrow> s \<le> s' \<and> s' \<le> n \<and> (p \<longrightarrow> rd b s' \<noteq> 0)"
  using skip_ws_bounds [of s n b] by (auto simp: peek_def Let_def)

lemma rd_nonzero: "rd b s \<noteq> 0 \<Longrightarrow> s < length b"
  by (auto simp: rd_def split: if_splits)

lemma gettoken_eq:
  assumes "gettoken b n s = (tok, q, eq, s')"
  shows "q = skip_ws b n s" and "s' = skip_ws b n eq" and "rd b q = 0 \<Longrightarrow> tok = 0 \<and> eq = q"
    and "rd b q \<in> set symbols \<Longrightarrow> eq = q + 1 \<or> rd b (q + 1) = 62 \<and> eq = q + 2"
    and "rd b q \<noteq> 0 \<Longrightarrow> rd b q \<notin> set symbols \<Longrightarrow> eq = skip_word b n q"
    and "rd b q \<noteq> 0 \<Longrightarrow> tok \<noteq> 0"
proof -
  define c where "c = rd b (skip_ws b n s)"
  define r where "r = (if c = 0 then (0, skip_ws b n s)
             else if c = 124 \<or> c = 40 \<or> c = 41 \<or> c = 59 \<or> c = 38 \<or> c = 60 then (c, skip_ws b n s + 1)
             else if c = 62 then (if rd b (skip_ws b n s + 1) = 62 then (43, skip_ws b n s + 2) else (62, skip_ws b n s + 1))
             else (97, skip_word b n (skip_ws b n s)))"
  have "gettoken b n s = (fst r, skip_ws b n s, snd r, skip_ws b n (snd r))"
    unfolding gettoken_def Let_def r_def c_def split_beta by (rule refl)
  then have *: "tok = fst r" "q = skip_ws b n s" "eq = snd r" "s' = skip_ws b n eq" using assms by auto
  then show "q = skip_ws b n s" "s' = skip_ws b n eq" by auto
  have c: "c = rd b q" using *(2) c_def by simp
  show "rd b q = 0 \<Longrightarrow> tok = 0 \<and> eq = q" using * c by (simp add: r_def)
  show "rd b q \<noteq> 0 \<Longrightarrow> tok \<noteq> 0" using *(1) unfolding c [symmetric] r_def by simp
  show "rd b q \<noteq> 0 \<Longrightarrow> rd b q \<notin> set symbols \<Longrightarrow> eq = skip_word b n q"
    using *(2,3) unfolding c [symmetric] r_def by (simp add: symbols_eq)
  show "rd b q \<in> set symbols \<Longrightarrow> eq = q + 1 \<or> rd b (q + 1) = 62 \<and> eq = q + 2"
    using *(2,3) unfolding c [symmetric] r_def by (cases "c = 62", simp_all add: symbols_eq) blast
qed

lemma gettoken_bounds:
  assumes "gettoken b (length b) s = (tok, q, eq, s')" and "s \<le> length b"
  shows "s \<le> s'" and "s' \<le> length b" and "tok \<noteq> 0 \<Longrightarrow> s < s'"
proof -
  let ?n = "length b"
  have q: "q = skip_ws b ?n s" and s': "s' = skip_ws b ?n eq"
    using gettoken_eq [OF assms(1)] by auto
  have qb: "s \<le> q" "q \<le> ?n" using skip_ws_bounds [OF assms(2)] q by auto
  have e: "q \<le> eq \<and> eq \<le> ?n \<and> (tok \<noteq> 0 \<longrightarrow> q < eq)"
  proof (cases "rd b q = 0")
    case True
    then show ?thesis using gettoken_eq(3) [OF assms(1)] qb by simp
  next
    case False
    then have lt: "q < ?n" by (rule rd_nonzero)
    have ws: "rd b q \<notin> set whitespace" using skip_ws_stop [of b ?n s] lt q by simp
    consider "eq = q + 1" | "rd b (q + 1) = 62" "eq = q + 2" | "rd b q \<notin> set symbols" "eq = skip_word b ?n q"
      using gettoken_eq(4,5) [OF assms(1)] False by blast
    then show ?thesis
    proof cases
      case 2
      then have "q + 1 < ?n" using rd_nonzero [of b "q + 1"] by simp
      then show ?thesis using 2 by simp
    next
      case 3
      then have "eq = skip_word b ?n (Suc q)" using lt ws by (simp add: skip_word.simps [of b ?n q])
      then show ?thesis using skip_word_bounds [of "Suc q" ?n b] lt by simp
    qed (use lt in simp)
  qed
  then have "eq \<le> s'" "s' \<le> ?n" using skip_ws_bounds [of eq ?n b] s' by auto
  then show "s \<le> s'" "s' \<le> ?n" "tok \<noteq> 0 \<Longrightarrow> s < s'" using e qb by auto
qed

lemma gettoken_after_peek:
  assumes "peek b (length b) s t = (s', True)" and "s \<le> length b" and "gettoken b (length b) s' = (tok, q, eq, s'')"
  shows "s < s''" and "s'' \<le> length b"
proof -
  have s': "s \<le> s'" "s' \<le> length b" "rd b s' \<noteq> 0" using peek_bounds [OF assms(1,2)] by auto
  have "skip_ws b (length b) s' = s'"
    using assms(1) skip_ws_stop [of b "length b" s] rd_nonzero [OF s'(3)]
    by (auto simp: peek_def Let_def skip_ws.simps [of b "length b" s'])
  then have "q = s'" using gettoken_eq(1) [OF assms(3)] by simp
  then have "tok \<noteq> 0" using gettoken_eq(6) [OF assms(3)] s'(3) by simp
  then show "s < s''" "s'' \<le> length b" using gettoken_bounds [OF assms(3) s'(2)] s' by auto
qed

lemma parseredirs_ends:
  "s \<le> length b \<Longrightarrow> length b - s < k \<Longrightarrow>
   ends_in (length b) s (parseredirs k b (length b) c s :: ('a, cmd \<times> nat) uop)"
proof (induction k arbitrary: c s)
  case (Suc k)
  obtain s1 p where p: "peek b (length b) s ''<>'' = (s1, p)" by fastforce
  obtain t1 q1 e1 s2 where g1: "gettoken b (length b) s1 = (t1, q1, e1, s2)" by (metis prod_cases4)
  obtain t2 q2 e2 s3 where g2: "gettoken b (length b) s2 = (t2, q2, e2, s3)" by (metis prod_cases4)
  have s1: "s \<le> s1" "s1 \<le> length b" using peek_bounds [OF p Suc.prems(1)] by auto
  show ?case
  proof (cases p)
    case True
    then have p': "peek b (length b) s ''<>'' = (s1, True)" using p by simp
    have s2: "s < s2" "s2 \<le> length b" using gettoken_after_peek [OF p' Suc.prems(1) g1] by auto
    have s3: "s2 \<le> s3" "s3 \<le> length b" using gettoken_bounds [OF g2 s2(2)] by auto
    have "ends_in (length b) s (parseredirs k b (length b) c' s3 :: ('a, cmd \<times> nat) uop)" for c'
      using s2 s3 Suc.prems(2) by (intro ends_in_mono [OF Suc.IH]) linarith+
    then show ?thesis unfolding parseredirs.simps p g1 g2 Let_def prod.case using True by (simp add: ends_in_panic)
  qed (simp add: p s1 ends_in_return)
qed simp

lemma parseexec_loop_ends:
  "s \<le> length b \<Longrightarrow> length b - s + 1 < k \<Longrightarrow>
   ends_in (length b) s (parseexec_loop k b (length b) argv c s :: ('a, cmd \<times> nat) uop)"
proof (induction k arbitrary: argv c s)
  case (Suc k)
  obtain s1 p where p: "peek b (length b) s ''|)&;'' = (s1, p)" by fastforce
  obtain tok q eq s2 where g: "gettoken b (length b) s1 = (tok, q, eq, s2)" by (metis prod_cases4)
  have s1: "s \<le> s1" "s1 \<le> length b" using peek_bounds [OF p Suc.prems(1)] by auto
  have s2: "s1 \<le> s2" "s2 \<le> length b" "tok \<noteq> 0 \<Longrightarrow> s1 < s2" using gettoken_bounds [OF g s1(2)] by auto
  have rest: "ends_in (length b) s (bindk (parseredirs k b (length b) c s2)
      (\<lambda>(c', s'). parseexec_loop k b (length b) argv' c' s') :: ('a, cmd \<times> nat) uop)" if "tok \<noteq> 0" for argv'
  proof -
    have "s1 < s2" using s2(3) that .
    then have "length b - s2 < k" "length b - s2 + 1 < k" using s1 s2 Suc.prems(2) by linarith+
    then have "ends_in (length b) s2 (bindk (parseredirs k b (length b) c s2)
      (\<lambda>(c', s'). parseexec_loop k b (length b) argv' c' s') :: ('a, cmd \<times> nat) uop)"
      using s2 by (intro ends_in_bind parseredirs_ends) (auto intro!: Suc.IH)
    then show ?thesis by (rule ends_in_mono) (use s1 s2 in simp)
  qed
  show ?case unfolding parseexec_loop.simps p g Let_def prod.case
    using s1 s2 rest by (simp add: ends_in_panic ends_in_return)
qed simp

lemma parseblock_ends:
  fixes pl :: "nat \<Rightarrow> ('a, cmd \<times> nat) uop"
  assumes "s \<le> length b" and "length b - s < k"
    and pl: "\<And>s'. s < s' \<Longrightarrow> s' \<le> length b \<Longrightarrow> ends_in (length b) s' (pl s')"
  shows "ends_in (length b) s (parseblock k pl b (length b) s)"
proof -
  obtain s1 p where p: "peek b (length b) s ''('' = (s1, p)" by fastforce
  obtain t q e s2 where g: "gettoken b (length b) s1 = (t, q, e, s2)" by (metis prod_cases4)
  have rest: "ends_in (length b) s3 ((let (s, p) = peek b (length b) s3 '')'' in
       if \<not> p then sh_panic ''syntax - missing )''
       else (let (_, _, _, s) = gettoken b (length b) s in parseredirs k b (length b) c s)) :: ('a, cmd \<times> nat) uop)"
    if "s \<le> s3" "s3 \<le> length b" for c s3
  proof -
    obtain s4 p where p: "peek b (length b) s3 '')'' = (s4, p)" by fastforce
    obtain t q e s5 where g: "gettoken b (length b) s4 = (t, q, e, s5)" by (metis prod_cases4)
    have "ends_in (length b) s3 (parseredirs k b (length b) c s5 :: ('a, cmd \<times> nat) uop)" if p
    proof -
      have p': "peek b (length b) s3 '')'' = (s4, True)" using p that by simp
      have "s3 < s5" "s5 \<le> length b" using gettoken_after_peek [OF p' \<open>s3 \<le> length b\<close> g] by auto
      then show ?thesis using \<open>s \<le> s3\<close> assms(2) by (intro ends_in_mono [OF parseredirs_ends]) linarith+
    qed
    then show ?thesis unfolding p g Let_def prod.case by (simp add: ends_in_panic)
  qed
  have "ends_in (length b) s (bindk (pl s2) (\<lambda>(c, s).
      (let (s, p) = peek b (length b) s '')'' in
       if \<not> p then sh_panic ''syntax - missing )''
       else (let (_, _, _, s) = gettoken b (length b) s in parseredirs k b (length b) c s))))" if p
  proof -
    have p': "peek b (length b) s ''('' = (s1, True)" using p that by simp
    have s2: "s < s2" "s2 \<le> length b" using gettoken_after_peek [OF p' assms(1) g] by auto
    show ?thesis
      by (rule ends_in_mono [OF ends_in_bind [OF pl [OF s2]]], unfold prod.case, rule rest) (use s2 in auto)
  qed
  then show ?thesis unfolding parseblock_def p g Let_def prod.case by (simp add: ends_in_panic)
qed

lemma parseexec_ends:
  fixes pl :: "nat \<Rightarrow> ('a, cmd \<times> nat) uop"
  assumes "s \<le> length b" and "length b - s + 1 < k"
    and pl: "\<And>s'. s < s' \<Longrightarrow> s' \<le> length b \<Longrightarrow> ends_in (length b) s' (pl s')"
  shows "ends_in (length b) s (parseexec k pl b (length b) s)"
proof -
  obtain s1 p where p: "peek b (length b) s ''('' = (s1, p)" by fastforce
  have s1: "s \<le> s1" "s1 \<le> length b" using peek_bounds [OF p assms(1)] by auto
  have "ends_in (length b) s (parseblock k pl b (length b) s1)"
    by (rule ends_in_mono [OF parseblock_ends]) (use s1 assms in auto)
  moreover have "ends_in (length b) s (bindk (parseredirs k b (length b) (EXEC []) s1)
      (\<lambda>(ret, s). parseexec_loop k b (length b) [] ret s) :: ('a, cmd \<times> nat) uop)"
    by (rule ends_in_mono [OF ends_in_bind [OF parseredirs_ends]], use s1 assms in auto)
      (rule parseexec_loop_ends; use s1 assms in linarith)
  ultimately show ?thesis unfolding parseexec_def p Let_def prod.case by simp
qed

lemma parsepipe_ends:
  fixes pl :: "nat \<Rightarrow> ('a, cmd \<times> nat) uop"
  assumes "s \<le> length b" and "length b - s + 3 \<le> k"
    and "\<And>s'. s < s' \<Longrightarrow> s' \<le> length b \<Longrightarrow> ends_in (length b) s' (pl s')"
  shows "ends_in (length b) s (parsepipe k pl b (length b) s)"
  using assms
proof (induction k arbitrary: s)
  case (Suc k)
  have rest: "ends_in (length b) s1 ((let (s, p) = peek b (length b) s1 ''|'' in
      if \<not> p then returnk (c, s)
      else (let (_, _, _, s) = gettoken b (length b) s in
      bindk (parsepipe k pl b (length b) s) (\<lambda>(d, s). returnk (PIPE c d, s)))))"
    if s1: "s \<le> s1" "s1 \<le> length b" for c s1
  proof -
    obtain s2 p where p: "peek b (length b) s1 ''|'' = (s2, p)" by fastforce
    obtain t q e s3 where g: "gettoken b (length b) s2 = (t, q, e, s3)" by (metis prod_cases4)
    have s2: "s1 \<le> s2" "s2 \<le> length b" using peek_bounds [OF p s1(2)] by auto
    have "ends_in (length b) s1 (bindk (parsepipe k pl b (length b) s3) (\<lambda>(d, s). returnk (PIPE c d, s)))" if p
    proof -
      have p': "peek b (length b) s1 ''|'' = (s2, True)" using p that by simp
      have s3: "s1 < s3" "s3 \<le> length b" using gettoken_after_peek [OF p' s1(2) g] by auto
      have "ends_in (length b) s3 (parsepipe k pl b (length b) s3)"
        by (rule Suc.IH [OF s3(2)]) (use s1 s3 Suc.prems in auto)
      then show ?thesis using s3 by (intro ends_in_mono [OF ends_in_bind]) (auto intro: ends_in_return)
    qed
    then show ?thesis unfolding p g Let_def prod.case using s2 by (simp add: ends_in_return)
  qed
  have "ends_in (length b) s (parseexec k pl b (length b) s)"
    using Suc.prems by (intro parseexec_ends) auto
  then show ?case unfolding parsepipe.simps by (rule ends_in_bind) (unfold prod.case, rule rest)
qed simp

lemma parsebacks_ends:
  "s \<le> length b \<Longrightarrow> length b - s < k \<Longrightarrow>
   ends_in (length b) s (parsebacks k b (length b) c s :: ('a, cmd \<times> nat) uop)"
proof (induction k arbitrary: c s)
  case (Suc k)
  obtain s1 p where p: "peek b (length b) s ''&'' = (s1, p)" by fastforce
  obtain t q e s2 where g: "gettoken b (length b) s1 = (t, q, e, s2)" by (metis prod_cases4)
  have s1: "s \<le> s1" "s1 \<le> length b" using peek_bounds [OF p Suc.prems(1)] by auto
  have "ends_in (length b) s (parsebacks k b (length b) (BACK c) s2 :: ('a, cmd \<times> nat) uop)" if p
  proof -
    have p': "peek b (length b) s ''&'' = (s1, True)" using p that by simp
    have "s < s2" "s2 \<le> length b" using gettoken_after_peek [OF p' Suc.prems(1) g] by auto
    then show ?thesis using Suc.prems(2) by (intro ends_in_mono [OF Suc.IH]) linarith+
  qed
  then show ?case unfolding parsebacks.simps p g Let_def prod.case using s1 by (simp add: ends_in_return)
qed simp

lemma parseline_ends:
  "s \<le> length b \<Longrightarrow> length b - s + 4 \<le> k \<Longrightarrow>
   ends_in (length b) s (parseline k b (length b) s :: ('a, cmd \<times> nat) uop)"
proof (induction k arbitrary: s)
  case (Suc k)
  have rest: "ends_in (length b) s1 ((let (s, p) = peek b (length b) s1 '';'' in
      if \<not> p then returnk (c, s)
      else (let (_, _, _, s) = gettoken b (length b) s in
      bindk (parseline k b (length b) s) (\<lambda>(d, s). returnk (LIST c d, s)))) :: ('a, cmd \<times> nat) uop)"
    if s1: "s \<le> s1" "s1 \<le> length b" for c s1
  proof -
    obtain s2 p where p: "peek b (length b) s1 '';'' = (s2, p)" by fastforce
    obtain t q e s3 where g: "gettoken b (length b) s2 = (t, q, e, s3)" by (metis prod_cases4)
    have s2: "s1 \<le> s2" "s2 \<le> length b" using peek_bounds [OF p s1(2)] by auto
    have "ends_in (length b) s1 (bindk (parseline k b (length b) s3) (\<lambda>(d, s). returnk (LIST c d, s)) :: ('a, cmd \<times> nat) uop)" if p
    proof -
      have p': "peek b (length b) s1 '';'' = (s2, True)" using p that by simp
      have s3: "s1 < s3" "s3 \<le> length b" using gettoken_after_peek [OF p' s1(2) g] by auto
      have "ends_in (length b) s3 (parseline k b (length b) s3 :: ('a, cmd \<times> nat) uop)"
        by (rule Suc.IH [OF s3(2)]) (use s1 s3 Suc.prems in auto)
      then show ?thesis using s3 by (intro ends_in_mono [OF ends_in_bind]) (auto intro: ends_in_return)
    qed
    then show ?thesis unfolding p g Let_def prod.case using s2 by (simp add: ends_in_return)
  qed
  have "ends_in (length b) s (parsepipe k (parseline k b (length b)) b (length b) s :: ('a, cmd \<times> nat) uop)"
    using Suc.prems by (intro parsepipe_ends Suc.IH) auto
  moreover have "ends_in (length b) s1 (bindk (parsebacks k b (length b) c s1) (\<lambda>(c, s).
      (let (s, p) = peek b (length b) s '';'' in
      if \<not> p then returnk (c, s)
      else (let (_, _, _, s) = gettoken b (length b) s in
      bindk (parseline k b (length b) s) (\<lambda>(d, s). returnk (LIST c d, s))))) :: ('a, cmd \<times> nat) uop)"
    if s1: "s \<le> s1" "s1 \<le> length b" for c s1
  proof (rule ends_in_bind [OF parsebacks_ends [OF s1(2)]])
    show "length b - s1 < k" using s1 Suc.prems(2) by linarith
  qed (unfold prod.case, rule rest, use s1 in auto)
  ultimately show ?case unfolding parseline.simps by - (rule ends_in_bind, assumption, unfold prod.case)
qed simp

section \<open>Property\<close>

text \<open>
  C1: the parser of the shell always ends. On every line, whatever its bytes, \<open>parsecmd\<close> returns a
  command without having made a system call, or it reports an error on descriptor 2 and exits;
  neither its loops nor its recursion run on.
\<close>

theorem parsecmd_ends:
  fixes w :: "'a uworld_scheme"
  assumes "writable w"
  shows "(\<exists>c b. parsecmd line w = Ok (c, b) w) \<or>
    (\<exists>w' out. parsecmd line w = Stop Swtch w' \<and> out \<noteq> [] \<and> written 2 (trace w') = written 2 (trace w) @ out)"
proof -
  let ?n = "length line"
  have "ends_in ?n 0 (parseline (4 * ?n + 8) line ?n 0 :: ('a, cmd \<times> nat) uop)"
    by (rule parseline_ends) simp_all
  then have "ended ?n 0 w (parseline (4 * ?n + 8) line ?n 0 w)"
    using assms unfolding ends_in_def by blast
  then consider c s where "parseline (4 * ?n + 8) line ?n 0 w = Ok (c, s) w"
    | w' out where "parseline (4 * ?n + 8) line ?n 0 w = Stop Swtch w'" "out \<noteq> []" "written 2 (trace w') = written 2 (trace w) @ out"
    unfolding ended_def by blast
  then show ?thesis
  proof cases
    case (1 c s)
    obtain s' p where p: "peek line ?n s '''' = (s', p)" by fastforce
    let ?m = "thenk (printf 2 ''leftovers: %s\<newline>'' [UStr (Some (drop s' line))]) (sh_panic ''syntax'')"
    have "parsecmd line w = (if s' \<noteq> ?n then ?m w else Ok (c, nulterminate c (line @ [0])) w)"
      unfolding parsecmd_def Let_def bindk_def 1 outcome.case prod.case p by (simp add: returnk_def)
    moreover have "\<exists>w' out. ?m w = Stop Swtch w' \<and> out \<noteq> [] \<and> written 2 (trace w') = written 2 (trace w) @ out"
      by (rule leftovers_exit [OF assms])
    ultimately show ?thesis by auto
  next
    case 2
    then show ?thesis by (intro disjI2 exI conjI) (auto simp: parsecmd_def Let_def bindk_def)
  qed
qed

theorem parsecmd_ends_witness:
  "\<exists>w' out. parsecmd (str ''a | (b'') (sample_world 0 []) = Stop Swtch w' \<and> out \<noteq> [] \<and> written 2 (trace w') = out"
proof -
  have "writable (sample_world 0 [])" by (simp add: writable_def sample_world_def serve_def)
  note parsecmd_ends [OF this, of "str ''a | (b''"]
  moreover have "\<not> is_ok (parsecmd (str ''a | (b'') (sample_world 0 []))" by code_simp
  ultimately show ?thesis by (auto simp: sample_world_def)
qed

end
