(* ===== verification/Umalloc.thy ===== *)
theory Umalloc
  imports Ulib
begin

text \<open>
  The user-level allocator (\<open>src/umalloc.c\<close>): \<open>free\<close>, \<open>morecore\<close> and \<open>malloc\<close>. A header is at an
  address that is a multiple of its size of 8 bytes, so that two headers overlap only if they are
  the same; the fields of headers are kept by the address of the header.
\<close>

section \<open>State\<close>

record uheap = uworld +
  hptr :: "uint \<Rightarrow> uint"
  hsize :: "uint \<Rightarrow> uint"
  freep :: uint
  base :: uint

section \<open>Operations\<close>

text \<open>The loop of \<open>free\<close> that looks for the place of the block; \<open>k\<close> is fuel.\<close>

primrec free_find :: "nat \<Rightarrow> uint \<Rightarrow> uint \<Rightarrow> ('a uheap_scheme, uint) kop" where
  "free_find 0 bp p = stopk Diverge"
| "free_find (Suc k) bp p =
     bindk (getk (\<lambda>s. s)) (\<lambda>s.
     if bp > p \<and> bp < hptr s p then returnk p
     else if p \<ge> hptr s p \<and> (bp > p \<or> bp < hptr s p) then returnk p
     else free_find k bp (hptr s p))"

definition join_next :: "uint \<Rightarrow> uint \<Rightarrow> 'a uheap_scheme \<Rightarrow> 'a uheap_scheme" where
  "join_next bp p s =
     (let q = hptr s p in
      if bp + hsize s bp * 8 = q
      then s\<lparr>hsize := (hsize s)(bp := hsize s bp + hsize s q), hptr := (hptr s)(bp := hptr s q)\<rparr>
      else s\<lparr>hptr := (hptr s)(bp := q)\<rparr>)"

definition join_prev :: "uint \<Rightarrow> uint \<Rightarrow> 'a uheap_scheme \<Rightarrow> 'a uheap_scheme" where
  "join_prev bp p s =
     (if p + hsize s p * 8 = bp
      then s\<lparr>hsize := (hsize s)(p := hsize s p + hsize s bp), hptr := (hptr s)(p := hptr s bp)\<rparr>
      else s\<lparr>hptr := (hptr s)(p := bp)\<rparr>)"

definition free :: "nat \<Rightarrow> uint \<Rightarrow> ('a uheap_scheme, unit) kop" where
  "free k ap =
     (let bp = ap - 8 in
     bindk (getk (\<lambda>s. s)) (\<lambda>s.
     bindk (free_find k bp (freep s)) (\<lambda>p.
     thenk (modk (join_next bp p)) (
     thenk (modk (join_prev bp p)) (
     modk (\<lambda>s. s\<lparr>freep := p\<rparr>))))))"

definition morecore :: "nat \<Rightarrow> uint \<Rightarrow> ('a uheap_scheme, uint) kop" where
  "morecore k nu =
     (let nu = (if nu < 4096 then 4096 else nu) in
     bindk (usys (Usbrk (sint (nu * 8)))) (\<lambda>r.
     (let p = word_of_int (rv r) in
      if p = -1 then returnk 0
      else
      thenk (modk (\<lambda>s. s\<lparr>hsize := (hsize s)(p := nu)\<rparr>)) (
      thenk (free k (p + 8)) (
      bindk (getk (\<lambda>s. s)) (\<lambda>s.
      returnk (freep s)))))))"

text \<open>Taking \<open>nunits\<close> from the block \<open>p\<close> whose predecessor is \<open>prevp\<close>.\<close>

definition take_block :: "uint \<Rightarrow> uint \<Rightarrow> uint \<Rightarrow> ('a uheap_scheme, uint) kop" where
  "take_block nunits prevp p =
     bindk (getk (\<lambda>s. s)) (\<lambda>s.
     if hsize s p = nunits then
       thenk (modk (\<lambda>s. s\<lparr>hptr := (hptr s)(prevp := hptr s p)\<rparr>)) (
       thenk (modk (\<lambda>s. s\<lparr>freep := prevp\<rparr>)) (
       returnk (p + 8)))
     else
       (let n = hsize s p - nunits; q = p + n * 8 in
       thenk (modk (\<lambda>s. s\<lparr>hsize := (hsize s)(p := n, q := nunits)\<rparr>)) (
       thenk (modk (\<lambda>s. s\<lparr>freep := prevp\<rparr>)) (
       returnk (q + 8)))))"

primrec malloc_loop :: "nat \<Rightarrow> nat \<Rightarrow> uint \<Rightarrow> uint \<Rightarrow> uint \<Rightarrow> ('a uheap_scheme, uint) kop" where
  "malloc_loop 0 f nunits prevp p = stopk Diverge"
| "malloc_loop (Suc k) f nunits prevp p =
     bindk (getk (\<lambda>s. s)) (\<lambda>s.
     if hsize s p \<ge> nunits then take_block nunits prevp p
     else if p = freep s then
       bindk (morecore f nunits) (\<lambda>p.
       if p = 0 then returnk 0
       else bindk (getk (\<lambda>s. s)) (\<lambda>s. malloc_loop k f nunits p (hptr s p)))
     else malloc_loop k f nunits p (hptr s p))"

definition units :: "uint \<Rightarrow> uint" where
  "units nbytes = (nbytes + 8 - 1) div 8 + 1"

definition init_base :: "'a uheap_scheme \<Rightarrow> 'a uheap_scheme" where
  "init_base s =
     (if freep s = 0 then s\<lparr>hptr := (hptr s)(base s := base s), freep := base s, hsize := (hsize s)(base s := 0)\<rparr>
      else s)"

definition malloc :: "nat \<Rightarrow> uint \<Rightarrow> ('a uheap_scheme, uint) kop" where
  "malloc k nbytes =
     thenk (modk init_base) (
     bindk (getk (\<lambda>s. s)) (\<lambda>s.
     malloc_loop k k (units nbytes) (freep s) (hptr s (freep s))))"

section \<open>The free list\<close>

text \<open>
  \<open>blocks s as\<close>: the circular list is \<open>as\<close>, from \<open>base\<close> on, in the order of the addresses; between a
  block and the next there is a byte at least, and only \<open>base\<close> is empty.
\<close>

definition bend :: "'a uheap_scheme \<Rightarrow> uint \<Rightarrow> nat" where
  "bend s a = unat a + 8 * unat (hsize s a)"

definition block :: "'a uheap_scheme \<Rightarrow> uint \<Rightarrow> nat set" where
  "block s a = {unat a ..< bend s a}"

definition free_bytes :: "'a uheap_scheme \<Rightarrow> uint list \<Rightarrow> nat set" where
  "free_bytes s as = (\<Union>a \<in> set as. block s a)"

fun linked :: "(uint \<Rightarrow> uint) \<Rightarrow> uint list \<Rightarrow> bool" where
  "linked h (a # b # as) \<longleftrightarrow> h a = b \<and> linked h (b # as)"
| "linked h as \<longleftrightarrow> True"

definition good :: "'a uheap_scheme \<Rightarrow> uint list \<Rightarrow> bool" where
  "good s as \<longleftrightarrow> (\<forall>a \<in> set as. 8 dvd unat a \<and> bend s a < 2 ^ 32) \<and> sorted_wrt (\<lambda>a b. bend s a < unat b) as"

definition blocks :: "'a uheap_scheme \<Rightarrow> uint list \<Rightarrow> bool" where
  "blocks s as \<longleftrightarrow> as \<noteq> [] \<and> hd as = base s \<and> base s \<noteq> 0 \<and> hsize s (base s) = 0 \<and> freep s \<in> set as \<and>
     (\<forall>a \<in> set (tl as). hsize s a \<noteq> 0) \<and> linked (hptr s) (as @ [base s]) \<and> good s as"

lemma linked_append: "linked h (xs @ a # ys) \<longleftrightarrow> linked h (xs @ [a]) \<and> linked h (a # ys)"
proof (induction xs)
  case (Cons x xs)
  then show ?case by (cases xs) auto
qed simp

lemma linked_snoc: "linked h (as @ [b]) \<longleftrightarrow> as = [] \<or> linked h as \<and> h (last as) = b"
  by (induction as rule: rev_induct) (auto simp: linked_append [of h _ _ "[b]"])

lemma linked_nth: "linked h as \<Longrightarrow> Suc i < length as \<Longrightarrow> h (as ! i) = as ! Suc i"
proof (induction as arbitrary: i)
  case (Cons a as)
  then show ?case by (cases as; cases i) auto
qed simp

lemma linked_update: "p \<notin> set (butlast as) \<Longrightarrow> linked (h(p := v)) as = linked h as"
  by (induction h as rule: linked.induct) auto

lemma unat_end:
  assumes "unat (a :: uint) + 8 * unat n < 2 ^ 32"
  shows "unat (a + n * 8) = unat a + 8 * unat n"
proof -
  have "unat (n * 8) = unat n * 8" using assms by (subst unat_mult_lem [THEN iffD1]) auto
  then show ?thesis using assms by (subst unat_add_lem [THEN iffD1]) auto
qed

lemma bend_ge: "unat a \<le> bend s a"
  by (simp add: bend_def)

lemma blocks_next:
  assumes "blocks s as" and "i < length as"
  shows "hptr s (as ! i) = as ! (Suc i mod length as)"
proof (cases "Suc i < length as")
  case True
  then show ?thesis using assms linked_nth [of "hptr s" "as @ [base s]" i] by (simp add: blocks_def nth_append)
next
  case False
  then have "i = length as - 1" "as \<noteq> []" using assms by auto
  then show ?thesis using assms(1) by (auto simp: blocks_def linked_snoc last_conv_nth hd_conv_nth)
qed

lemma blocks_less:
  assumes "blocks s as" and "i < j" and "j < length as"
  shows "bend s (as ! i) < unat (as ! j)" and "as ! i < as ! j"
proof -
  show "bend s (as ! i) < unat (as ! j)" using assms by (simp add: blocks_def good_def sorted_wrt_iff_nth_less)
  then show "as ! i < as ! j" using bend_ge [of "as ! i" s] by (simp add: word_less_nat_alt)
qed

text \<open>The place of a block in the list: the last block before it.\<close>

definition place :: "uint list \<Rightarrow> uint \<Rightarrow> nat \<Rightarrow> bool" where
  "place as bp j \<longleftrightarrow> j < length as \<and> as ! j < bp \<and> (Suc j < length as \<longrightarrow> bp < as ! Suc j)"

lemma place_order:
  assumes "blocks s as" and "place as bp j" and "i < length as"
  shows "as ! i < bp \<longleftrightarrow> i \<le> j" and "bp < as ! i \<longleftrightarrow> j < i"
proof -
  have lt: "as ! x < as ! y" if "x < y" "y < length as" for x y using blocks_less(2) [OF assms(1) that] .
  have j: "j < length as" "as ! j < bp" "Suc j < length as \<Longrightarrow> bp < as ! Suc j" using assms(2) by (auto simp: place_def)
  have 1: "i \<le> j \<Longrightarrow> as ! i < bp" using j lt [of i j] by (auto simp: le_eq_less_or_eq)
  have "bp < as ! i" if "j < i"
  proof (cases "i = Suc j")
    case False
    then have "Suc j < i" using that by simp
    then have "as ! Suc j < as ! i" "bp < as ! Suc j" using lt [of "Suc j" i] j(3) assms(3) by auto
    then show ?thesis by simp
  qed (use j(3) assms(3) in simp)
  with 1 show "as ! i < bp \<longleftrightarrow> i \<le> j" "bp < as ! i \<longleftrightarrow> j < i"
    by (meson not_le less_asym)+
qed

lemma find_stops:
  assumes "blocks s as" and "place as bp j" and "i < length as"
  shows "(bp > as ! i \<and> bp < hptr s (as ! i) \<or>
      as ! i \<ge> hptr s (as ! i) \<and> (bp > as ! i \<or> bp < hptr s (as ! i))) \<longleftrightarrow> i = j"
proof (cases "Suc i < length as")
  case True
  then have "hptr s (as ! i) = as ! Suc i" using blocks_next [OF assms(1,3)] by simp
  then show ?thesis
    using place_order [OF assms(1,2), of i] place_order [OF assms(1,2), of "Suc i"] blocks_less(2) [OF assms(1), of i "Suc i"] True
    by auto
next
  case False
  then have i: "i = length as - 1" "0 < length as" using assms(3) by auto
  then have "hptr s (as ! i) = as ! 0" using blocks_next [OF assms(1,3)] by simp
  moreover have "as ! 0 \<le> as ! i" using blocks_less(2) [OF assms(1), of 0 i] i by (cases "i = 0") auto
  moreover have "j \<le> i" using assms(2) i by (auto simp: place_def)
  ultimately show ?thesis
    using place_order [OF assms(1,2), of i] place_order [OF assms(1,2), of 0] assms(3) i(2) by auto
qed

lemma cycle_distance:
  assumes "(i :: nat) < n" and "j < n"
  shows "\<exists>d < n. (i + d) mod n = j"
proof (cases "i \<le> j")
  case True
  then show ?thesis using assms by (intro exI [of _ "j - i"]) auto
next
  case False
  then show ?thesis using assms by (intro exI [of _ "n + j - i"]) auto
qed

lemma free_find_place:
  assumes "blocks s as" and "place as bp j"
  shows "i < length as \<Longrightarrow> (i + d) mod length as = j \<Longrightarrow> d < k \<Longrightarrow> free_find k bp (as ! i) s = Ok (as ! j) s"
proof (induction d arbitrary: i k)
  case 0
  then show ?case using find_stops [OF assms, of i] by (cases k) (auto simp: kop_defs)
next
  case (Suc d)
  then obtain k' where k: "k = Suc k'" "d < k'" by (cases k) auto
  let ?i = "Suc i mod length as"
  show ?case
  proof (cases "i = j")
    case True
    then show ?thesis using find_stops [OF assms, of i] Suc.prems k by (auto simp: kop_defs)
  next
    case False
    then have "free_find k bp (as ! i) s = free_find k' bp (as ! ?i) s"
      using find_stops [OF assms Suc.prems(1)] blocks_next [OF assms(1) Suc.prems(1)] k by (auto simp: kop_defs)
    also have "\<dots> = Ok (as ! j) s"
      using Suc.prems k by (intro Suc.IH) (auto simp: mod_simps intro: mod_less_divisor)
    finally show ?thesis .
  qed
qed

lemma good_simps [simp]:
  "good s []"
  "good s (a # as) \<longleftrightarrow> 8 dvd unat a \<and> bend s a < 2 ^ 32 \<and> (\<forall>b \<in> set as. bend s a < unat b) \<and> good s as"
  "good s (xs @ as) \<longleftrightarrow> good s xs \<and> good s as \<and> (\<forall>a \<in> set xs. \<forall>b \<in> set as. bend s a < unat b)"
  by (auto simp: good_def sorted_wrt_append)

lemma good_cong:
  assumes "\<And>a. a \<in> set as \<Longrightarrow> hsize s' a = hsize s a"
  shows "good s' as = good s as"
  using assms by (induction as) (auto simp: bend_def)

lemma linked_from:
  assumes "linked h (p # zs)" and "zs \<noteq> []" and "bp \<notin> set (butlast zs)"
  shows "linked (h(bp := h p)) (bp # zs)"
proof (cases zs)
  case (Cons z zs')
  then show ?thesis using assms linked_update [of bp zs h "h p"] by auto
qed (use assms in simp)

lemma bend_update [simp]:
  "bend (s\<lparr>hptr := f\<rparr>) = bend s" "bend (s\<lparr>freep := p\<rparr>) = bend s"
  by (auto simp: bend_def)

lemma block_update [simp]:
  "block (s\<lparr>hptr := f\<rparr>) = block s" "block (s\<lparr>freep := p\<rparr>) = block s"
  "free_bytes (s\<lparr>hptr := f\<rparr>) = free_bytes s" "free_bytes (s\<lparr>freep := p\<rparr>) = free_bytes s"
  by (auto simp: block_def free_bytes_def)

lemma bend_hsize: "bend (s\<lparr>hsize := (hsize s)(b := n)\<rparr>) a = (if a = b then unat b + 8 * unat n else bend s a)"
  by (simp add: bend_def)

lemma block_hsize:
  "block (s\<lparr>hsize := (hsize s)(b := n)\<rparr>) a = (if a = b then {unat b ..< unat b + 8 * unat n} else block s a)"
  by (simp add: block_def bend_hsize)

lemma blocks_split:
  assumes "blocks s (xs @ p # ys)"
  shows "linked (hptr s) (xs @ [p])" and "linked (hptr s) (p # ys @ [base s])" and "base s = hd (xs @ [p])"
    and "hptr s p = hd (ys @ [base s])" and "unat (base s) \<le> unat p"
proof -
  show l: "linked (hptr s) (xs @ [p])" "linked (hptr s) (p # ys @ [base s])"
    using assms linked_append [of "hptr s" xs p "ys @ [base s]"] by (auto simp: blocks_def)
  show b: "base s = hd (xs @ [p])" using assms by (cases xs) (auto simp: blocks_def)
  show "hptr s p = hd (ys @ [base s])" using l(2) by (cases ys) auto
  show "unat (base s) \<le> unat p"
    using b assms bend_ge [of "hd xs" s] by (cases xs) (auto simp: blocks_def)
qed

text \<open>
  The state between the two joins of \<open>free\<close>: the block \<open>bp\<close> points to the rest \<open>ys\<close> of the list
  after \<open>p\<close>, but \<open>p\<close> does not point to it yet.
\<close>

definition hanging :: "'a uheap_scheme \<Rightarrow> uint list \<Rightarrow> uint \<Rightarrow> uint \<Rightarrow> uint list \<Rightarrow> bool" where
  "hanging s xs p bp ys \<longleftrightarrow> hd (xs @ [p]) = base s \<and> base s \<noteq> 0 \<and> hsize s (base s) = 0 \<and>
     hsize s bp \<noteq> 0 \<and> (\<forall>a \<in> set (tl (xs @ p # ys)). hsize s a \<noteq> 0) \<and>
     linked (hptr s) (xs @ [p]) \<and> linked (hptr s) (bp # ys @ [base s]) \<and>
     good s (xs @ p # ys) \<and> good s (bp # ys) \<and> p < bp \<and> bend s p \<le> unat bp"

text \<open>A block may be freed at a place where it lies between the blocks of the list.\<close>

definition fits_at :: "'a uheap_scheme \<Rightarrow> uint \<Rightarrow> uint \<Rightarrow> uint list \<Rightarrow> bool" where
  "fits_at s p bp ys \<longleftrightarrow> p < bp \<and> bend s p \<le> unat bp \<and> (\<forall>q \<in> set ys. bend s bp \<le> unat q) \<and>
     bend s bp < 2 ^ 32 \<and> 8 dvd unat bp \<and> hsize s bp \<noteq> 0"

lemma sorted_fresh:
  assumes "good s (xs @ p # ys)" and "p < bp" and "\<forall>q \<in> set ys. bend s bp \<le> unat q" and "hsize s bp \<noteq> 0"
  shows "bp \<notin> set (xs @ p # ys)"
proof -
  have "unat a < unat p" if "a \<in> set xs" for a
    using assms(1) that bend_ge [of a s] by fastforce
  moreover have "unat bp < bend s bp" using assms(4) by (simp add: bend_def unat_gt_0)
  ultimately show ?thesis using assms(2,3) by (fastforce simp: word_less_nat_alt)
qed

lemma fits_fresh: "blocks s (xs @ p # ys) \<Longrightarrow> fits_at s p bp ys \<Longrightarrow> bp \<notin> set (xs @ p # ys)"
  unfolding blocks_def fits_at_def by (rule sorted_fresh) blast+

lemma fits_end: "fits_at s p bp ys \<Longrightarrow> unat (bp + hsize s bp * 8) = bend s bp"
  by (simp add: fits_at_def bend_def unat_end)

lemma join_next_apart:
  assumes "blocks s (xs @ p # ys)" and "fits_at s p bp ys" and "bp + hsize s bp * 8 \<noteq> hptr s p"
  shows "hanging (join_next bp p s) xs p bp ys" and "hsize (join_next bp p s) = hsize s"
proof -
  note bp = fits_fresh [OF assms(1,2)] and l = blocks_split [OF assms(1)]
  have j: "join_next bp p s = s\<lparr>hptr := (hptr s)(bp := hptr s p)\<rparr>"
    using assms(3) by (simp add: join_next_def Let_def)
  then show "hsize (join_next bp p s) = hsize s" by simp
  have g: "good s (xs @ p # ys)" "\<forall>a \<in> set (tl (xs @ p # ys)). hsize s a \<noteq> 0" "base s \<noteq> 0" "hsize s (base s) = 0"
    using assms(1) unfolding blocks_def by auto
  have "bend s bp < unat q" if "q \<in> set ys" for q
  proof (cases ys)
    case (Cons y ys')
    then have "bend s bp \<noteq> unat y" using assms(3) l(4) fits_end [OF assms(2)] by (simp add: word_unat_eq_iff)
    moreover have "bend s bp \<le> unat y" using assms(2) Cons by (simp add: fits_at_def)
    moreover have "q \<noteq> y \<Longrightarrow> bend s y < unat q" using g(1) that Cons by simp
    ultimately show ?thesis using bend_ge [of y s] by (cases "q = y") auto
  qed (use that in simp)
  then have "good s (bp # ys)" using assms(2) g(1) by (simp add: fits_at_def)
  moreover have "linked ((hptr s)(bp := hptr s p)) (xs @ [p])" using l(1) bp by (subst linked_update) auto
  moreover have "linked ((hptr s)(bp := hptr s p)) (bp # ys @ [base s])" using l(2) bp by (intro linked_from) auto
  ultimately show "hanging (join_next bp p s) xs p bp ys"
    using g l(3) assms(2) good_cong [of _ "s\<lparr>hptr := (hptr s)(bp := hptr s p)\<rparr>" s]
    unfolding j hanging_def fits_at_def by simp
qed

lemma join_next_joined:
  assumes "blocks s (xs @ p # q # ys)" and "fits_at s p bp (q # ys)" and "bp + hsize s bp * 8 = q"
  shows "hanging (join_next bp p s) xs p bp ys"
    and "hsize (join_next bp p s) = (hsize s)(bp := hsize s bp + hsize s q)"
    and "unat (hsize s bp + hsize s q) = unat (hsize s bp) + unat (hsize s q)"
    and "bend s bp = unat q"
proof -
  let ?n = "hsize s bp + hsize s q"
  note bp = fits_fresh [OF assms(1,2)] and l = blocks_split [OF assms(1)]
  have j: "join_next bp p s = s\<lparr>hsize := (hsize s)(bp := ?n), hptr := (hptr s)(bp := hptr s q)\<rparr>"
    using assms(3) l(4) by (simp add: join_next_def Let_def)
  then show h: "hsize (join_next bp p s) = (hsize s)(bp := hsize s bp + hsize s q)" by simp
  have g: "good s (xs @ p # q # ys)" "\<forall>a \<in> set (tl (xs @ p # q # ys)). hsize s a \<noteq> 0" "base s \<noteq> 0" "hsize s (base s) = 0"
    using assms(1) unfolding blocks_def by auto
  show eb: "bend s bp = unat q" using fits_end [OF assms(2)] assms(3) by simp
  show n: "unat ?n = unat (hsize s bp) + unat (hsize s q)"
    using eb g(1) by (subst unat_add_lem [THEN iffD1]) (auto simp: bend_def)
  have e: "bend (join_next bp p s) bp = bend s q" using eb n h by (simp add: bend_def)
  have same: "bend (join_next bp p s) p = bend s p" using h bp by (auto simp: bend_def)
  have "good (join_next bp p s) (xs @ p # ys) = good s (xs @ p # ys)" using bp h by (intro good_cong) auto
  moreover have "good (join_next bp p s) ys = good s ys" using bp h by (intro good_cong) auto
  ultimately have "good (join_next bp p s) (xs @ p # ys)" "good (join_next bp p s) (bp # ys)"
    using g(1) e assms(2) by (simp_all add: fits_at_def)
  moreover have "linked ((hptr s)(bp := hptr s q)) (xs @ [p])" using l(1) bp by (subst linked_update) auto
  moreover have "linked ((hptr s)(bp := hptr s q)) (bp # ys @ [base s])" using l(2) bp by (intro linked_from) auto
  moreover have "base s \<noteq> bp" using l(3) bp by (cases xs) auto
  moreover have "?n \<noteq> 0" using n assms(2) by (auto simp: fits_at_def unat_eq_0 [symmetric])
  moreover have "\<forall>a \<in> set (tl (xs @ p # ys)). a \<noteq> bp \<and> hsize s a \<noteq> 0" using g(2) bp by (cases xs) auto
  ultimately show "hanging (join_next bp p s) xs p bp ys"
    using g(3,4) l(3) assms(2) same bp unfolding hanging_def fits_at_def by (simp add: j)
qed

lemma hanging_prev:
  assumes "hanging s xs p bp ys"
  shows "p \<notin> set (xs @ bp # ys)" and "bp \<notin> set (xs @ p # ys)" and "unat (p + hsize s p * 8) = bend s p" and "good s xs"
proof -
  have g: "good s (xs @ p # ys)" "good s (bp # ys)" "p < bp" using assms by (auto simp: hanging_def)
  show "bp \<notin> set (xs @ p # ys)"
    using sorted_fresh [OF g(1,3)] g(2) assms by (simp add: hanging_def less_imp_le)
  have "unat p \<noteq> unat a" if "a \<in> set xs \<union> set ys" for a
    using that g(1) bend_ge [of a s] bend_ge [of p s] by fastforce
  then show "p \<notin> set (xs @ bp # ys)" using g(3) by auto
  show "unat (p + hsize s p * 8) = bend s p" using g(1) by (simp add: bend_def unat_end)
  show "good s xs" using g(1) by simp
qed

lemma join_prev_apart:
  assumes "hanging s xs p bp ys" and "p + hsize s p * 8 \<noteq> bp"
  shows "blocks ((join_prev bp p s)\<lparr>freep := p\<rparr>) (xs @ p # bp # ys)" and "hsize (join_prev bp p s) = hsize s"
proof -
  let ?s = "(join_prev bp p s)\<lparr>freep := p\<rparr>"
  note h = hanging_prev [OF assms(1)] and H = assms(1) [unfolded hanging_def]
  have j: "join_prev bp p s = s\<lparr>hptr := (hptr s)(p := bp)\<rparr>" using assms(2) by (simp add: join_prev_def)
  then show "hsize (join_prev bp p s) = hsize s" by simp
  have "bend s p \<noteq> unat bp" using assms(2) h(3) by (simp add: word_unat_eq_iff)
  then have lt: "bend s p < unat bp" using H by auto
  moreover have "bend s a < unat bp" if "a \<in> set xs" for a
  proof -
    have "bend s a < unat p" using H that by simp
    then show ?thesis using lt bend_ge [of p s] by linarith
  qed
  ultimately have "good s (xs @ p # bp # ys)" using H by auto
  then have "good ?s (xs @ p # bp # ys)" by (subst good_cong [of _ _ s]) (simp_all add: j)
  moreover have "linked ((hptr s)(p := bp)) (xs @ [p])" using H h(1) by (subst linked_update) auto
  moreover have "linked ((hptr s)(p := bp)) (bp # ys @ [base s])" using H h(1) by (subst linked_update) auto
  moreover have "\<forall>a \<in> set (tl (xs @ p # bp # ys)). hsize s a \<noteq> 0" using H by (cases xs) auto
  moreover have "hd (xs @ p # bp # ys) = base s" using H by (cases xs) auto
  ultimately show "blocks ?s (xs @ p # bp # ys)"
    using H linked_append [of "(hptr s)(p := bp)" xs p "bp # ys @ [base s]"] unfolding blocks_def j by auto
qed

lemma join_prev_joined:
  assumes "hanging s xs p bp ys" and "p + hsize s p * 8 = bp"
  shows "blocks ((join_prev bp p s)\<lparr>freep := p\<rparr>) (xs @ p # ys)"
    and "hsize (join_prev bp p s) = (hsize s)(p := hsize s p + hsize s bp)"
    and "unat (hsize s p + hsize s bp) = unat (hsize s p) + unat (hsize s bp)"
    and "bend s p = unat bp"
proof -
  let ?s = "(join_prev bp p s)\<lparr>freep := p\<rparr>" and ?n = "hsize s p + hsize s bp"
  note h = hanging_prev [OF assms(1)] and H = assms(1) [unfolded hanging_def]
  have j: "join_prev bp p s = s\<lparr>hsize := (hsize s)(p := ?n), hptr := (hptr s)(p := hptr s bp)\<rparr>"
    using assms(2) by (simp add: join_prev_def)
  then show hs: "hsize (join_prev bp p s) = (hsize s)(p := ?n)" by simp
  show e: "bend s p = unat bp" using h(3) assms(2) by simp
  show n: "unat ?n = unat (hsize s p) + unat (hsize s bp)"
    using e H by (subst unat_add_lem [THEN iffD1]) (auto simp: bend_def)
  have pn: "p \<noteq> base s" using assms(2) H by auto
  have bs: "bend ?s p = bend s bp" using e n hs by (simp add: bend_def)
  have "good ?s xs = good s xs" "good ?s ys = good s ys" using h(1) hs by (auto intro!: good_cong)
  moreover have "bend ?s a = bend s a" if "a \<in> set xs \<union> set ys" for a using that h(1) hs by (auto simp: bend_def)
  ultimately have "good ?s (xs @ p # ys)" using H bs by simp
  moreover have "linked ((hptr s)(p := hptr s bp)) (xs @ [p])" using H h(1) by (subst linked_update) auto
  moreover have "linked ((hptr s)(p := hptr s bp)) (p # ys @ [base s])" using H h(1) by (intro linked_from) auto
  moreover have "\<forall>a \<in> set (tl (xs @ p # ys)). a \<noteq> p \<longrightarrow> hsize s a \<noteq> 0" using H by auto
  moreover have "hd (xs @ p # ys) = base s" using H by (cases xs) auto
  moreover have "?n \<noteq> 0" using n H by (auto simp: unat_eq_0 [symmetric])
  ultimately show "blocks ?s (xs @ p # ys)"
    using H pn linked_append [of "(hptr s)(p := hptr s bp)" xs p "ys @ [base s]"] unfolding blocks_def j by auto
qed

lemma free_bytes_simps [simp]:
  "free_bytes s [] = {}" "free_bytes s (a # as) = block s a \<union> free_bytes s as"
  "free_bytes s (xs @ as) = free_bytes s xs \<union> free_bytes s as"
  by (auto simp: free_bytes_def)

lemma free_bytes_cong: "(\<And>a. a \<in> set as \<Longrightarrow> hsize s' a = hsize s a) \<Longrightarrow> free_bytes s' as = free_bytes s as"
  by (simp add: free_bytes_def block_def bend_def)

lemma block_join:
  assumes "bend s a = unat b" and "hsize s' a = hsize s a + hsize s b"
    and "unat (hsize s a + hsize s b) = unat (hsize s a) + unat (hsize s b)"
  shows "block s' a = block s a \<union> block s b"
proof -
  have "unat a \<le> unat b" "unat b \<le> bend s b" "bend s' a = bend s b" using assms bend_ge [of a s] by (auto simp: bend_def)
  then show ?thesis using assms(1) ivl_disj_un(17) [of "unat a" "unat b" "bend s b"] by (simp add: block_def)
qed

lemma join_next_ok:
  assumes "blocks s (xs @ p # ys)" and "fits_at s p bp ys"
  shows "\<exists>ys'. hanging (join_next bp p s) xs p bp ys' \<and>
    free_bytes (join_next bp p s) (bp # xs @ p # ys') = free_bytes s (bp # xs @ p # ys) \<and>
    hsize s bp \<le> hsize (join_next bp p s) bp \<and> length ys' \<le> length ys"
proof (cases "bp + hsize s bp * 8 = hptr s p")
  case False
  from join_next_apart [OF assms False] show ?thesis
    by (intro exI [of _ ys]) (auto simp: free_bytes_cong [of _ "join_next bp p s" s] block_def bend_def)
next
  case True
  have "ys \<noteq> []"
  proof
    assume "ys = []"
    then have "bend s bp = unat (base s)" using blocks_split(4) [OF assms(1)] True fits_end [OF assms(2)] by simp
    moreover have "unat p < unat bp" using assms(2) by (simp add: fits_at_def word_less_nat_alt)
    ultimately show False using blocks_split(5) [OF assms(1)] bend_ge [of bp s] by simp
  qed
  then obtain q ys' where ys: "ys = q # ys'" by (cases ys) auto
  then have "bp + hsize s bp * 8 = q" using blocks_split(4) [OF assms(1)] True by simp
  note J = join_next_joined [OF assms [unfolded ys] this]
  have bp: "bp \<notin> set (xs @ p # ys)" by (rule fits_fresh [OF assms])
  have "block (join_next bp p s) bp = block s bp \<union> block s q" using J by (intro block_join) auto
  moreover have "free_bytes (join_next bp p s) (xs @ p # ys') = free_bytes s (xs @ p # ys')"
    using J(2) bp ys by (intro free_bytes_cong) auto
  moreover have "hsize s bp \<le> hsize s bp + hsize s q" using J(3) by (simp add: word_le_nat_alt)
  ultimately show ?thesis using J(1,2) ys by (intro exI [of _ ys']) auto
qed

lemma join_prev_ok:
  assumes "hanging s xs p bp ys"
  shows "\<exists>zs. blocks ((join_prev bp p s)\<lparr>freep := p\<rparr>) zs \<and>
    free_bytes (join_prev bp p s) zs = free_bytes s (bp # xs @ p # ys) \<and>
    (\<exists>z \<in> set zs. hsize s bp \<le> hsize (join_prev bp p s) z) \<and> length zs \<le> length xs + 2 + length ys"
proof (cases "p + hsize s p * 8 = bp")
  case False
  from join_prev_apart [OF assms False] show ?thesis
    by (intro exI [of _ "xs @ p # bp # ys"]) (auto simp: free_bytes_cong [of _ "join_prev bp p s" s] block_def bend_def)
next
  case True
  note J = join_prev_joined [OF assms True] and h = hanging_prev [OF assms]
  have "block (join_prev bp p s) p = block s p \<union> block s bp" using J by (intro block_join) auto
  moreover have "free_bytes (join_prev bp p s) (xs @ ys) = free_bytes s (xs @ ys)"
    using J(2) h(1) by (intro free_bytes_cong) auto
  moreover have "hsize s bp \<le> hsize s p + hsize s bp" using J(3) by (simp add: word_le_nat_alt)
  ultimately show ?thesis using J(1,2) by (intro exI [of _ "xs @ p # ys"]) auto
qed

text \<open>\<open>free\<close> of a block that lies between the blocks of the list.\<close>

lemma free_ok:
  assumes "blocks s as" and "place as bp j" and "fits_at s (as ! j) bp (drop (Suc j) as)" and "length as < k"
  shows "\<exists>s' zs. free k (bp + 8) s = Ok () s' \<and> blocks s' zs \<and> free_bytes s' zs = free_bytes s as \<union> block s bp \<and>
    (\<exists>z \<in> set zs. hsize s bp \<le> hsize s' z) \<and> length zs \<le> Suc (length as) \<and>
    answer s' = answer s \<and> trace s' = trace s \<and> base s' = base s"
proof -
  have j: "j < length as" using assms(2) by (simp add: place_def)
  have as: "as = take j as @ as ! j # drop (Suc j) as" using j by (rule id_take_nth_drop)
  obtain i where i: "i < length as" "as ! i = freep s" using assms(1) by (auto simp: blocks_def in_set_conv_nth)
  obtain d where "d < length as" "(i + d) mod length as = j" using cycle_distance [OF i(1) j] by blast
  then have f: "free_find k bp (freep s) s = Ok (as ! j) s"
    using free_find_place [OF assms(1,2) i(1), of d k] i(2) assms(4) by simp
  let ?s1 = "join_next bp (as ! j) s"
  obtain ys where ys: "hanging ?s1 (take j as) (as ! j) bp ys" "hsize s bp \<le> hsize ?s1 bp"
      "free_bytes ?s1 (bp # take j as @ as ! j # ys) = free_bytes s (bp # take j as @ as ! j # drop (Suc j) as)"
      "length ys \<le> length as - Suc j"
    using join_next_ok [of s "take j as" "as ! j"] assms(1,3) as by (metis length_drop)
  let ?s2 = "(join_prev bp (as ! j) ?s1)\<lparr>freep := as ! j\<rparr>"
  obtain zs where zs: "blocks ?s2 zs" "free_bytes ?s2 zs = free_bytes ?s1 (bp # take j as @ as ! j # ys)"
      "\<exists>z \<in> set zs. hsize ?s1 bp \<le> hsize ?s2 z" "length zs \<le> length (take j as) + 2 + length ys"
    using join_prev_ok [OF ys(1)] by auto
  have "free k (bp + 8) s = Ok () ?s2"
    using f by (simp add: free_def Let_def kop_defs)
  moreover have "free_bytes ?s2 zs = free_bytes s as \<union> block s bp"
    using zs(2) ys(3) as by (metis Un_commute free_bytes_simps(2))
  moreover have "\<exists>z \<in> set zs. hsize s bp \<le> hsize ?s2 z" using zs(3) ys(2) by (meson order_trans)
  moreover have "length zs \<le> Suc (length as)" using zs(4) ys(4) j by simp
  ultimately show ?thesis using zs(1)
    by (intro exI [of _ ?s2] exI [of _ zs]) (simp add: join_next_def join_prev_def Let_def)
qed

text \<open>A block that meets no free block has its place in the list.\<close>

lemma blocks_size:
  assumes "blocks s as" and "Suc i < length as"
  shows "unat (as ! Suc i) \<in> block s (as ! Suc i)"
proof -
  have "as ! Suc i \<in> set (tl as)" using assms(2) by (auto simp: in_set_conv_nth nth_tl intro!: exI [of _ i])
  then have "hsize s (as ! Suc i) \<noteq> 0" using assms(1) by (simp add: blocks_def)
  then show ?thesis by (simp add: block_def bend_def unat_gt_0)
qed

lemma place_exists:
  assumes b: "blocks s as" and "base s < bp" and "block s bp \<inter> free_bytes s as = {}"
    and "bend s bp < 2 ^ 32" and "8 dvd unat bp" and n: "hsize s bp \<noteq> 0"
  shows "\<exists>j. place as bp j \<and> fits_at s (as ! j) bp (drop (Suc j) as)"
proof -
  let ?J = "{j. j < length as \<and> as ! j < bp}"
  define j where "j = Max ?J"
  have "0 \<in> ?J" using assms(1,2) by (auto simp: blocks_def hd_conv_nth)
  then have "j \<in> ?J" unfolding j_def by (intro Max_in) auto
  then have j: "j < length as" "as ! j < bp" by auto
  have up: "i \<le> j" if "i < length as" "as ! i < bp" for i using that unfolding j_def by (intro Max_ge) auto
  have dis: "x \<notin> block s a" if "x \<in> block s bp" "a \<in> set as" for x a
    using assms(3) that by (auto simp: free_bytes_def)
  have in_bp: "unat bp \<in> block s bp" using n by (simp add: block_def bend_def unat_gt_0)
  have next_ok: "bp < as ! i" if i: "j < i" "i < length as" for i
  proof -
    have "\<not> as ! i < bp" using up [OF i(2)] i(1) by auto
    moreover have "as ! i \<noteq> bp" using dis [OF in_bp, of "as ! i"] blocks_size [OF b, of "i - 1"] i by auto
    ultimately show ?thesis by simp
  qed
  have "bend s (as ! j) \<le> unat bp"
  proof (rule ccontr)
    assume "\<not> bend s (as ! j) \<le> unat bp"
    then have "unat bp \<in> block s (as ! j)" using j(2) by (simp add: block_def word_less_nat_alt)
    then show False using dis [OF in_bp] j(1) by simp
  qed
  moreover have "bend s bp \<le> unat (as ! i)" if "j < i" "i < length as" for i
  proof (rule ccontr)
    assume "\<not> bend s bp \<le> unat (as ! i)"
    then have "unat (as ! i) \<in> block s bp" using next_ok [OF that] by (simp add: block_def word_less_nat_alt)
    then show False using dis [of "unat (as ! i)" "as ! i"] blocks_size [OF b, of "i - 1"] that by simp
  qed
  then have "\<forall>q \<in> set (drop (Suc j) as). bend s bp \<le> unat q" by (auto simp: in_set_conv_nth)
  ultimately show ?thesis
    using j next_ok [of "Suc j"] assms(4,5) n by (intro exI [of _ j]) (auto simp: place_def fits_at_def)
qed

section \<open>Allocation\<close>

text \<open>What taking a block of \<open>n\<close> units leaves: the block starts at \<open>r\<close> and was free.\<close>

definition taken :: "'a uheap_scheme \<Rightarrow> uint list \<Rightarrow> uint \<Rightarrow> uint \<Rightarrow> 'a uheap_scheme \<Rightarrow> uint list \<Rightarrow> bool" where
  "taken s as n r s' zs \<longleftrightarrow> blocks s' zs \<and> hsize s' r = n \<and> bend s' r < 2 ^ 32 \<and> 8 dvd unat r \<and> base s < r \<and>
     free_bytes s as = free_bytes s' zs \<union> block s' r \<and> free_bytes s' zs \<inter> block s' r = {} \<and>
     answer s' = answer s \<and> trace s' = trace s \<and> base s' = base s"

lemma good_disjoint:
  assumes "good s (xs @ p # ys)"
  shows "free_bytes s (xs @ ys) \<inter> block s p = {}"
proof -
  have "block s a \<inter> block s p = {}" if "a \<in> set (xs @ ys)" for a
  proof (cases "a \<in> set xs")
    case True
    then have "bend s a < unat p" using assms by simp
    then show ?thesis by (auto simp: block_def)
  next
    case False
    then have "bend s p < unat a" using assms that by simp
    then show ?thesis by (auto simp: block_def)
  qed
  then show "free_bytes s (xs @ ys) \<inter> block s p = {}" by (auto simp: free_bytes_def)
qed

lemma good_distinct: "good s as \<Longrightarrow> distinct as"
proof (induction as)
  case (Cons a as)
  then show ?case using bend_ge [of a s] by fastforce
qed simp

lemma base_below:
  assumes "blocks s (xs @ p # ys)" and "xs \<noteq> []"
  shows "base s \<in> set xs" and "base s < p"
proof -
  have "hd (xs @ p # ys) = base s" "good s (xs @ p # ys)" using assms(1) by (auto simp: blocks_def)
  moreover from this show "base s \<in> set xs" using assms(2) by (metis hd_append2 list.set_sel(1))
  ultimately have "bend s (base s) < unat p" by simp
  then show "base s < p" using bend_ge [of "base s" s] by (simp add: word_less_nat_alt)
qed

lemma take_exact:
  assumes "blocks s (xs @ p # ys)" and "xs \<noteq> []" and "hsize s p = n" and "n \<noteq> 0"
  shows "\<exists>s'. take_block n (last xs) p s = Ok (p + 8) s' \<and> taken s (xs @ p # ys) n p s' (xs @ ys)"
proof -
  obtain xs' v where xs: "xs = xs' @ [v]" using assms(2) by (metis append_butlast_last_id)
  let ?s = "s\<lparr>hptr := (hptr s)(v := hptr s p), freep := v\<rparr>"
  have g: "good s (xs @ p # ys)" using assms(1) by (simp add: blocks_def)
  have v: "v \<notin> set (xs' @ ys)" using good_distinct [OF g] xs by auto
  have "linked (hptr s) (xs' @ v # p # ys @ [base s])" using assms(1) xs by (simp add: blocks_def)
  then have l: "linked (hptr s) (xs' @ [v])" "linked (hptr s) (p # ys @ [base s])"
    using linked_append [of "hptr s" xs' v "p # ys @ [base s]"] by auto
  have "linked ((hptr s)(v := hptr s p)) (xs' @ [v])" using l(1) v by (subst linked_update) auto
  moreover have "linked ((hptr s)(v := hptr s p)) (v # ys @ [base s])" using l(2) v by (intro linked_from) auto
  ultimately have "linked (hptr ?s) ((xs @ ys) @ [base s])"
    using xs linked_append [of "(hptr s)(v := hptr s p)" xs' v "ys @ [base s]"] by simp
  moreover have "good ?s (xs @ ys)" using g by (subst good_cong [of _ _ s]) auto
  moreover have "hd (xs @ ys) = base s" using assms(1,2) by (auto simp: blocks_def hd_append)
  moreover have "\<forall>a \<in> set (tl (xs @ ys)). hsize s a \<noteq> 0" using assms(1,2) by (cases xs) (auto simp: blocks_def)
  ultimately have "blocks ?s (xs @ ys)" using assms(1) xs unfolding blocks_def by auto
  moreover have "base s < p" by (rule base_below(2) [OF assms(1,2)])
  ultimately have "taken s (xs @ p # ys) n p ?s (xs @ ys)"
    using good_disjoint [OF g] g assms(3) by (auto simp: taken_def)
  moreover have "take_block n (last xs) p s = Ok (p + 8) ?s" using assms(3) xs by (simp add: take_block_def kop_defs)
  ultimately show ?thesis by blast
qed

lemma take_part:
  assumes "blocks s (xs @ p # ys)" and "xs \<noteq> []" and "n < hsize s p" and "n \<noteq> 0"
  shows "\<exists>r s'. take_block n (last xs) p s = Ok (r + 8) s' \<and> taken s (xs @ p # ys) n r s' (xs @ p # ys)"
proof -
  let ?m = "hsize s p - n"
  let ?q = "p + ?m * 8"
  let ?s = "s\<lparr>hsize := (hsize s)(p := ?m, ?q := n), freep := last xs\<rparr>"
  have g: "good s (xs @ p # ys)" using assms(1) by (simp add: blocks_def)
  have m: "unat ?m = unat (hsize s p) - unat n" "unat n < unat (hsize s p)" "0 < unat n"
    using assms(3,4) unat_sub [OF less_imp_le [OF assms(3)]] by (auto simp: word_less_nat_alt unat_gt_0)
  then have q: "unat ?q = unat p + 8 * unat ?m" using g by (subst unat_end) (auto simp: bend_def)
  have qp: "unat p < unat ?q" "unat ?q < bend s p" using m q by (auto simp: bend_def)
  have "unat a \<noteq> unat ?q" if "a \<in> set (xs @ p # ys)" for a
  proof -
    have "a \<in> set xs \<Longrightarrow> bend s a < unat p" "a \<in> set ys \<Longrightarrow> bend s p < unat a" using g by auto
    then show ?thesis using that qp bend_ge [of a s] by (cases "a \<in> set xs"; cases "a = p") auto
  qed
  then have fresh: "?q \<notin> set (xs @ p # ys)" by blast
  have bp: "bend ?s p = unat ?q" "bend ?s ?q = bend s p"
    using fresh m q by (auto simp: bend_def)
  have others: "a \<in> set (xs @ ys) \<Longrightarrow> hsize ?s a = hsize s a" for a
    using good_distinct [OF g] fresh by auto
  have "good ?s xs = good s xs" "good ?s ys = good s ys" using others by (auto intro!: good_cong)
  moreover have "bend ?s a = bend s a" if "a \<in> set xs \<union> set ys" for a using others [of a] that by (auto simp: bend_def)
  ultimately have "good ?s (xs @ p # ys)" using g qp bp by (auto simp: le_less_trans)
  moreover have "base s \<in> set xs" "base s < p" using base_below [OF assms(1,2)] by auto
  then have "hsize ?s (base s) = 0" using others [of "base s"] assms(1) by (auto simp: blocks_def)
  moreover have "hsize ?s a \<noteq> 0" if "a \<in> set (tl (xs @ p # ys))" for a
  proof (cases "a = p")
    case True
    then show ?thesis using fresh m by (auto simp: unat_eq_0 [symmetric])
  next
    case False
    then have "a \<in> set (xs @ ys)" using that assms(2) by (cases xs) auto
    then show ?thesis using others [of a] that assms(1) by (simp add: blocks_def)
  qed
  ultimately have "blocks ?s (xs @ p # ys)" using assms(1,2) unfolding blocks_def by auto
  moreover have "free_bytes ?s (xs @ ys) = free_bytes s (xs @ ys)" using others by (rule free_bytes_cong)
  moreover have "block s p = block ?s p \<union> block ?s ?q" "block ?s p \<inter> block ?s ?q = {}"
    using bp qp by (auto simp: block_def)
  moreover have "free_bytes s (xs @ ys) \<inter> block s p = {}" by (rule good_disjoint [OF g])
  moreover have "base s < ?q" using \<open>base s < p\<close> qp(1) by (simp add: word_less_nat_alt)
  moreover have "8 dvd unat ?q" "bend ?s ?q < 2 ^ 32" using g q bp by auto
  ultimately have "taken s (xs @ p # ys) n ?q ?s (xs @ p # ys)" unfolding taken_def by auto
  moreover have "take_block n (last xs) p s = Ok (?q + 8) ?s"
    using assms(3) by (simp add: take_block_def kop_defs Let_def)
  ultimately show ?thesis by blast
qed

lemma take_ok:
  assumes b: "blocks s as" and i: "i < length as" and "n \<le> hsize s (as ! i)" and "n \<noteq> 0"
  shows "\<exists>r s' zs. take_block n (as ! ((i + length as - 1) mod length as)) (as ! i) s = Ok (r + 8) s' \<and>
    taken s as n r s' zs"
proof -
  have "i \<noteq> 0"
  proof
    assume "i = 0"
    then have "as ! i = base s" using b by (auto simp: blocks_def hd_conv_nth)
    then have "hsize s (as ! i) = 0" using b by (simp add: blocks_def)
    then show False using assms(3,4) by simp
  qed
  let ?xs = "take i as"
  have as: "as = ?xs @ as ! i # drop (Suc i) as" using i by (rule id_take_nth_drop)
  have xs: "?xs \<noteq> []" using \<open>i \<noteq> 0\<close> i by auto
  have "(i + length as - 1) mod length as = i - 1" using \<open>i \<noteq> 0\<close> i by (simp add: mod_if)
  moreover have "as ! (i - 1) = last ?xs" using \<open>i \<noteq> 0\<close> i last_conv_nth [OF xs] by simp
  ultimately have v: "as ! ((i + length as - 1) mod length as) = last ?xs" by simp
  have b': "blocks s (?xs @ as ! i # drop (Suc i) as)" using b as by simp
  show ?thesis
  proof (cases "hsize s (as ! i) = n")
    case True
    from take_exact [OF b' xs True assms(4)] show ?thesis unfolding v as [symmetric] by blast
  next
    case False
    then have "n < hsize s (as ! i)" using assms(3) by simp
    from take_part [OF b' xs this assms(4)] show ?thesis unfolding v as [symmetric] by blast
  qed
qed

definition grow :: "nat \<Rightarrow> nat \<Rightarrow> uint \<Rightarrow> ('a uheap_scheme, uint) kop" where
  "grow k f n =
     bindk (morecore f n) (\<lambda>p.
     if p = 0 then returnk 0
     else bindk (getk (\<lambda>s. s)) (\<lambda>s. malloc_loop k f n p (hptr s p)))"

lemma cycle_pred:
  assumes "(i :: nat) < n"
  shows "(Suc i mod n + n - 1) mod n = i"
  using assms by (cases "Suc i < n") (auto simp: not_less_eq less_Suc_eq)

lemma cycle_back:
  assumes "(i :: nat) < n" and "0 < d" and "d < n"
  shows "(i + d) mod n \<noteq> i"
  using assms by (cases "i + d < n") (auto simp: mod_if)

lemma malloc_scan:
  assumes b: "blocks s as" and fi: "fi < length as" "as ! fi = freep s"
  shows "i < length as \<Longrightarrow> (i + d) mod length as = fi \<Longrightarrow> d < length as \<Longrightarrow> d < k \<Longrightarrow>
    v = as ! ((i + length as - 1) mod length as) \<Longrightarrow>
    (\<exists>i' < length as. n \<le> hsize s (as ! i') \<and>
      malloc_loop k f n v (as ! i) s = take_block n (as ! ((i' + length as - 1) mod length as)) (as ! i') s) \<or>
    (\<forall>e \<le> d. hsize s (as ! ((i + e) mod length as)) < n) \<and> malloc_loop k f n v (as ! i) s = grow (k - d - 1) f n s"
proof (induction d arbitrary: i k v)
  case 0
  then obtain k' where k: "k = Suc k'" by (cases k) auto
  have i: "i = fi" using 0 by simp
  show ?case
  proof (cases "n \<le> hsize s (as ! i)")
    case True
    then show ?thesis using 0 k by (intro disjI1 exI [of _ i]) (simp add: kop_defs)
  next
    case False
    then have g: "malloc_loop k f n v (as ! i) s = grow (k - 0 - 1) f n s" using fi i k by (simp add: grow_def kop_defs)
    have "\<forall>e \<le> 0. hsize s (as ! ((i + e) mod length as)) < n" using False 0 by (simp add: not_le)
    then show ?thesis using g by blast
  qed
next
  case (Suc d)
  then obtain k' where k: "k = Suc k'" "d < k'" by (cases k) auto
  let ?i = "Suc i mod length as"
  show ?case
  proof (cases "n \<le> hsize s (as ! i)")
    case True
    then show ?thesis using Suc.prems k by (intro disjI1 exI [of _ i]) (simp add: kop_defs)
  next
    case False
    have "i \<noteq> fi" using cycle_back [OF Suc.prems(1), of "Suc d"] Suc.prems(2,3) by auto
    moreover have "distinct as" using good_distinct [of s as] b by (simp add: blocks_def)
    ultimately have "as ! i \<noteq> freep s" using fi Suc.prems(1) nth_eq_iff_index_eq [of as i fi] by simp
    then have step: "malloc_loop k f n v (as ! i) s = malloc_loop k' f n (as ! i) (as ! ?i) s"
      using False k blocks_next [OF b Suc.prems(1)] by (simp add: kop_defs)
    have i1: "?i < length as" using Suc.prems(1) by (intro mod_less_divisor) auto
    have i2: "(?i + d) mod length as = fi" using Suc.prems(2) by (simp add: mod_simps)
    have i3: "as ! i = as ! ((?i + length as - 1) mod length as)" using cycle_pred [OF Suc.prems(1)] by simp
    have ih: "(\<exists>i' < length as. n \<le> hsize s (as ! i') \<and>
        malloc_loop k' f n (as ! i) (as ! ?i) s = take_block n (as ! ((i' + length as - 1) mod length as)) (as ! i') s) \<or>
      (\<forall>e \<le> d. hsize s (as ! ((?i + e) mod length as)) < n) \<and> malloc_loop k' f n (as ! i) (as ! ?i) s = grow (k' - d - 1) f n s"
      by (rule Suc.IH [OF i1 i2 Suc_lessD [OF Suc.prems(3)] k(2) i3])
    have all: "hsize s (as ! ((i + e) mod length as)) < n"
      if "\<forall>e \<le> d. hsize s (as ! ((?i + e) mod length as)) < n" "e \<le> Suc d" for e
    proof (cases e)
      case 0
      then show ?thesis using False Suc.prems(1) by simp
    next
      case (Suc e')
      then show ?thesis using that by (auto simp: mod_simps dest!: spec [of _ e'])
    qed
    show ?thesis using ih
    proof
      assume "\<exists>i' < length as. n \<le> hsize s (as ! i') \<and>
        malloc_loop k' f n (as ! i) (as ! ?i) s = take_block n (as ! ((i' + length as - 1) mod length as)) (as ! i') s"
      then show ?thesis unfolding step by blast
    next
      assume "(\<forall>e \<le> d. hsize s (as ! ((?i + e) mod length as)) < n) \<and> malloc_loop k' f n (as ! i) (as ! ?i) s = grow (k' - d - 1) f n s"
      then show ?thesis unfolding step using all k by auto
    qed
  qed
qed

lemma malloc_first:
  assumes b: "blocks s as" and "length as \<le> k" and "n \<noteq> 0"
  shows "(\<exists>r s' zs. malloc_loop k f n (freep s) (hptr s (freep s)) s = Ok (r + 8) s' \<and> taken s as n r s' zs) \<or>
    (\<forall>a \<in> set as. hsize s a < n) \<and> malloc_loop k f n (freep s) (hptr s (freep s)) s = grow (k - length as) f n s"
proof -
  let ?n = "length as"
  obtain fi where fi: "fi < ?n" "as ! fi = freep s" using b by (auto simp: blocks_def in_set_conv_nth)
  let ?i = "Suc fi mod ?n"
  have i: "?i < ?n" "(?i + (?n - 1)) mod ?n = fi" "as ! ?i = hptr s (freep s)" "freep s = as ! ((?i + ?n - 1) mod ?n)"
    using fi cycle_pred [OF fi(1)] blocks_next [OF b fi(1)] by (auto intro: mod_less_divisor)
  have n: "?n - 1 < ?n" "?n - 1 < k" "k - (?n - 1) - 1 = k - ?n" using fi(1) assms(2) by auto
  from malloc_scan [OF b fi i(1,2) n(1,2) i(4), of n f, unfolded i(3) n(3)] show ?thesis
  proof
    assume "\<exists>i' < ?n. n \<le> hsize s (as ! i') \<and>
      malloc_loop k f n (freep s) (hptr s (freep s)) s = take_block n (as ! ((i' + ?n - 1) mod ?n)) (as ! i') s"
    then show ?thesis using take_ok [OF b _ _ assms(3)] by metis
  next
    assume *: "(\<forall>e \<le> ?n - 1. hsize s (as ! ((?i + e) mod ?n)) < n) \<and>
      malloc_loop k f n (freep s) (hptr s (freep s)) s = grow (k - ?n) f n s"
    have "hsize s a < n" if a: "a \<in> set as" for a
    proof -
      obtain j where j: "j < ?n" "as ! j = a" using a by (auto simp: in_set_conv_nth)
      obtain d where "d < ?n" "(?i + d) mod ?n = j" using cycle_distance [OF i(1) j(1)] by blast
      then show ?thesis using * j by (auto dest!: spec [of _ d])
    qed
    then show ?thesis using * by blast
  qed
qed

lemma blocks_nonzero:
  assumes "blocks s as"
  shows "freep s \<noteq> 0"
proof -
  obtain i where i: "i < length as" "as ! i = freep s" using assms by (auto simp: blocks_def in_set_conv_nth)
  have z: "as ! 0 = base s" "base s \<noteq> 0" using assms by (auto simp: blocks_def hd_conv_nth)
  then show ?thesis using blocks_less(2) [OF assms, of 0 i] i by (cases "i = 0") auto
qed

lemma blocks_fresh:
  assumes "blocks s as" and "base s < p" and "unat p \<notin> free_bytes s as"
  shows "p \<notin> set as"
proof
  assume "p \<in> set as"
  then obtain i where i: "i < length as" "as ! i = p" by (auto simp: in_set_conv_nth)
  have "as ! 0 = base s" using assms(1) by (auto simp: blocks_def hd_conv_nth)
  then have "i \<noteq> 0" using assms(2) i(2) by (cases "i = 0") auto
  then have "unat p \<in> block s p" using blocks_size [OF assms(1), of "i - 1"] i by simp
  then show False using assms(3) \<open>p \<in> set as\<close> by (auto simp: free_bytes_def)
qed

text \<open>The new memory that \<open>morecore\<close> asks for, when it is fresh, becomes free.\<close>

lemma morecore_ok:
  assumes b: "blocks s as" and "length as < f" and "nu = (if n < 4096 then 4096 else n)"
    and a: "answer s (trace s @ [Usbrk (sint (nu * 8))]) = Some r" and p: "p = word_of_int (rv r)" "p \<noteq> -1"
    and "base s < p" and "8 dvd unat p" and "unat p + 8 * unat nu < 2 ^ 32"
    and dis: "{unat p ..< unat p + 8 * unat nu} \<inter> free_bytes s as = {}" and nu: "nu \<noteq> 0"
  shows "\<exists>s' zs. morecore f n s = Ok (freep s') s' \<and> blocks s' zs \<and>
    free_bytes s' zs = free_bytes s as \<union> {unat p ..< unat p + 8 * unat nu} \<and> (\<exists>z \<in> set zs. nu \<le> hsize s' z) \<and>
    length zs \<le> Suc (length as) \<and> base s' = base s"
proof -
  let ?s = "s\<lparr>trace := trace s @ [Usbrk (sint (nu * 8))], hsize := (hsize s)(p := nu)\<rparr>"
  have "unat p \<in> {unat p ..< unat p + 8 * unat nu}" using nu by (simp add: unat_gt_0)
  then have "unat p \<notin> free_bytes s as" using dis by blast
  then have np: "p \<notin> set as" by (rule blocks_fresh [OF b assms(7)])
  have same: "\<And>a. a \<in> set as \<Longrightarrow> hsize ?s a = hsize s a" using np by auto
  have "good ?s as" "free_bytes ?s as = free_bytes s as"
    using b good_cong [of as ?s s, OF same] free_bytes_cong [of as ?s s, OF same] by (auto simp: blocks_def)
  moreover have "\<forall>a \<in> set (tl as). hsize ?s a \<noteq> 0" using b np by (cases as) (auto simp: blocks_def)
  ultimately have b': "blocks ?s as" using b assms(7) unfolding blocks_def by auto
  have bl: "block ?s p = {unat p ..< unat p + 8 * unat nu}" by (simp add: block_def bend_def)
  obtain j where j: "place as p j" "fits_at ?s (as ! j) p (drop (Suc j) as)"
    using place_exists [OF b', of p] assms(7-9) dis nu bl \<open>free_bytes ?s as = free_bytes s as\<close> by (auto simp: bend_def)
  obtain s' zs where s': "free f (p + 8) ?s = Ok () s'" "blocks s' zs" "free_bytes s' zs = free_bytes ?s as \<union> block ?s p"
      "\<exists>z \<in> set zs. hsize ?s p \<le> hsize s' z" "length zs \<le> Suc (length as)" "base s' = base ?s"
    using free_ok [OF b' j assms(2)] by blast
  have "morecore f n s = Ok (freep s') s'"
    using a p s'(1) unfolding morecore_def assms(3) [symmetric] Let_def by (simp add: usys_def kop_defs)
  then show ?thesis using s' \<open>free_bytes ?s as = free_bytes s as\<close> bl by (intro exI [of _ s'] exI [of _ zs]) simp
qed

lemma units_size:
  assumes "unat nbytes < 2 ^ 31 - 2 ^ 16"
  shows "unat (units nbytes) = (unat nbytes + 7) div 8 + 1"
proof -
  have "unat (nbytes + 8 - 1) = unat nbytes + 7"
    using assms by (simp add: unat_word_ariths)
  then have "unat ((nbytes + 8 - 1) div 8) = (unat nbytes + 7) div 8" by (simp add: unat_div)
  then show ?thesis using assms unfolding units_def by (simp add: unat_word_ariths)
qed

text \<open>
  The memory a program may rely on \<open>sbrk\<close> for: every call fails or returns the start of as many
  bytes as asked for, above the allocator's own variable, none of them in \<open>U\<close>.
\<close>

definition sbrk_fresh :: "nat set \<Rightarrow> 'a uheap_scheme \<Rightarrow> bool" where
  "sbrk_fresh U s \<longleftrightarrow> (\<forall>n > 0. \<exists>r. answer s (trace s @ [Usbrk n]) = Some r \<and>
     (rv r = -1 \<or> int (unat (base s)) < rv r \<and> 8 dvd rv r \<and> rv r + n \<le> 0x80000000 \<and>
       {nat (rv r) ..< nat (rv r + n)} \<inter> U = {}))"

lemma grow_ok:
  assumes b: "blocks s as" and "length as < f" and "Suc (length as) \<le> k" and n: "n \<noteq> 0" "unat n < 2 ^ 28"
    and sb: "sbrk_fresh (U \<union> free_bytes s as) s" and "U \<inter> free_bytes s as = {}"
  shows "\<exists>r s' zs. grow k f n s = Ok r s' \<and>
    (r = 0 \<and> blocks s' as \<and> free_bytes s' as = free_bytes s as \<or>
     (\<exists>q s1 as1. r = q + 8 \<and> blocks s1 as1 \<and> U \<inter> free_bytes s1 as1 = {} \<and> taken s1 as1 n q s' zs))"
proof -
  define nu where "nu = (if n < 4096 then 4096 else n)"
  have nu: "nu \<noteq> 0" "n \<le> nu" "unat nu < 2 ^ 28" using n unfolding nu_def by (auto simp: word_less_nat_alt word_le_nat_alt)
  have "unat (nu * 8) = unat nu * 8" using nu(3) by (subst unat_mult_lem [THEN iffD1]) auto
  then have "int (unat (nu * 8)) = 8 * int (unat nu)" by simp
  then have u: "uint (nu * 8) = 8 * int (unat nu)" by simp
  have "int (unat nu) < int (2 ^ 28)" using nu(3) by (subst of_nat_less_iff)
  then have "uint (nu * 8) < 2 ^ 31" unfolding u by simp
  then have sz: "sint (nu * 8) = 8 * int (unat nu)"
    unfolding sint_uint u [symmetric] by (intro signed_take_bit_int_eq_self) (simp_all add: order_trans [of _ 0])
  have "0 < unat nu" using nu(1) by (simp add: unat_gt_0)
  then have "0 < sint (nu * 8)" unfolding sz by linarith
  then obtain r where r: "answer s (trace s @ [Usbrk (sint (nu * 8))]) = Some r"
    and ok: "rv r = -1 \<or> int (unat (base s)) < rv r \<and> 8 dvd rv r \<and> rv r + sint (nu * 8) \<le> 0x80000000 \<and>
       {nat (rv r) ..< nat (rv r + sint (nu * 8))} \<inter> (U \<union> free_bytes s as) = {}"
    using sb unfolding sbrk_fresh_def by blast
  let ?p = "word_of_int (rv r) :: uint"
  show ?thesis
  proof (cases "rv r = -1")
    case True
    let ?s = "s\<lparr>trace := trace s @ [Usbrk (sint (nu * 8))]\<rparr>"
    have "grow k f n s = Ok 0 ?s"
      using r True unfolding grow_def morecore_def nu_def [symmetric] Let_def by (simp add: usys_def kop_defs)
    moreover have "blocks ?s as" "free_bytes ?s as = free_bytes s as" 
      using b good_cong [of as ?s s] free_bytes_cong [of as ?s s] by (auto simp: blocks_def)
    ultimately show ?thesis by blast
  next
    case False
    then have o: "int (unat (base s)) < rv r" "8 dvd rv r" "rv r + 8 * int (unat nu) \<le> 0x80000000"
       "{nat (rv r) ..< nat (rv r + 8 * int (unat nu))} \<inter> (U \<union> free_bytes s as) = {}" using ok sz by auto
    have "0 \<le> rv r" "rv r < 0x80000000" using o(1,3) \<open>0 < unat nu\<close> by linarith+
    then have p: "unat ?p = nat (rv r)" "int (unat ?p) = rv r" by (simp_all add: unat_eq_nat_uint uint_word_of_int)
    have "nat (rv r + 8 * int (unat nu)) = unat ?p + 8 * unat nu" using p(2) by linarith
    then have region: "{unat ?p ..< unat ?p + 8 * unat nu} \<inter> (U \<union> free_bytes s as) = {}" using o(4) p(1) by simp
    have "unat ?p < 0x80000000" using p(1) \<open>rv r < 0x80000000\<close> by simp
    then have "?p \<noteq> -1" by (auto simp: unsigned_minus_1_eq_mask mask_eq_exp_minus_1)
    moreover have "int (unat (base s)) < int (unat ?p)" using o(1) p(2) by linarith
    then have "base s < ?p" unfolding of_nat_less_iff word_less_nat_alt .
    moreover have "8 dvd unat ?p" using o(2) p(2) by presburger
    moreover have "unat ?p + 8 * unat nu \<le> 0x80000000" using o(3) p(2) by linarith
    then have "unat ?p + 8 * unat nu < 2 ^ 32" by simp
    moreover have "{unat ?p ..< unat ?p + 8 * unat nu} \<inter> free_bytes s as = {}" using region by blast
    ultimately obtain s1 as1 where m: "morecore f n s = Ok (freep s1) s1" "blocks s1 as1"
        "free_bytes s1 as1 = free_bytes s as \<union> {unat ?p ..< unat ?p + 8 * unat nu}" "\<exists>z \<in> set as1. nu \<le> hsize s1 z"
        "length as1 \<le> Suc (length as)"
      using morecore_ok [OF b assms(2) nu_def r refl] nu(1) by blast
    have "freep s1 \<noteq> 0" by (rule blocks_nonzero [OF m(2)])
    then have "grow k f n s = malloc_loop k f n (freep s1) (hptr s1 (freep s1)) s1"
      using m(1) by (simp add: grow_def kop_defs)
    moreover have "\<not> (\<forall>a \<in> set as1. hsize s1 a < n)" using m(4) nu(2) by (meson not_less order_trans)
    ultimately obtain q s' zs where "grow k f n s = Ok (q + 8) s'" "taken s1 as1 n q s' zs"
      using malloc_first [OF m(2) _ n(1), of k f] m(5) assms(3) by (metis order_trans)
    moreover have "U \<inter> free_bytes s1 as1 = {}" using m(3) region assms(7) by blast
    ultimately show ?thesis using m(2) by blast
  qed
qed

lemma taken_payload:
  assumes "taken s as (units nbytes) q s' zs" and "unat nbytes < 2 ^ 31 - 2 ^ 16"
  shows "unat (q + 8) = unat q + 8" and "{unat (q + 8) ..< unat (q + 8) + unat nbytes} \<subseteq> block s' q"
proof -
  have e: "bend s' q < 2 ^ 32" "hsize s' q = units nbytes" using assms(1) by (auto simp: taken_def)
  have u: "unat (units nbytes) = (unat nbytes + 7) div 8 + 1" by (rule units_size [OF assms(2)])
  then show q: "unat (q + 8) = unat q + 8" using e unat_end [of q 1] by (simp add: bend_def)
  show "{unat (q + 8) ..< unat (q + 8) + unat nbytes} \<subseteq> block s' q" using e(2) u unfolding q by (auto simp: block_def bend_def)
qed

section \<open>Properties\<close>

text \<open>
  C1: \<open>malloc\<close> hands out memory that nobody uses. Let \<open>U\<close> be the bytes in use, none of them free,
  and let \<open>sbrk\<close> return fresh memory or fail. On a well-formed heap, or the first call, \<open>malloc\<close>
  returns, whether or not it must ask for memory; the heap is well formed again, its blocks
  sorted, apart and without a byte in use; the result is 0 or the address of as many bytes as asked for,
  which with their header are neither in use nor free.
\<close>

theorem malloc_safe:
  assumes "blocks (init_base s) as" and "U \<inter> free_bytes (init_base s) as = {}"
    and "sbrk_fresh (U \<union> free_bytes (init_base s) as) s"
    and "unat nbytes < 2 ^ 31 - 2 ^ 16" and "2 * length as + 1 \<le> k"
  shows "\<exists>r s' zs. malloc k nbytes s = Ok r s' \<and> blocks s' zs \<and> U \<inter> free_bytes s' zs = {} \<and>
    (r = 0 \<or> hsize s' (r - 8) = units nbytes \<and> {unat r ..< unat r + unat nbytes} \<subseteq> block s' (r - 8) \<and>
      block s' (r - 8) \<inter> (U \<union> free_bytes s' zs) = {})"
proof -
  let ?s = "init_base s" and ?n = "units nbytes"
  have m: "malloc k nbytes s = malloc_loop k k ?n (freep ?s) (hptr ?s (freep ?s)) ?s"
    by (simp add: malloc_def kop_defs)
  have u: "unat ?n = (unat nbytes + 7) div 8 + 1" by (rule units_size [OF assms(4)])
  then have n: "?n \<noteq> 0" "unat ?n < 2 ^ 28" using assms(4) by auto
  have as: "0 < length as" using assms(1) by (simp add: blocks_def)
  have sb: "sbrk_fresh (U \<union> free_bytes ?s as) ?s" using assms(3) by (auto simp: sbrk_fresh_def init_base_def)
  have result: "blocks s' zs \<and> U \<inter> free_bytes s' zs = {} \<and>
      (hsize s' (q + 8 - 8) = ?n \<and> {unat (q + 8) ..< unat (q + 8) + unat nbytes} \<subseteq> block s' (q + 8 - 8) \<and>
      block s' (q + 8 - 8) \<inter> (U \<union> free_bytes s' zs) = {})"
    if "taken s1 as1 ?n q s' zs" "U \<inter> free_bytes s1 as1 = {}" for q s1 as1 s' zs
    using that taken_payload [OF that(1) assms(4)] unfolding taken_def by auto
  from malloc_first [OF assms(1) _ n(1), of k k] assms(5) consider
      q s' zs where "malloc k nbytes s = Ok (q + 8) s'" "taken ?s as ?n q s' zs"
    | "malloc k nbytes s = grow (k - length as) k ?n ?s" unfolding m by fastforce
  then show ?thesis
  proof cases
    case 1
    then show ?thesis using result [OF 1(2) assms(2)] by blast
  next
    case 2
    have "length as < k" "Suc (length as) \<le> k - length as" using assms(5) as by linarith+
    from grow_ok [OF assms(1) this n sb assms(2)] obtain r s' zs where g: "grow (k - length as) k ?n ?s = Ok r s'"
        "r = 0 \<and> blocks s' as \<and> free_bytes s' as = free_bytes ?s as \<or>
         (\<exists>q s1 as1. r = q + 8 \<and> blocks s1 as1 \<and> U \<inter> free_bytes s1 as1 = {} \<and> taken s1 as1 ?n q s' zs)" by blast
    from g(2) show ?thesis
    proof (elim disjE exE conjE)
      fix q s1 as1
      assume "r = q + 8" "U \<inter> free_bytes s1 as1 = {}" "taken s1 as1 ?n q s' zs"
      then show ?thesis using result [of s1 as1 q s' zs] 2 g(1) by auto
    next
      assume "r = 0" "blocks s' as" "free_bytes s' as = free_bytes ?s as"
      then show ?thesis using 2 g(1) assms(2) by auto
    qed
  qed
qed

definition sample_heap :: uheap where
  "sample_heap =
     \<lparr>answer = (\<lambda>h. Some (case last h of
          Usbrk n \<Rightarrow> \<lparr>rv = (if n \<le> 0x10000 then 0x1000 else -1), rbytes = [], rnums = []\<rparr>
        | _ \<Rightarrow> \<lparr>rv = 0, rbytes = [], rnums = []\<rparr>)),
      trace = [], hptr = (\<lambda>_. 0x800), hsize = (\<lambda>a. if a = 0x1000 then 4 else 0), freep = 0, base = 0x800\<rparr>"

theorem malloc_safe_witness:
  "\<exists>r s' zs. malloc 9 20 sample_heap = Ok r s' \<and> blocks s' zs \<and> {0 ..< 0x1000} \<inter> free_bytes s' zs = {} \<and>
    (r = 0 \<or> hsize s' (r - 8) = 4 \<and> {unat r ..< unat r + 20} \<subseteq> block s' (r - 8) \<and>
      block s' (r - 8) \<inter> ({0 ..< 0x1000} \<union> free_bytes s' zs) = {})"
proof -
  have "blocks (init_base sample_heap) [0x800]" "free_bytes (init_base sample_heap) [0x800] = {}"
    by (simp_all add: sample_heap_def init_base_def blocks_def bend_def block_def)
  moreover have "sbrk_fresh {0 ..< 0x1000} sample_heap" by (simp add: sbrk_fresh_def sample_heap_def)
  moreover have "units 20 = 4" by (simp add: units_def)
  ultimately show ?thesis using malloc_safe [of sample_heap "[0x800]" "{0 ..< 0x1000}" 20 9] by simp
qed

text \<open>
  C2: \<open>free\<close> gives a block back. For a block above the allocator's variable that meets no free
  block, \<open>free\<close> returns without a system call and the heap is well formed again; the free bytes
  are those of before and those of the block, whether it is joined with the block before it, the
  block after it, both or none.
\<close>

theorem free_returns:
  assumes "blocks s as" and "base s < ap - 8" and "8 dvd unat (ap - 8)" and "bend s (ap - 8) < 2 ^ 32"
    and "hsize s (ap - 8) \<noteq> 0" and "block s (ap - 8) \<inter> free_bytes s as = {}" and "length as < k"
  shows "\<exists>s' zs. free k ap s = Ok () s' \<and> blocks s' zs \<and>
    free_bytes s' zs = free_bytes s as \<union> block s (ap - 8) \<and> trace s' = trace s"
proof -
  obtain j where "place as (ap - 8) j" "fits_at s (as ! j) (ap - 8) (drop (Suc j) as)"
    using place_exists [OF assms(1,2,6,4,3,5)] by blast
  from free_ok [OF assms(1) this assms(7)] show ?thesis by auto
qed

theorem free_returns_witness:
  "\<exists>s' zs. free 9 0x1008 (sample_heap\<lparr>freep := 0x800\<rparr>) = Ok () s' \<and> blocks s' zs \<and>
    free_bytes s' zs = {0x1000 ..< 0x1020} \<and> trace s' = []"
proof -
  let ?s = "sample_heap\<lparr>freep := 0x800\<rparr>"
  have "blocks ?s [0x800]" "free_bytes ?s [0x800] = {}" "block ?s 0x1000 = {0x1000 ..< 0x1020}"
    "bend ?s 0x1000 < 2 ^ 32" "hsize ?s 0x1000 \<noteq> 0" "base ?s < 0x1000" "trace ?s = []"
    by (simp_all add: sample_heap_def blocks_def bend_def block_def)
  then show ?thesis using free_returns [of ?s "[0x800]" "0x1008" 9] by simp
qed

end
