(* ===== verification/Spec2Isabelle.thy ===== *)
theory Spec2Isabelle
  imports PageTable Trap Kbd LockProtocol Diskfmt Ring Grep Uprogs ShEnds Umalloc
begin

text \<open>
  A verification library for the system under \<open>src/\<close>: an xv6 kernel for x86 whose processes
  have several kernel threads, with mutexes for them and a tournament tree on top of the
  mutexes, and the user programs that run on it.

  \<^bold>\<open>How the code is represented.\<close> Every C function is a definition of the same name (suffixed
  where HOL has the name already). A function that changes kernel state has type
  \<open>('s, 'a) kop\<close>, from a state to an \<open>outcome\<close>: \<open>Ok a s\<close> is a return, \<open>Stop x s\<close> ends the
  run with a reason \<open>x\<close>. The reasons are \<open>Panic msg\<close> (a call of \<open>panic\<close>), \<open>Swtch\<close> (the
  thread gives up the processor in \<open>sched\<close>, or the scheduler enters a thread), \<open>Spin\<close> (a busy
  wait only another processor can end), \<open>Diverge\<close> (a loop with no exit) and \<open>Undef msg\<close> (the C
  code has undefined behaviour there, such as an index out of bounds). What a thread does after
  it is switched in again is a definition of its own, with the suffix \<open>_resume\<close>, that starts
  where \<open>sched\<close> returns; waiting loops are separate definitions so that both the first entry and
  the resumption use them. Machine integers are words of their width.

  The state is one extensible record, extended theory by theory in the order in which the
  components depend on each other: processors, interrupt flags and spin locks (\<open>machine\<close>),
  memory and free list (\<open>kmem_state\<close>), kernel page directory (\<open>vm_state\<close>), process table
  (\<open>proc_state\<close>), pipes, sleep locks, buffer cache and disk, log, inodes, console, open files,
  time, mutexes. Definitions and lemmas of a lower component hold for every extension.

  \<^bold>\<open>Theories.\<close>
  \<^item> \<open>Prelude\<close>: the kernel operations and their calculus of invariants (\<open>keeps\<close>), bytes of words.
  \<^item> \<open>Ring\<close>: circular buffers with free-running indices, and the locale \<open>bounded_queue\<close>.
  \<^item> \<open>Spinlock\<close> (\<open>spinlock.c\<close>, parts of \<open>proc.c\<close> and \<open>x86.h\<close>): interrupt nesting, spin locks.
    The locales \<open>machine_upd\<close> and \<open>machine_field\<close> give the frame of every state field of
    the later theories.
  \<^item> \<open>LockProtocol\<close>: the same lock between processors, one memory access at a time.
  \<^item> \<open>Strings\<close> (\<open>string.c\<close>), \<open>Mmu\<close> (\<open>mmu.h\<close>, \<open>memlayout.h\<close>), \<open>Diskfmt\<close> (\<open>fs.h\<close>).
  \<^item> \<open>Kalloc\<close> (\<open>kalloc.c\<close>): the free list in memory, against an abstract list of pages.
  \<^item> \<open>Vm\<close> (\<open>vm.c\<close>): page tables.
  \<^item> \<open>Proc\<close> (\<open>proc.c\<close>): process table, scheduler, sleep and wakeup, allocation, kill.
  \<^item> \<open>Pipe\<close> (\<open>pipe.c\<close>), \<open>Sleeplock\<close> (\<open>sleeplock.c\<close>).
  \<^item> \<open>Bio\<close> (\<open>bio.c\<close>, \<open>memide.c\<close>), \<open>Log\<close> (\<open>log.c\<close>), \<open>FsBlock\<close>, \<open>FsInode\<close>, \<open>FsDir\<close> (\<open>fs.c\<close>).
  \<^item> \<open>Console\<close> (\<open>console.c\<close>, \<open>uart.c\<close>), \<open>Kbd\<close> (\<open>kbd.c\<close>).
  \<^item> \<open>File\<close> (\<open>file.c\<close>), \<open>ProcOps\<close> (\<open>proc.c\<close>: first process, fork, exit, wait, dump).
  \<^item> \<open>Kthread\<close> (\<open>proc.c\<close>, \<open>kthread.h\<close>, \<open>tournament_tree.c\<close>).
  \<^item> \<open>Syscall\<close> (\<open>syscall.c\<close>), \<open>Exec\<close> (\<open>exec.c\<close>), \<open>SysFile\<close> (\<open>sysfile.c\<close>), \<open>Trap\<close>
    (\<open>sysproc.c\<close>, \<open>trap.c\<close>).
  \<^item> \<open>Ulib\<close> (\<open>ulib.c\<close>, \<open>printf.c\<close>): the user library. User programs have operations of the same type
    over a \<open>uworld\<close>, which keeps the list of the system calls made and a function that gives the
    answer to each; a property assumes only what it needs of the answers.
  \<^item> \<open>Grep\<close> (\<open>grep.c\<close>), \<open>Sh\<close> and \<open>ShParse\<close> (\<open>sh.c\<close>), \<open>Uprogs\<close> (the other programs).

  \<^bold>\<open>What the theorems show.\<close>
  \<^item> Locks: mutual exclusion of the spin lock in every interleaving, balance of the interrupt
    nesting, panics on misuse; a sleep lock excludes and blocks.
  \<^item> Memory: allocated pages are distinct and valid; what \<open>freerange\<close> frees; page arithmetic.
  \<^item> Strings and formats: overlap-safe moves, terminating string functions, round trips of the
    on-disk structures.
  \<^item> Processes: the scheduler runs the first runnable thread, no wake-up is lost, kill reaches
    every thread, what a new process starts with.
  \<^item> Pipes: first in, first out in every interleaving; blocking and the error return.
  \<^item> User programs: the matcher of \<open>grep\<close> decides the language of its pattern and \<open>grep\<close> prints the
    matching lines; the parser of the shell inverts printing; what \<open>wc\<close> counts.

  \<^bold>\<open>Bounds and fuel.\<close> A loop that the C code bounds by a count is recursion on that count. Loops
  over addresses (\<open>mappages\<close>, \<open>deallocuvm\<close>, \<open>copyout\<close>) take fuel \<open>vm_fuel\<close>, one more than the
  number of pages of the address space; every round advances by a page. Running out of fuel is
  the outcome \<open>Stop Diverge\<close>, so it is never mistaken for a return.

  \<^bold>\<open>Not modelled.\<close> Assembly (\<open>swtch.S\<close>, \<open>trapasm.S\<close>, boot code), device registers (\<open>lapic.c\<close>,
  \<open>ioapic.c\<close>, \<open>ide.c\<close>, \<open>uartinit\<close>), processor discovery (\<open>mp.c\<close>), the user-level allocator
XX The addresses of \<open>forkret\<close>, \<open>trapret\<close> and the end of the kernel image are
  fields of the state. Processors interleave only at the points where a thread stops; the memory
  accesses inside a critical section are not interleaved, except in \<open>LockProtocol\<close> and in the
  step relation of \<open>Pipe\<close>.
\<close>

end
